(* ===== verification/Prelude.thy ===== *)
theory Prelude
  imports Main "HOL-Library.Word" "HOL-Library.Multiset" "HOL-Library.Char_ord"
    "HOL-Library.List_Lexorder"
begin

text \<open>
  Shared vocabulary of the development: the width of the machine integers, the exceptions
  of \<^verbatim>\<open>src/common/bing_exception.hpp\<close> together with the other ways a C++ call can fail to
  return, the state-and-exception combinators in which stateful operations are written,
  \<^verbatim>\<open>std::vector::at\<close>, \<^verbatim>\<open>std::map::operator[]\<close> and \<^verbatim>\<open>std::to_string\<close>, and generic lemmas
  on lists, words and strings.
\<close>

section \<open>Machine integers\<close>

type_synonym u8 = "8 word"
type_synonym u32 = "32 word"
type_synonym u64 = "64 word"

text \<open>The lemma collections of the development.\<close>

named_theorems exec_simps \<open>evaluation rules of the state-and-exception combinators\<close>
named_theorems exec_inv \<open>rules that carry an invariant through the combinators\<close>

section \<open>Failures\<close>

text \<open>
  The three exception classes of \<^verbatim>\<open>bing_exception.hpp\<close>, the standard exceptions the code
  raises itself or through the standard library, an exception of a third-party library, and
  the two outcomes that are no exceptions: undefined behaviour, and a call that never
  returns.
\<close>

datatype bing_error =
    InsufficientFundsException string u64 u64
  | InvalidTargetAddressException
  | InvalidSourceAddressException
  | InvalidArgument string
  | OutOfRange string
  | LibraryException string
  | ParseError string
  | UndefinedBehaviour
  | NeverReturns

type_synonym 'a result = "bing_error + 'a"

text \<open>The virtual \<^verbatim>\<open>what()\<close> of each exception.\<close>

fun what :: "bing_error \<Rightarrow> string" where
  "what (InsufficientFundsException m _ _) = m"
| "what InvalidTargetAddressException = ''invalid target address''"
| "what InvalidSourceAddressException = ''invalid source address''"
| "what (InvalidArgument m) = m"
| "what (OutOfRange m) = m"
| "what (LibraryException m) = m"
| "what (ParseError m) = m"
| "what UndefinedBehaviour = []"
| "what NeverReturns = []"

text \<open>What \<^verbatim>\<open>catch (exception& e)\<close> can intercept.\<close>

fun is_exception :: "bing_error \<Rightarrow> bool" where
  "is_exception UndefinedBehaviour = False"
| "is_exception NeverReturns = False"
| "is_exception _ = True"

text \<open>What \<^verbatim>\<open>catch (json::parse_error& e)\<close> intercepts.\<close>

fun is_parse_error :: "bing_error \<Rightarrow> bool" where
  "is_parse_error (ParseError _) = True"
| "is_parse_error _ = False"

section \<open>State and exceptions\<close>

text \<open>
  A member function is a state transformer that also says how it ended. The state reached
  is kept when an exception leaves the function, as in C++: what was assigned before the
  throw stays assigned.
\<close>

type_synonym ('s, 'a) exec = "'s \<Rightarrow> 'a result \<times> 's"

definition ret :: "'a \<Rightarrow> ('s, 'a) exec" where
  "ret x = (\<lambda>s. (Inr x, s))"

definition throw :: "bing_error \<Rightarrow> ('s, 'a) exec" where
  "throw e = (\<lambda>s. (Inl e, s))"

definition bindE :: "('s, 'a) exec \<Rightarrow> ('a \<Rightarrow> ('s, 'b) exec) \<Rightarrow> ('s, 'b) exec" where
  "bindE m f = (\<lambda>s. case m s of (r, s') \<Rightarrow> (case r of Inl e \<Rightarrow> (Inl e, s') | Inr x \<Rightarrow> f x s'))"

definition getS :: "('s \<Rightarrow> 'a) \<Rightarrow> ('s, 'a) exec" where
  "getS f = (\<lambda>s. (Inr (f s), s))"

definition modifyS :: "('s \<Rightarrow> 's) \<Rightarrow> ('s, unit) exec" where
  "modifyS f = (\<lambda>s. (Inr (), f s))"

definition liftR :: "'a result \<Rightarrow> ('s, 'a) exec" where
  "liftR r = (\<lambda>s. (r, s))"

definition catchE :: "('s, 'a) exec \<Rightarrow> (bing_error \<Rightarrow> ('s, 'a) exec) \<Rightarrow> ('s, 'a) exec" where
  "catchE m h = (\<lambda>s. case m s of (r, s') \<Rightarrow>
     (case r of Inl e \<Rightarrow> (if is_exception e then h e s' else (Inl e, s')) | Inr x \<Rightarrow> (Inr x, s')))"

text \<open>The same for functions without state: \<^verbatim>\<open>bindR\<close> sequences two results.\<close>

definition bindR :: "'a result \<Rightarrow> ('a \<Rightarrow> 'b result) \<Rightarrow> 'b result" where
  "bindR r f = (case r of Inl e \<Rightarrow> Inl e | Inr x \<Rightarrow> f x)"

text \<open>A range-based \<^verbatim>\<open>for\<close> loop that updates a local accumulator.\<close>

fun foldE :: "('a \<Rightarrow> 'b \<Rightarrow> ('s, 'b) exec) \<Rightarrow> 'a list \<Rightarrow> 'b \<Rightarrow> ('s, 'b) exec" where
  "foldE f [] acc = ret acc"
| "foldE f (x # xs) acc = bindE (f x acc) (\<lambda>acc'. foldE f xs acc')"

fun foldR :: "('a \<Rightarrow> 'b \<Rightarrow> 'b result) \<Rightarrow> 'a list \<Rightarrow> 'b \<Rightarrow> 'b result" where
  "foldR f [] acc = Inr acc"
| "foldR f (x # xs) acc = bindR (f x acc) (\<lambda>acc'. foldR f xs acc')"

text \<open>A loop that only acts on the state.\<close>

fun forE :: "('a \<Rightarrow> ('s, unit) exec) \<Rightarrow> 'a list \<Rightarrow> ('s, unit) exec" where
  "forE f [] = ret ()"
| "forE f (x # xs) = bindE (f x) (\<lambda>_. forE f xs)"

text \<open>Running an operation of one component inside the state of a larger one.\<close>

definition on_fst :: "('a, 'r) exec \<Rightarrow> ('a \<times> 'b, 'r) exec" where
  "on_fst m = (\<lambda>(a, b). case m a of (r, a') \<Rightarrow> (r, (a', b)))"

definition on_snd :: "('b, 'r) exec \<Rightarrow> ('a \<times> 'b, 'r) exec" where
  "on_snd m = (\<lambda>(a, b). case m b of (r, b') \<Rightarrow> (r, (a, b')))"

subsection \<open>Evaluation rules\<close>

lemma ret_eval [simp, exec_simps]: "ret x s = (Inr x, s)"
  by (simp add: ret_def)

lemma throw_eval [simp, exec_simps]: "throw e s = (Inl e, s)"
  by (simp add: throw_def)

lemma getS_eval [simp, exec_simps]: "getS f s = (Inr (f s), s)"
  by (simp add: getS_def)

lemma modifyS_eval [simp, exec_simps]: "modifyS f s = (Inr (), f s)"
  by (simp add: modifyS_def)

lemma liftR_eval [simp, exec_simps]: "liftR r s = (r, s)"
  by (simp add: liftR_def)

lemma bindE_Inr [simp]: "m s = (Inr x, s') \<Longrightarrow> bindE m f s = f x s'"
  by (simp add: bindE_def)

lemma bindE_Inl [simp]: "m s = (Inl e, s') \<Longrightarrow> bindE m f s = (Inl e, s')"
  by (simp add: bindE_def)

lemma bindE_Inr_iff [exec_simps]:
  "bindE m f s = (Inr y, s'') \<longleftrightarrow> (\<exists>x s'. m s = (Inr x, s') \<and> f x s' = (Inr y, s''))"
  by (auto simp: bindE_def split: prod.splits sum.splits)

lemma bindE_Inl_iff [exec_simps]:
  "bindE m f s = (Inl e, s'') \<longleftrightarrow>
     m s = (Inl e, s'') \<or> (\<exists>x s'. m s = (Inr x, s') \<and> f x s' = (Inl e, s''))"
  by (auto simp: bindE_def split: prod.splits sum.splits)

lemma bindE_InrE:
  assumes "bindE m f s = (Inr y, s'')"
  obtains x s' where "m s = (Inr x, s')" "f x s' = (Inr y, s'')"
  using assms by (auto simp: bindE_Inr_iff)

lemma bindE_assoc: "bindE (bindE m f) g = bindE m (\<lambda>x. bindE (f x) g)"
  by (auto simp: fun_eq_iff bindE_def split: prod.splits sum.splits)

lemma ret_Inr_iff: "ret x s = (Inr y, t) \<longleftrightarrow> y = x \<and> t = s"
  by auto

lemma bindR_Inr [simp]: "bindR (Inr x) f = f x"
  by (simp add: bindR_def)

lemma bindR_Inl [simp]: "bindR (Inl e) f = Inl e"
  by (simp add: bindR_def)

lemma bindR_Inr_iff [exec_simps]: "bindR r f = Inr y \<longleftrightarrow> (\<exists>x. r = Inr x \<and> f x = Inr y)"
  by (cases r) auto

lemma bindR_Inl_iff [exec_simps]:
  "bindR r f = Inl e \<longleftrightarrow> r = Inl e \<or> (\<exists>x. r = Inr x \<and> f x = Inl e)"
  by (cases r) auto

lemma catchE_Inr_iff [exec_simps]:
  "catchE m h s = (Inr x, s'') \<longleftrightarrow>
     m s = (Inr x, s'') \<or> (\<exists>e s'. m s = (Inl e, s') \<and> is_exception e \<and> h e s' = (Inr x, s''))"
  by (auto simp: catchE_def split: prod.splits sum.splits if_splits)

lemma catchE_Inr [simp]: "m s = (Inr x, s') \<Longrightarrow> catchE m h s = (Inr x, s')"
  by (simp add: catchE_def)

lemma catchE_Inl [simp]:
  "m s = (Inl e, s') \<Longrightarrow> catchE m h s = (if is_exception e then h e s' else (Inl e, s'))"
  by (simp add: catchE_def)

lemma foldE_append:
  "foldE f (xs @ ys) acc = bindE (foldE f xs acc) (\<lambda>acc'. foldE f ys acc')"
  by (induction xs arbitrary: acc) (auto simp: fun_eq_iff bindE_def split: prod.splits sum.splits)

lemma on_fst_eval [simp, exec_simps]: "on_fst m (a, b) = (case m a of (r, a') \<Rightarrow> (r, (a', b)))"
  by (simp add: on_fst_def)

lemma on_snd_eval [simp, exec_simps]: "on_snd m (a, b) = (case m b of (r, b') \<Rightarrow> (r, (a, b')))"
  by (simp add: on_snd_def)

subsection \<open>Invariants through the combinators\<close>

text \<open>
  \<^verbatim>\<open>keeps P m\<close>: whatever way \<^verbatim>\<open>m\<close> ends, the state it leaves satisfies \<^verbatim>\<open>P\<close> if the state
  it started from did. The rules below lift it through every combinator, so a component's
  invariant is proved on its assignments only.
\<close>

definition keeps :: "('s \<Rightarrow> bool) \<Rightarrow> ('s, 'a) exec \<Rightarrow> bool" where
  "keeps P m \<longleftrightarrow> (\<forall>s. P s \<longrightarrow> P (snd (m s)))"

lemma keepsI: "(\<And>s. P s \<Longrightarrow> P (snd (m s))) \<Longrightarrow> keeps P m"
  by (simp add: keeps_def)

lemma keepsD: "keeps P m \<Longrightarrow> P s \<Longrightarrow> m s = (r, s') \<Longrightarrow> P s'"
  by (metis keeps_def snd_conv)

lemma keeps_ret [exec_inv]: "keeps P (ret x)"
  by (simp add: keeps_def)

lemma keeps_throw [exec_inv]: "keeps P (throw e)"
  by (simp add: keeps_def)

lemma keeps_getS [exec_inv]: "keeps P (getS f)"
  by (simp add: keeps_def)

lemma keeps_liftR [exec_inv]: "keeps P (liftR r)"
  by (simp add: keeps_def)

lemma keeps_modifyS: "(\<And>s. P s \<Longrightarrow> P (f s)) \<Longrightarrow> keeps P (modifyS f)"
  by (simp add: keeps_def)

lemma keeps_bindE [exec_inv]: "keeps P m \<Longrightarrow> (\<And>x. keeps P (f x)) \<Longrightarrow> keeps P (bindE m f)"
  by (auto simp: keeps_def bindE_def split: prod.splits sum.splits dest: spec)

lemma keeps_catchE [exec_inv]: "keeps P m \<Longrightarrow> (\<And>e. keeps P (h e)) \<Longrightarrow> keeps P (catchE m h)"
  by (auto simp: keeps_def catchE_def split: prod.splits sum.splits dest: spec)

lemma keeps_foldE [exec_inv]: "(\<And>x acc. keeps P (f x acc)) \<Longrightarrow> keeps P (foldE f xs acc)"
  by (induction xs arbitrary: acc) (auto intro: exec_inv)

lemma keeps_forE [exec_inv]: "(\<And>x. keeps P (f x)) \<Longrightarrow> keeps P (forE f xs)"
  by (induction xs) (auto intro: exec_inv)

lemma keeps_if [exec_inv]: "keeps P a \<Longrightarrow> keeps P b \<Longrightarrow> keeps P (if c then a else b)"
  by simp

lemma keeps_on_snd [exec_inv]:
  "(\<And>a b b'. P (a, b) \<Longrightarrow> P (a, b')) \<Longrightarrow> keeps P (on_snd m)"
  by (auto simp: keeps_def on_snd_def split: prod.splits)

lemma keeps_on_fst:
  "keeps P m \<Longrightarrow> keeps (\<lambda>(a, b). P a) (on_fst m)"
  by (auto simp: keeps_def on_fst_def split: prod.splits)

subsection \<open>Total correctness\<close>

text \<open>
  From every state with \<^verbatim>\<open>P\<close> the operation returns, with a result that represents \<^verbatim>\<open>x\<close>, in a state
  with \<^verbatim>\<open>P\<close>.
\<close>

definition yields :: "('s \<Rightarrow> bool) \<Rightarrow> ('a \<Rightarrow> 'b \<Rightarrow> bool) \<Rightarrow> ('s, 'b) exec \<Rightarrow> 'a \<Rightarrow> bool" where
  "yields P R m x \<longleftrightarrow> (\<forall>s. P s \<longrightarrow> (\<exists>y s'. m s = (Inr y, s') \<and> R x y \<and> P s'))"

lemma yieldsI: "(\<And>s. P s \<Longrightarrow> \<exists>y s'. m s = (Inr y, s') \<and> R x y \<and> P s') \<Longrightarrow> yields P R m x"
  by (simp add: yields_def)

lemma yieldsE:
  assumes "yields P R m x" "P s"
  obtains y s' where "m s = (Inr y, s')" "R x y" "P s'"
  using assms unfolding yields_def by blast

lemma yields_ret: "R x y \<Longrightarrow> yields P R (ret y) x"
  by (simp add: yields_def)

lemma yields_bind:
  assumes "yields P R m x" "\<And>y. R x y \<Longrightarrow> yields P R' (f y) z"
  shows "yields P R' (bindE m f) z"
proof (rule yieldsI)
  fix s assume "P s"
  with assms(1) obtain y s1 where y: "m s = (Inr y, s1)" "R x y" "P s1" by (rule yieldsE)
  from assms(2) [OF y(2)] y(3) obtain z' s2 where "f y s1 = (Inr z', s2)" "R' z z'" "P s2" by (rule yieldsE)
  with y(1) show "\<exists>y s'. bindE m f s = (Inr y, s') \<and> R' z y \<and> P s'" by simp
qed

lemma yields_bind_eq: "yields P (=) m x \<Longrightarrow> yields P R (f x) z \<Longrightarrow> yields P R (bindE m f) z"
  using yields_bind [where R = "(=)"] by metis

lemma yields_getS: "(\<And>s. P s \<Longrightarrow> R x (f s)) \<Longrightarrow> yields P R (getS f) x"
  by (simp add: yields_def)

lemma yields_liftR: "r = Inr x \<Longrightarrow> yields P (=) (liftR r) x"
  by (simp add: yields_def)

text \<open>A loop represents a fold.\<close>

lemma yields_foldE:
  assumes "list_all2 Q xs ys" "R a b"
    and "\<And>x y a b. x \<in> set xs \<Longrightarrow> Q x y \<Longrightarrow> R a b \<Longrightarrow> yields P R (g y b) (f x a)"
  shows "yields P R (foldE g ys b) (fold f xs a)"
  using assms
proof (induction xs ys arbitrary: a b rule: list_all2_induct)
  case Nil
  then show ?case unfolding foldE.simps by (intro yields_ret) simp
next
  case (Cons x xs y ys)
  then show ?case unfolding foldE.simps by (auto intro!: yields_bind [where R = R])
qed

section \<open>Vectors, maps and numbers of the standard library\<close>

text \<open>\<^verbatim>\<open>std::vector::at\<close>: bounds-checked.\<close>

definition vec_at :: "'a list \<Rightarrow> nat \<Rightarrow> 'a result" where
  "vec_at xs i = (if i < length xs then Inr (xs ! i) else Inl (OutOfRange ''vector''))"

text \<open>\<^verbatim>\<open>std::map::at\<close>: throws for a missing key.\<close>

definition map_at :: "('k \<rightharpoonup> 'v) \<Rightarrow> 'k \<Rightarrow> 'v result" where
  "map_at m k = (case m k of None \<Rightarrow> Inl (OutOfRange ''map::at'') | Some v \<Rightarrow> Inr v)"

text \<open>
  \<^verbatim>\<open>std::map::operator[]\<close>: a missing key is inserted with a value-initialised element; the
  pair is the value read and the map afterwards.
\<close>

definition map_index :: "'v \<Rightarrow> ('k \<rightharpoonup> 'v) \<Rightarrow> 'k \<Rightarrow> 'v \<times> ('k \<rightharpoonup> 'v)" where
  "map_index d m k = (case m k of None \<Rightarrow> (d, m(k \<mapsto> d)) | Some v \<Rightarrow> (v, m))"

lemma vec_at_in [simp]: "i < length xs \<Longrightarrow> vec_at xs i = Inr (xs ! i)"
  by (simp add: vec_at_def)

lemma vec_at_out [simp]: "length xs \<le> i \<Longrightarrow> vec_at xs i = Inl (OutOfRange ''vector'')"
  by (simp add: vec_at_def)

lemma vec_at_Inr_iff: "vec_at xs i = Inr x \<longleftrightarrow> i < length xs \<and> x = xs ! i"
  by (auto simp: vec_at_def)

lemma map_at_Inr_iff: "map_at m k = Inr v \<longleftrightarrow> m k = Some v"
  by (auto simp: map_at_def split: option.splits)

lemma fst_map_index [simp]: "fst (map_index d m k) = (case m k of None \<Rightarrow> d | Some v \<Rightarrow> v)"
  by (simp add: map_index_def split: option.splits)

lemma map_index_lookup [simp]:
  "snd (map_index d m k) k' = (if k' = k \<and> m k = None then Some d else m k')"
  by (auto simp: map_index_def split: option.splits)

text \<open>\<^verbatim>\<open>std::to_string\<close> and \<^verbatim>\<open>operator<<\<close> of an integer: decimal digits.\<close>

definition digit :: "nat \<Rightarrow> char" where
  "digit d = char_of (48 + d)"

fun dec_nat :: "nat \<Rightarrow> string" where
  "dec_nat n = (if n < 10 then [digit n] else dec_nat (n div 10) @ [digit (n mod 10)])"

declare dec_nat.simps [simp del]

definition dec_int :: "int \<Rightarrow> string" where
  "dec_int i = (if i < 0 then ''-'' @ dec_nat (nat (- i)) else dec_nat (nat i))"

definition undigit :: "char \<Rightarrow> nat" where
  "undigit c = of_char c - 48"

definition read_dec :: "string \<Rightarrow> nat" where
  "read_dec s = foldl (\<lambda>n c. 10 * n + undigit c) 0 s"

lemma undigit_digit: "d < 10 \<Longrightarrow> undigit (digit d) = d"
  by (simp add: undigit_def digit_def of_char_of)

lemma read_dec_dec_nat [simp]: "read_dec (dec_nat n) = n"
proof (induction n rule: dec_nat.induct)
  case (1 n)
  show ?case
  proof (cases "n < 10")
    case True
    then show ?thesis by (subst dec_nat.simps) (simp add: read_dec_def undigit_digit)
  next
    case False
    with "1.IH" have "read_dec (dec_nat (n div 10)) = n div 10" by simp
    with False show ?thesis
      by (subst dec_nat.simps) (simp add: read_dec_def undigit_digit)
  qed
qed

lemma dec_nat_inj [simp]: "dec_nat m = dec_nat n \<longleftrightarrow> m = n"
  by (metis read_dec_dec_nat)

text \<open>A C \<^verbatim>\<open>int\<close> result that wraps around, as \<^verbatim>\<open>std::atomic<int>\<close> does.\<close>

definition wrap_int :: "int \<Rightarrow> int" where
  "wrap_int n = (n + 2 ^ 31) mod 2 ^ 32 - 2 ^ 31"

lemma wrap_int_id: "- (2 ^ 31) \<le> n \<Longrightarrow> n < 2 ^ 31 \<Longrightarrow> wrap_int n = n"
  by (simp add: wrap_int_def)

lemma wrap_int_range: "- (2 ^ 31) \<le> wrap_int n \<and> wrap_int n < 2 ^ 31"
  by (simp add: wrap_int_def)

section \<open>Sums of machine words\<close>

text \<open>
  A \<^verbatim>\<open>uint64_t\<close> accumulator holds the sum modulo $2^{64}$; while the exact sum fits, it
  holds the sum.
\<close>

lemma unat_sum_list_bound:
  "sum_list (map (\<lambda>x. unat (f x)) xs) < 2 ^ 64 \<Longrightarrow>
   unat (sum_list (map f xs) :: u64) = sum_list (map (\<lambda>x. unat (f x)) xs)"
proof (induction xs)
  case Nil
  then show ?case by simp
next
  case (Cons x xs)
  then have "unat (sum_list (map f xs)) = sum_list (map (\<lambda>x. unat (f x)) xs)" by simp
  with Cons.prems show ?case by (simp add: unat_word_ariths)
qed

lemma unat_sum_list_le:
  "unat (sum_list ws :: u64) \<le> sum_list (map unat ws)"
proof (induction ws)
  case Nil
  then show ?case by simp
next
  case (Cons w ws)
  have "unat (w + sum_list ws) \<le> unat w + unat (sum_list ws)"
    by (simp add: unat_word_ariths)
  with Cons show ?case by simp
qed

lemma unat_plus_bound: "unat a + unat b < 2 ^ 64 \<Longrightarrow> unat (a + b :: u64) = unat a + unat b"
  by (simp add: unat_word_ariths)

lemma unat_u64_less: "unat (w :: u64) < 2 ^ 64"
proof -
  have "unat w < 2 ^ LENGTH(64)" by (rule unsigned_less)
  then show ?thesis by simp
qed

lemma word_of_nat_unat_u64: "unat (w :: u64) = n \<Longrightarrow> w = of_nat n"
  by auto

lemma unat_minus_le: "b \<le> a \<Longrightarrow> unat (a - b :: u64) = unat a - unat b"
  by (simp add: unat_sub_if' word_le_nat_alt)

section \<open>Lists\<close>

lemma map_upds_nth:
  "distinct ts \<Longrightarrow> length ts = length hs \<Longrightarrow> i < length ts \<Longrightarrow> (m(ts [\<mapsto>] hs)) (ts ! i) = Some (hs ! i)"
proof (induction ts hs arbitrary: i m rule: list_induct2')
  case (4 t ts h hs)
  then show ?case by (cases i) (auto simp: map_upds_apply_nontin)
qed simp_all

lemma length_takeWhile_eq_iff: "length (takeWhile P xs) = length xs \<longleftrightarrow> (\<forall>x \<in> set xs. P x)"
  by (induction xs) auto

lemma nth_length_takeWhile_not:
  "length (takeWhile P xs) \<noteq> length xs \<Longrightarrow> \<not> P (xs ! length (takeWhile P xs))"
  by (induction xs) auto

lemma mset_take_drop_nth:
  "i < length xs \<Longrightarrow> mset xs = add_mset (xs ! i) (mset (take i xs @ drop (Suc i) xs))"
  by (metis Cons_nth_drop_Suc append_take_drop_id mset.simps(2) mset_append union_mset_add_mset_right)

lemma sum_list_take_mono:
  "i \<le> j \<Longrightarrow> sum_list (take i xs) \<le> sum_list (take j (xs :: nat list))"
proof -
  assume "i \<le> j"
  then have "take j xs = take i xs @ take (j - i) (drop i xs)"
    by (metis le_add_diff_inverse take_add)
  then show ?thesis by simp
qed

end
