(* ===== verification/Libbitcoin.thy ===== *)
theory Libbitcoin
  imports Prelude
begin

text \<open>
  What binglib sees of libbitcoin. The library is not part of the repository: its plain data
  classes appear as records of the observers the code uses, and every function that computes
  something (hashing, encoding, signing, script construction and validation, key derivation)
  is a field of the record \<^verbatim>\<open>libbitcoin\<close>, an argument of the definitions that call it.
\<close>

section \<open>Data classes\<close>

type_synonym data_chunk = "u8 list"
type_synonym hash_digest = "u8 list"
type_synonym short_hash = "u8 list"

text \<open>\<^verbatim>\<open>chain::output_point\<close> and \<^verbatim>\<open>chain::point_value\<close>.\<close>

record output_point =
  op_hash :: hash_digest
  op_index :: u32

record point_value =
  pv_hash :: hash_digest
  pv_index :: u32
  pv_value :: u64

text \<open>\<^verbatim>\<open>machine::operation\<close>: a data push or an opcode; a script is its operations.\<close>

datatype opcode = checklocktimeverify | op_drop | checksig | other_opcode u8

datatype operation = Push data_chunk | Op opcode

type_synonym script = "operation list"

text \<open>\<^verbatim>\<open>chain::input\<close>, \<^verbatim>\<open>chain::output\<close> and \<^verbatim>\<open>chain::transaction\<close>.\<close>

record txin =
  previous_output :: output_point
  in_script :: script
  in_sequence :: u32

record txout =
  out_value :: u64
  out_script :: script

record transaction =
  tx_version :: u32
  tx_locktime :: u32
  tx_inputs :: "txin list"
  tx_outputs :: "txout list"

text \<open>\<^verbatim>\<open>wallet::payment_address\<close> (its \<^verbatim>\<open>bool\<close> conversion is \<^verbatim>\<open>pa_valid\<close>) and
  \<^verbatim>\<open>wallet::ec_private\<close>.\<close>

record payment_address =
  pa_version :: u8
  pa_hash :: short_hash
  pa_valid :: bool

record ec_private =
  ec_secret :: data_chunk
  ec_version :: u8

section \<open>The functions of the library\<close>

text \<open>
  \<^verbatim>\<open>lb_decode_hash\<close> takes the previous contents of the digest, since the code ignores the
  success flag of \<^verbatim>\<open>decode_hash\<close> and goes on with whatever the digest holds;
  \<^verbatim>\<open>lb_endorsement\<close> is what \<^verbatim>\<open>create_endorsement\<close> leaves in \<^verbatim>\<open>sig\<close>, its flag being
  ignored as well.
\<close>

record libbitcoin =
  lb_decode_base58 :: "string \<Rightarrow> data_chunk option"
  lb_sha256 :: "data_chunk \<Rightarrow> data_chunk"
  lb_encode_base16 :: "data_chunk \<Rightarrow> string"
  lb_decode_base16 :: "string \<Rightarrow> data_chunk option"
  lb_encode_hash :: "hash_digest \<Rightarrow> string"
  lb_decode_hash :: "hash_digest \<Rightarrow> string \<Rightarrow> hash_digest"
  lb_bitcoin_short_hash :: "data_chunk \<Rightarrow> short_hash"
  lb_write_4_bytes_little_endian :: "u32 \<Rightarrow> data_chunk"
  lb_payment_address :: "string \<Rightarrow> payment_address"
  lb_encoded :: "payment_address \<Rightarrow> string"
  lb_mainnet_p2kh :: u8
  lb_mainnet_p2sh :: u8
  lb_testnet_p2kh :: u8
  lb_testnet_p2sh :: u8
  lb_to_pay_key_hash_pattern :: "short_hash \<Rightarrow> script"
  lb_to_pay_script_hash_pattern :: "short_hash \<Rightarrow> script"
  lb_script_is_valid :: "script \<Rightarrow> bool"
  lb_script_to_data :: "script \<Rightarrow> data_chunk"
  lb_script_pattern :: "script \<Rightarrow> int"
  lb_pay_script_hash :: int
  lb_addresses :: "u8 \<Rightarrow> u8 \<Rightarrow> txout \<Rightarrow> payment_address list"
  lb_new_transaction :: transaction
  lb_new_input :: txin
  lb_tx_hash :: "transaction \<Rightarrow> hash_digest"
  lb_tx_to_data :: "transaction \<Rightarrow> data_chunk"
  lb_tx_from_data :: "data_chunk \<Rightarrow> transaction option"
  lb_endorsement :: "data_chunk \<Rightarrow> script \<Rightarrow> transaction \<Rightarrow> u32 \<Rightarrow> data_chunk"
  lb_points_total :: "point_value list \<Rightarrow> u64"
  lb_ec_private_wif :: "string \<Rightarrow> ec_private"
  lb_public_key_data :: "ec_private \<Rightarrow> data_chunk"

text \<open>
  A library instance for closed examples: identity encodings and hashes. It is used by
  witnesses only; no definition of the model depends on it.
\<close>

definition sample_hex :: "data_chunk \<Rightarrow> string" where
  "sample_hex bs = concat (map (\<lambda>b. [char_of (48 + unat b div 16), char_of (48 + unat b mod 16)]) bs)"

definition sample_libbitcoin :: libbitcoin where
  "sample_libbitcoin =
    \<lparr>lb_decode_base58 = (\<lambda>s. Some (map (\<lambda>c. of_nat (of_char c)) s)),
     lb_sha256 = (\<lambda>d. d),
     lb_encode_base16 = sample_hex,
     lb_decode_base16 = (\<lambda>s. Some (map (\<lambda>c. of_nat (of_char c)) s)),
     lb_encode_hash = map (\<lambda>b. char_of (unat b)),
     lb_decode_hash = (\<lambda>_ s. map (\<lambda>c. of_nat (of_char c)) s),
     lb_bitcoin_short_hash = take 20,
     lb_write_4_bytes_little_endian =
       (\<lambda>n. [ucast n, ucast (drop_bit 8 n), ucast (drop_bit 16 n), ucast (drop_bit 24 n)]),
     lb_payment_address =
       (\<lambda>s. \<lparr>pa_version = (if s = [] then 0 else of_nat (of_char (hd s))),
             pa_hash = map (\<lambda>c. of_nat (of_char c)) s, pa_valid = (s \<noteq> [])\<rparr>),
     lb_encoded = (\<lambda>a. map (\<lambda>b. char_of (unat b)) (pa_hash a)),
     lb_mainnet_p2kh = 0, lb_mainnet_p2sh = 5, lb_testnet_p2kh = 111, lb_testnet_p2sh = 196,
     lb_to_pay_key_hash_pattern = (\<lambda>h. [Push h, Op checksig]),
     lb_to_pay_script_hash_pattern = (\<lambda>h. [Push h]),
     lb_script_is_valid = (\<lambda>s. s \<noteq> []),
     lb_script_to_data = (\<lambda>s. concat (map (\<lambda>x. case x of Push d \<Rightarrow> d | Op _ \<Rightarrow> [0]) s)),
     lb_script_pattern = (\<lambda>s. int (length s)),
     lb_pay_script_hash = 1,
     lb_addresses = (\<lambda>k _ out. case out_script out of
        Push h # _ \<Rightarrow> [\<lparr>pa_version = k, pa_hash = h, pa_valid = True\<rparr>] | _ \<Rightarrow> []),
     lb_new_transaction = \<lparr>tx_version = 0, tx_locktime = 0, tx_inputs = [], tx_outputs = []\<rparr>,
     lb_new_input = \<lparr>previous_output = \<lparr>op_hash = [], op_index = 0\<rparr>, in_script = [], in_sequence = 0\<rparr>,
     lb_tx_hash = (\<lambda>t. [ucast (tx_version t)]),
     lb_tx_to_data = (\<lambda>t. [ucast (tx_version t)]),
     lb_tx_from_data = (\<lambda>d. None),
     lb_endorsement = (\<lambda>sec scr t i. sec),
     lb_points_total = (\<lambda>ps. sum_list (map pv_value ps)),
     lb_ec_private_wif = (\<lambda>s. \<lparr>ec_secret = map (\<lambda>c. of_nat (of_char c)) s, ec_version = 128\<rparr>),
     lb_public_key_data = ec_secret\<rparr>"

lemma sample_lb:
  "lb_decode_base58 sample_libbitcoin = (\<lambda>s. Some (map (\<lambda>c. of_nat (of_char c)) s))"
  "lb_sha256 sample_libbitcoin = (\<lambda>d. d)"
  "lb_encode_base16 sample_libbitcoin = sample_hex"
  "lb_decode_base16 sample_libbitcoin = (\<lambda>s. Some (map (\<lambda>c. of_nat (of_char c)) s))"
  "lb_encode_hash sample_libbitcoin = map (\<lambda>b. char_of (unat b))"
  "lb_decode_hash sample_libbitcoin = (\<lambda>_ s. map (\<lambda>c. of_nat (of_char c)) s)"
  "lb_bitcoin_short_hash sample_libbitcoin = take 20"
  "lb_write_4_bytes_little_endian sample_libbitcoin = (\<lambda>n. [ucast n, ucast (drop_bit 8 n), ucast (drop_bit 16 n), ucast (drop_bit 24 n)])"
  "lb_payment_address sample_libbitcoin = (\<lambda>s. \<lparr>pa_version = (if s = [] then 0 else of_nat (of_char (hd s))),
             pa_hash = map (\<lambda>c. of_nat (of_char c)) s, pa_valid = (s \<noteq> [])\<rparr>)"
  "lb_encoded sample_libbitcoin = (\<lambda>a. map (\<lambda>b. char_of (unat b)) (pa_hash a))"
  "lb_mainnet_p2kh sample_libbitcoin = 0"
  "lb_mainnet_p2sh sample_libbitcoin = 5"
  "lb_testnet_p2kh sample_libbitcoin = 111"
  "lb_testnet_p2sh sample_libbitcoin = 196"
  "lb_to_pay_key_hash_pattern sample_libbitcoin = (\<lambda>h. [Push h, Op checksig])"
  "lb_to_pay_script_hash_pattern sample_libbitcoin = (\<lambda>h. [Push h])"
  "lb_script_is_valid sample_libbitcoin = (\<lambda>s. s \<noteq> [])"
  "lb_script_to_data sample_libbitcoin = (\<lambda>s. concat (map (\<lambda>x. case x of Push d \<Rightarrow> d | Op _ \<Rightarrow> [0]) s))"
  "lb_script_pattern sample_libbitcoin = (\<lambda>s. int (length s))"
  "lb_pay_script_hash sample_libbitcoin = 1"
  "lb_addresses sample_libbitcoin = (\<lambda>k _ out. case out_script out of
        Push h # _ \<Rightarrow> [\<lparr>pa_version = k, pa_hash = h, pa_valid = True\<rparr>] | _ \<Rightarrow> [])"
  "lb_new_transaction sample_libbitcoin = \<lparr>tx_version = 0, tx_locktime = 0, tx_inputs = [], tx_outputs = []\<rparr>"
  "lb_new_input sample_libbitcoin = \<lparr>previous_output = \<lparr>op_hash = [], op_index = 0\<rparr>, in_script = [], in_sequence = 0\<rparr>"
  "lb_tx_hash sample_libbitcoin = (\<lambda>t. [ucast (tx_version t)])"
  "lb_tx_to_data sample_libbitcoin = (\<lambda>t. [ucast (tx_version t)])"
  "lb_tx_from_data sample_libbitcoin = (\<lambda>d. None)"
  "lb_endorsement sample_libbitcoin = (\<lambda>sec scr t i. sec)"
  "lb_points_total sample_libbitcoin = (\<lambda>ps. sum_list (map pv_value ps))"
  "lb_ec_private_wif sample_libbitcoin = (\<lambda>s. \<lparr>ec_secret = map (\<lambda>c. of_nat (of_char c)) s, ec_version = 128\<rparr>)"
  "lb_public_key_data sample_libbitcoin = ec_secret"
  by (simp_all add: sample_libbitcoin_def)

text \<open>
  Documented behaviour of \<^verbatim>\<open>chain::points_value::value()\<close> that the callers rely on: the
  total is zero only when every point is worth nothing.
\<close>

definition points_total_documented :: "libbitcoin \<Rightarrow> bool" where
  "points_total_documented L \<longleftrightarrow>
     (\<forall>ps. sum_list (map (\<lambda>p. unat (pv_value p)) ps) < 2 ^ 64 \<longrightarrow>
        unat (lb_points_total L ps) = sum_list (map (\<lambda>p. unat (pv_value p)) ps))"

text \<open>Documented behaviour of the default constructor \<^verbatim>\<open>transaction()\<close>: no inputs, no outputs.\<close>

definition new_transaction_documented :: "libbitcoin \<Rightarrow> bool" where
  "new_transaction_documented L \<longleftrightarrow>
     tx_inputs (lb_new_transaction L) = [] \<and> tx_outputs (lb_new_transaction L) = []"

lemma sample_points_total_documented: "points_total_documented sample_libbitcoin"
  by (auto simp: points_total_documented_def sample_libbitcoin_def intro: unat_sum_list_bound)

lemma sample_new_transaction_documented: "new_transaction_documented sample_libbitcoin"
  by (simp add: new_transaction_documented_def sample_libbitcoin_def)

end
