(* ===== verification/ElectrumModel.thy ===== *)
theory ElectrumModel
  imports Prelude
begin

text \<open>
  The messages of the Electrum protocol (\<^verbatim>\<open>src/electrumclient/electrum_model.hpp\<close> and
  \<^verbatim>\<open>electrum_model.cpp\<close>): requests written to JSON, replies read from JSON. The JSON
  library (\<^verbatim>\<open>nlohmann::json\<close>) is the parameter \<^verbatim>\<open>J\<close>; what the code relies on in it is
  \<^verbatim>\<open>json_documented\<close>.
\<close>

section \<open>The JSON library\<close>

text \<open>
  \<^verbatim>\<open>js_index\<close> is \<^verbatim>\<open>operator[]\<close> on a non-const value: it may insert a null member, so it
  also returns the document afterwards. \<^verbatim>\<open>js_items\<close> lists the values \<^verbatim>\<open>items()\<close> iterates over.
  \<^verbatim>\<open>dump()\<close> throws a \<^verbatim>\<open>type_error\<close>, with the message \<^verbatim>\<open>js_dump_error\<close>, when a string is not UTF-8;
  otherwise it returns \<^verbatim>\<open>js_dump\<close>. \<^verbatim>\<open>parse\<close> throws a \<^verbatim>\<open>parse_error\<close> or another exception (a number
  out of range).
\<close>

record 'j json_api =
  js_null :: 'j
  js_string :: "string \<Rightarrow> 'j"
  js_int :: "int \<Rightarrow> 'j"
  js_array :: "'j list \<Rightarrow> 'j"
  js_object :: "(string \<times> 'j) list \<Rightarrow> 'j"
  js_at :: "'j \<Rightarrow> string \<Rightarrow> 'j result"
  js_index :: "'j \<Rightarrow> string \<Rightarrow> 'j result \<times> 'j"
  js_items :: "'j \<Rightarrow> 'j list"
  js_get_string :: "'j \<Rightarrow> string result"
  js_get_strings :: "'j \<Rightarrow> string list result"
  js_get_int :: "'j \<Rightarrow> int result"
  js_get_long :: "'j \<Rightarrow> u64 result"
  js_get_u32 :: "'j \<Rightarrow> u32 result"
  js_get_u64 :: "'j \<Rightarrow> u64 result"
  js_get_double :: "'j \<Rightarrow> u64 result"
  js_is_null :: "'j \<Rightarrow> bool"
  js_is_empty :: "'j \<Rightarrow> bool"
  js_dump :: "'j \<Rightarrow> string"
  js_dump_error :: "'j \<Rightarrow> string option"
  js_parse :: "string \<Rightarrow> 'j result"

text \<open>\<^verbatim>\<open>j.at(key).get_to(target)\<close>, for a target of each type.\<close>

definition at_get :: "'j json_api \<Rightarrow> ('j \<Rightarrow> 'v result) \<Rightarrow> 'j \<Rightarrow> string \<Rightarrow> 'v result" where
  "at_get J get j key = bindR (js_at J j key) get"

definition dump_json :: "'j json_api \<Rightarrow> 'j \<Rightarrow> string result" where
  "dump_json J j = (case js_dump_error J j of Some m \<Rightarrow> Inl (LibraryException m) | None \<Rightarrow> Inr (js_dump J j))"

section \<open>Data\<close>

record ElectrumRequest =
  rq_method :: string
  rq_id :: int
  rq_params :: "string list"

record ElectrumVersionRequest =
  vr_method :: string
  vr_id :: int
  vr_param1 :: string
  vr_param2 :: "string list"

record 'j ElectrumMessage =
  msg_json :: 'j
  msg_method :: string
  has_correlation_id :: bool
  correlation_id :: int
  msg_params :: "string list"

record AddressHistoryItem =
  ahi_txid :: string
  ahi_height :: int
  ahi_fresh :: bool

type_synonym AddressHistory = "AddressHistoryItem list"

text \<open>The two balances are C \<^verbatim>\<open>long\<close>s; the callers store them in \<^verbatim>\<open>uint64_t\<close>s, so the
  model keeps their 64 bits.\<close>

record AddressBalance =
  confirmed :: u64
  unconfirmed :: u64

record Utxo =
  tx_pos :: u32
  tx_id :: string
  utxo_value :: u64
  utxo_height :: int

record ServerInfo =
  si_host :: string
  si_service :: string
  si_version :: string
  si_pruning :: string

section \<open>Writing requests\<close>

definition electrum_request_to_json :: "'j json_api \<Rightarrow> ElectrumRequest \<Rightarrow> 'j" where
  "electrum_request_to_json J r =
     js_object J [(''jsonrpc'', js_string J ''2.0''),
                  (''method'', js_string J (rq_method r)),
                  (''id'', js_int J (rq_id r)),
                  (''params'', js_array J (map (js_string J) (rq_params r)))]"

definition electrum_version_request_to_json :: "'j json_api \<Rightarrow> ElectrumVersionRequest \<Rightarrow> 'j" where
  "electrum_version_request_to_json J r =
     js_object J [(''jsonrpc'', js_string J ''2.0''),
                  (''method'', js_string J (vr_method r)),
                  (''id'', js_int J (vr_id r)),
                  (''params'', js_array J [js_string J (vr_param1 r),
                                           js_array J (map (js_string J) (vr_param2 r))])]"

section \<open>Reading replies\<close>

definition is_scripthash_update :: "'j ElectrumMessage \<Rightarrow> bool" where
  "is_scripthash_update m \<longleftrightarrow> msg_method m = ''blockchain.scripthash.subscribe''"

definition isNone :: "'j ElectrumMessage \<Rightarrow> bool" where
  "isNone m \<longleftrightarrow> correlation_id m = -1"

definition address_history_item_from_json ::
    "'j json_api \<Rightarrow> 'j \<Rightarrow> AddressHistoryItem \<Rightarrow> AddressHistoryItem result" where
  "address_history_item_from_json J j ahi =
     bindR (at_get J (js_get_string J) j ''tx_hash'') (\<lambda>t.
     bindR (at_get J (js_get_int J) j ''height'') (\<lambda>h.
     Inr (ahi\<lparr>ahi_txid := t, ahi_height := h\<rparr>)))"

text \<open>
  Each iteration declares \<^verbatim>\<open>AddressHistoryItem ahi;\<close> without an initialiser: its \<^verbatim>\<open>height\<close> and
  \<^verbatim>\<open>fresh\<close> are indeterminate. \<^verbatim>\<open>ahi0\<close> stands for these contents.
\<close>

definition address_history_from_json ::
    "'j json_api \<Rightarrow> AddressHistoryItem \<Rightarrow> 'j \<Rightarrow> AddressHistory \<Rightarrow> AddressHistory result" where
  "address_history_from_json J ahi0 j ah =
     foldR (\<lambda>i ah'. bindR (address_history_item_from_json J i ahi0) (\<lambda>ahi. Inr (ah' @ [ahi])))
       (js_items J j) ah"

definition address_balance_from_json :: "'j json_api \<Rightarrow> 'j \<Rightarrow> AddressBalance result" where
  "address_balance_from_json J j =
     bindR (at_get J (js_get_long J) j ''confirmed'') (\<lambda>c.
     bindR (at_get J (js_get_long J) j ''unconfirmed'') (\<lambda>u.
     Inr \<lparr>confirmed = c, unconfirmed = u\<rparr>))"

definition utxo_from_json :: "'j json_api \<Rightarrow> 'j \<Rightarrow> Utxo result" where
  "utxo_from_json J j =
     bindR (at_get J (js_get_u32 J) j ''tx_pos'') (\<lambda>p.
     bindR (at_get J (js_get_u64 J) j ''value'') (\<lambda>v.
     bindR (at_get J (js_get_string J) j ''tx_hash'') (\<lambda>t.
     bindR (at_get J (js_get_int J) j ''height'') (\<lambda>h.
     Inr \<lparr>tx_pos = p, tx_id = t, utxo_value = v, utxo_height = h\<rparr>))))"

definition utxos_from_json :: "'j json_api \<Rightarrow> 'j \<Rightarrow> Utxo list \<Rightarrow> Utxo list result" where
  "utxos_from_json J j utxos =
     foldR (\<lambda>i us. bindR (utxo_from_json J i) (\<lambda>u. Inr (us @ [u]))) (js_items J j) utxos"

text \<open>
  A server entry is \<^verbatim>\<open>[ip, host, [version, pruning, ..., service]]\<close>. The code reads the
  host from position 1, and from the list in position 2 the version (position 0) and the
  service (position 1, without its first character).
\<close>

definition server_features_step ::
    "'j json_api \<Rightarrow> nat \<times> 'j \<Rightarrow> ServerInfo \<Rightarrow> ServerInfo result" where
  "server_features_step J = (\<lambda>(i, v) si.
     if i = 0 then bindR (js_get_string J v) (\<lambda>s. Inr (si\<lparr>si_version := s\<rparr>))
     else if i = 1 then bindR (js_get_string J v) (\<lambda>s.
            Inr (if s \<noteq> [] then si\<lparr>si_service := tl s\<rparr> else si))
     else Inr si)"

definition server_info_step ::
    "'j json_api \<Rightarrow> nat \<times> 'j \<Rightarrow> ServerInfo \<Rightarrow> ServerInfo result" where
  "server_info_step J = (\<lambda>(i, v) si.
     if i = 1 then bindR (js_get_string J v) (\<lambda>s. Inr (si\<lparr>si_host := s\<rparr>))
     else if i = 2 then foldR (server_features_step J) (enumerate 0 (js_items J v)) si
     else Inr si)"

definition server_info_from_json :: "'j json_api \<Rightarrow> 'j \<Rightarrow> ServerInfo \<Rightarrow> ServerInfo result" where
  "server_info_from_json J j si = foldR (server_info_step J) (enumerate 0 (js_items J j)) si"

definition server_infos_from_json :: "'j json_api \<Rightarrow> 'j \<Rightarrow> ServerInfo list \<Rightarrow> ServerInfo list result" where
  "server_infos_from_json J j sis =
     foldR (\<lambda>i acc. bindR (server_info_from_json J i
                \<lparr>si_host = [], si_service = [], si_version = [], si_pruning = []\<rparr>) (\<lambda>si.
              Inr (acc @ [si])))
       (js_items J j) sis"

section \<open>What the code relies on in the JSON library\<close>

text \<open>
  Documented behaviour of \<^verbatim>\<open>nlohmann::json\<close>: a member of an object is found by its key,
  a missing key makes \<^verbatim>\<open>at\<close> throw and \<^verbatim>\<open>operator[]\<close> insert a null, iterating over an array
  gives its elements and over null nothing, and a conversion returns what was stored.
\<close>

definition json_documented :: "'j json_api \<Rightarrow> bool" where
  "json_documented J \<longleftrightarrow>
     (\<forall>kvs k v. map_of kvs k = Some v \<longrightarrow> js_at J (js_object J kvs) k = Inr v) \<and>
     (\<forall>kvs k. map_of kvs k = None \<longrightarrow>
        (\<exists>m. js_at J (js_object J kvs) k = Inl (LibraryException m))) \<and>
     (\<forall>kvs k v. map_of kvs k = Some v \<longrightarrow>
        js_index J (js_object J kvs) k = (Inr v, js_object J kvs)) \<and>
     (\<forall>kvs k. map_of kvs k = None \<longrightarrow>
        js_index J (js_object J kvs) k = (Inr (js_null J), js_object J (kvs @ [(k, js_null J)]))) \<and>
     (\<forall>xs. js_items J (js_array J xs) = xs) \<and>
     js_items J (js_null J) = [] \<and>
     (\<forall>s. js_get_string J (js_string J s) = Inr s) \<and>
     (\<forall>n. - (2 ^ 31) \<le> n \<and> n < 2 ^ 31 \<longrightarrow> js_get_int J (js_int J n) = Inr n) \<and>
     (\<forall>w. js_get_u32 J (js_int J (uint w)) = Inr w) \<and>
     (\<forall>w. js_get_u64 J (js_int J (uint w)) = Inr w) \<and>
     (\<forall>w. js_get_long J (js_int J (sint w)) = Inr w) \<and>
     (\<forall>ss. js_get_strings J (js_array J (map (js_string J) ss)) = Inr ss) \<and>
     js_is_null J (js_null J) \<and> js_is_empty J (js_null J) \<and>
     (\<forall>xs. \<not> js_is_null J (js_array J xs)) \<and>
     (\<forall>kvs. kvs \<noteq> [] \<longrightarrow> \<not> js_is_null J (js_object J kvs) \<and> \<not> js_is_empty J (js_object J kvs))"

lemma json_atI: "json_documented J \<Longrightarrow> map_of kvs k = Some v \<Longrightarrow> js_at J (js_object J kvs) k = Inr v"
  by (simp add: json_documented_def)

lemma json_at_missing:
  "json_documented J \<Longrightarrow> map_of kvs k = None \<Longrightarrow>
   \<exists>m. js_at J (js_object J kvs) k = Inl (LibraryException m)"
  by (simp add: json_documented_def)

lemma json_index_missing:
  "json_documented J \<Longrightarrow> map_of kvs k = None \<Longrightarrow>
   js_index J (js_object J kvs) k = (Inr (js_null J), js_object J (kvs @ [(k, js_null J)]))"
  by (simp add: json_documented_def)

lemma json_index_present:
  "json_documented J \<Longrightarrow> map_of kvs k = Some v \<Longrightarrow>
   js_index J (js_object J kvs) k = (Inr v, js_object J kvs)"
  by (simp add: json_documented_def)

lemma json_items:
  "json_documented J \<Longrightarrow> js_items J (js_array J xs) = xs"
  "json_documented J \<Longrightarrow> js_items J (js_null J) = []"
  by (simp_all add: json_documented_def)

lemma json_gets:
  "json_documented J \<Longrightarrow> js_get_string J (js_string J s) = Inr s"
  "json_documented J \<Longrightarrow> - (2 ^ 31) \<le> n \<Longrightarrow> n < 2 ^ 31 \<Longrightarrow> js_get_int J (js_int J n) = Inr n"
  "json_documented J \<Longrightarrow> js_get_u32 J (js_int J (uint w32)) = Inr w32"
  "json_documented J \<Longrightarrow> js_get_u64 J (js_int J (uint w64)) = Inr w64"
  "json_documented J \<Longrightarrow> js_get_long J (js_int J (sint w64)) = Inr w64"
  "json_documented J \<Longrightarrow> js_get_strings J (js_array J (map (js_string J) ss)) = Inr ss"
  by (simp_all add: json_documented_def)

lemma json_nulls:
  "json_documented J \<Longrightarrow> js_is_null J (js_null J)"
  "json_documented J \<Longrightarrow> js_is_empty J (js_null J)"
  "json_documented J \<Longrightarrow> \<not> js_is_null J (js_array J xs)"
  "json_documented J \<Longrightarrow> kvs \<noteq> [] \<Longrightarrow> \<not> js_is_null J (js_object J kvs)"
  "json_documented J \<Longrightarrow> kvs \<noteq> [] \<Longrightarrow> \<not> js_is_empty J (js_object J kvs)"
  by (simp_all add: json_documented_def)

lemmas json_facts = json_atI json_index_missing json_index_present json_items json_gets json_nulls

lemma at_get_member:
  "json_documented J \<Longrightarrow> map_of kvs k = Some v \<Longrightarrow> at_get J get (js_object J kvs) k = get v"
  by (simp add: at_get_def json_facts)

lemma at_get_missing:
  assumes "json_documented J" "map_of kvs k = None"
  shows "\<exists>m. at_get J get (js_object J kvs) k = Inl (LibraryException m)"
  using json_at_missing [OF assms] by (auto simp: at_get_def)

text \<open>Reading back a list of history entries.\<close>

lemma address_history_items_acc:
  assumes "json_documented J"
    and "list_all2 (\<lambda>j (t, h). \<exists>kvs. j = js_object J kvs \<and> map_of kvs ''tx_hash'' = Some (js_string J t) \<and>
           map_of kvs ''height'' = Some (js_int J h) \<and> - (2 ^ 31) \<le> h \<and> h < 2 ^ 31) entries items"
  shows "foldR (\<lambda>i ah'. bindR (address_history_item_from_json J i ahi0) (\<lambda>ahi. Inr (ah' @ [ahi]))) entries acc =
    Inr (acc @ map (\<lambda>(t, h). ahi0\<lparr>ahi_txid := t, ahi_height := h\<rparr>) items)"
  using assms(2)
proof (induction entries items arbitrary: acc rule: list_all2_induct)
  case Nil
  then show ?case by simp
next
  case (Cons j entries item items)
  obtain t h where item: "item = (t, h)" by fastforce
  with Cons.hyps(1) have "address_history_item_from_json J j ahi0 = Inr (ahi0\<lparr>ahi_txid := t, ahi_height := h\<rparr>)"
    using assms(1) by (auto simp: address_history_item_from_json_def at_get_member json_facts)
  with Cons.IH item show ?case by simp
qed

lemma address_history_items:
  assumes "json_documented J"
    and "list_all2 (\<lambda>j (t, h). \<exists>kvs. j = js_object J kvs \<and> map_of kvs ''tx_hash'' = Some (js_string J t) \<and>
           map_of kvs ''height'' = Some (js_int J h) \<and> - (2 ^ 31) \<le> h \<and> h < 2 ^ 31) entries items"
  shows "address_history_from_json J ahi0 (js_array J entries) [] =
    Inr (map (\<lambda>(t, h). ahi0\<lparr>ahi_txid := t, ahi_height := h\<rparr>) items)"
  using address_history_items_acc [OF assms, of ahi0 "[]"] assms(1)
  by (simp add: address_history_from_json_def json_facts)

text \<open>
  Documented behaviour of \<^verbatim>\<open>dump\<close>: control characters are escaped, so the text holds no zero
  byte, and the text of a value is part of the text of an array or object that holds it. It throws
  for strings that are not UTF-8, hence not for a request made of ASCII strings.
\<close>

definition ascii :: "string \<Rightarrow> bool" where
  "ascii s \<longleftrightarrow> list_all (\<lambda>c. of_char c < (128 :: nat)) s"

definition dump_documented :: "'j json_api \<Rightarrow> bool" where
  "dump_documented J \<longleftrightarrow>
     (\<forall>j. CHR 0x00 \<notin> set (js_dump J j)) \<and>
     (\<forall>s. length s \<le> length (js_dump J (js_string J s))) \<and>
     (\<forall>xs x. x \<in> set xs \<longrightarrow> length (js_dump J x) \<le> length (js_dump J (js_array J xs))) \<and>
     (\<forall>kvs k v. (k, v) \<in> set kvs \<longrightarrow> length (js_dump J v) \<le> length (js_dump J (js_object J kvs))) \<and>
     (\<forall>r. list_all ascii (rq_method r # rq_params r) \<longrightarrow> js_dump_error J (electrum_request_to_json J r) = None)"

lemma dump_facts:
  assumes "dump_documented J"
  shows "CHR 0x00 \<notin> set (js_dump J j)"
    and "length s \<le> length (js_dump J (js_string J s))"
    and "x \<in> set xs \<Longrightarrow> length (js_dump J x) \<le> length (js_dump J (js_array J xs))"
    and "(k, v) \<in> set kvs \<Longrightarrow> length (js_dump J v) \<le> length (js_dump J (js_object J kvs))"
    and "list_all ascii (rq_method r # rq_params r) \<Longrightarrow> js_dump_error J (electrum_request_to_json J r) = None"
  using assms unfolding dump_documented_def by blast+

text \<open>A request is at least as long as each of its parameters.\<close>

lemma request_dump_length:
  assumes "dump_documented J" "p \<in> set (rq_params r)"
  shows "length p \<le> length (js_dump J (electrum_request_to_json J r))"
proof -
  let ?params = "js_array J (map (js_string J) (rq_params r))"
  have "length p \<le> length (js_dump J (js_string J p))" by (rule dump_facts(2) [OF assms(1)])
  also have "\<dots> \<le> length (js_dump J ?params)"
    using assms(2) by (intro dump_facts(3) [OF assms(1)]) simp
  also have "\<dots> \<le> length (js_dump J (electrum_request_to_json J r))"
    unfolding electrum_request_to_json_def by (rule dump_facts(4) [OF assms(1), of "''params''"]) simp
  finally show ?thesis .
qed

section \<open>A JSON library for closed examples\<close>

text \<open>
  An instance of the parameter, used by witnesses only. Its parser accepts the empty object
  and the texts \<^verbatim>\<open>{d}\<close> for a digit \<^verbatim>\<open>d\<close>, which stand for a reply with that id; a newline may follow.
\<close>

datatype json = JNull | JInt int | JString string | JArray "json list" | JObject "(string \<times> json) list"

fun sample_at :: "json \<Rightarrow> string \<Rightarrow> json result" where
  "sample_at (JObject kvs) k = (case map_of kvs k of
     Some v \<Rightarrow> Inr v | None \<Rightarrow> Inl (LibraryException ''out_of_range''))"
| "sample_at _ k = Inl (LibraryException ''type_error'')"

fun sample_index :: "json \<Rightarrow> string \<Rightarrow> json result \<times> json" where
  "sample_index (JObject kvs) k = (case map_of kvs k of
     Some v \<Rightarrow> (Inr v, JObject kvs) | None \<Rightarrow> (Inr JNull, JObject (kvs @ [(k, JNull)])))"
| "sample_index JNull k = (Inr JNull, JObject [(k, JNull)])"
| "sample_index j k = (Inl (LibraryException ''type_error''), j)"

fun sample_items :: "json \<Rightarrow> json list" where
  "sample_items (JArray xs) = xs"
| "sample_items (JObject kvs) = map snd kvs"
| "sample_items JNull = []"
| "sample_items j = [j]"

fun sample_get_string :: "json \<Rightarrow> string result" where
  "sample_get_string (JString s) = Inr s"
| "sample_get_string _ = Inl (LibraryException ''type_error'')"

fun sample_get_number :: "(int \<Rightarrow> 'v) \<Rightarrow> json \<Rightarrow> 'v result" where
  "sample_get_number f (JInt n) = Inr (f n)"
| "sample_get_number f _ = Inl (LibraryException ''type_error'')"

fun sample_get_strings :: "json \<Rightarrow> string list result" where
  "sample_get_strings (JArray xs) =
     foldR (\<lambda>x acc. bindR (sample_get_string x) (\<lambda>s. Inr (acc @ [s]))) xs []"
| "sample_get_strings _ = Inl (LibraryException ''type_error'')"

definition sample_parse :: "string \<Rightarrow> json result" where
  "sample_parse s =
     (case s of
        [a, b] \<Rightarrow> if s = ''{}'' then Inr (JObject []) else Inl (ParseError ''parse_error'')
      | [a, d, b] \<Rightarrow> if a = CHR ''{'' \<and> b = CHR ''}''
          then Inr (JObject [(''id'', JInt (int (undigit d))), (''result'', JString [d])])
          else Inl (ParseError ''parse_error'')
      | [a, d, b, n] \<Rightarrow> if a = CHR ''{'' \<and> b = CHR ''}'' \<and> n = CHR 0x0A
          then Inr (JObject [(''id'', JInt (int (undigit d))), (''result'', JString [d])])
          else Inl (ParseError ''parse_error'')
      | _ \<Rightarrow> Inl (ParseError ''parse_error''))"

text \<open>The text of a value; the sample library writes an object without its keys.\<close>

fun sample_dump :: "json \<Rightarrow> string" where
  "sample_dump JNull = ''null''"
| "sample_dump (JInt n) = dec_int n"
| "sample_dump (JString s) = CHR 0x22 # map (\<lambda>c. if c = CHR 0x00 then CHR 0x3F else c) s @ [CHR 0x22]"
| "sample_dump (JArray xs) = ''['' @ concat (map (\<lambda>x. sample_dump x @ '','') xs) @ '']''"
| "sample_dump (JObject kvs) = ''{'' @ concat (map (\<lambda>kv. sample_dump (snd kv) @ '','') kvs) @ ''}''"

definition sample_json :: "json json_api" where
  "sample_json =
    \<lparr>js_null = JNull, js_string = JString, js_int = JInt, js_array = JArray, js_object = JObject,
     js_at = sample_at, js_index = sample_index, js_items = sample_items,
     js_get_string = sample_get_string, js_get_strings = sample_get_strings,
     js_get_int = sample_get_number (\<lambda>n. n), js_get_long = sample_get_number of_int,
     js_get_u32 = sample_get_number of_int, js_get_u64 = sample_get_number of_int,
     js_get_double = sample_get_number of_int,
     js_is_null = (\<lambda>j. j = JNull),
     js_is_empty = (\<lambda>j. j = JNull \<or> j = JArray [] \<or> j = JObject []),
     js_dump = sample_dump, js_dump_error = (\<lambda>_. None),
     js_parse = sample_parse\<rparr>"

lemma sample_get_strings_acc:
  "foldR (\<lambda>x acc. bindR (sample_get_string x) (\<lambda>s. Inr (acc @ [s]))) (map JString ss) acc
     = Inr (acc @ ss)"
  by (induction ss arbitrary: acc) simp_all

lemma sample_json_documented: "json_documented sample_json"
  by (simp add: json_documented_def sample_json_def sample_get_strings_acc)

lemma concat_map_length_ge: "x \<in> set xs \<Longrightarrow> length (f x) \<le> length (concat (map f xs))"
  by (induction xs) auto

lemma digit_not_zero:
  assumes "d < 10" shows "CHR 0x00 \<noteq> digit d"
proof
  assume "CHR 0x00 = digit d"
  then have "(of_char (CHR 0x00) :: nat) = of_char (digit d)" by simp
  with assms show False by (simp add: digit_def of_char_of)
qed

lemma dec_nat_no_zero: "CHR 0x00 \<notin> set (dec_nat n)"
proof (induction n rule: dec_nat.induct)
  case (1 n)
  then show ?case
    using digit_not_zero [of n] digit_not_zero [of "n mod 10"] by (subst dec_nat.simps) simp
qed

lemma sample_dump_no_zero: "CHR 0x00 \<notin> set (sample_dump j)"
  by (induction j rule: sample_dump.induct) (auto simp: dec_int_def dec_nat_no_zero)

lemma sample_dump_documented: "dump_documented sample_json"
proof -
  have "length (sample_dump x) \<le> length (sample_dump (JArray xs))" if "x \<in> set xs" for x xs
    using concat_map_length_ge [OF that, of "\<lambda>x. sample_dump x @ '',''"] by simp
  moreover have "length (sample_dump v) \<le> length (sample_dump (JObject kvs))" if "(k, v) \<in> set kvs" for k v kvs
    using concat_map_length_ge [OF that, of "\<lambda>kv. sample_dump (snd kv) @ '',''"] by simp
  ultimately show ?thesis
    by (simp add: dump_documented_def sample_json_def sample_dump_no_zero del: sample_dump.simps(4,5))
qed

section \<open>Properties\<close>

text \<open>The JSON form of an unspent output, in any member order and with any further members.\<close>

definition utxo_object :: "'j json_api \<Rightarrow> 'j \<Rightarrow> Utxo \<Rightarrow> bool" where
  "utxo_object J j u \<longleftrightarrow> (\<exists>kvs. j = js_object J kvs \<and>
     map_of kvs ''tx_pos'' = Some (js_int J (uint (tx_pos u))) \<and>
     map_of kvs ''value'' = Some (js_int J (uint (utxo_value u))) \<and>
     map_of kvs ''tx_hash'' = Some (js_string J (tx_id u)) \<and>
     map_of kvs ''height'' = Some (js_int J (utxo_height u)) \<and>
     - (2 ^ 31) \<le> utxo_height u \<and> utxo_height u < 2 ^ 31)"

lemma utxo_from_json_object:
  "json_documented J \<Longrightarrow> utxo_object J j u \<Longrightarrow> utxo_from_json J j = Inr u"
  by (cases u) (auto simp: utxo_object_def utxo_from_json_def at_get_member json_facts)

lemma utxos_items_acc:
  assumes "json_documented J" "list_all2 (utxo_object J) js us"
  shows "foldR (\<lambda>i us. bindR (utxo_from_json J i) (\<lambda>u. Inr (us @ [u]))) (js @ ys) acc =
    foldR (\<lambda>i us. bindR (utxo_from_json J i) (\<lambda>u. Inr (us @ [u]))) ys (acc @ us)"
  using assms(2)
  by (induction js us arbitrary: acc rule: list_all2_induct) (simp_all add: utxo_from_json_object [OF assms(1)])

text \<open>
  The unspent outputs of a reply are read completely and in order, with positions and
  values at their full 32 and 64 bits; and one entry that lacks a member makes the whole reply
  fail, whatever comes after it.
\<close>

theorem utxos_roundtrip:
  assumes "json_documented J" "list_all2 (utxo_object J) js us"
    and "map_of kvs ''tx_pos'' = None"
  shows "utxos_from_json J (js_array J js) before = Inr (before @ us) \<and>
    (\<exists>m. utxos_from_json J (js_array J (js @ js_object J kvs # rest)) before = Inl (LibraryException m))"
proof -
  obtain m where "at_get J (js_get_u32 J) (js_object J kvs) ''tx_pos'' = Inl (LibraryException m)"
    using at_get_missing [OF assms(1,3)] by blast
  then have "utxo_from_json J (js_object J kvs) = Inl (LibraryException m)"
    by (simp add: utxo_from_json_def)
  then show ?thesis
    using assms(1) utxos_items_acc [OF assms(1,2), of "js_object J kvs # rest" before]
      utxos_items_acc [OF assms(1,2), of "[]" before]
    by (simp add: utxos_from_json_def json_facts)
qed

theorem utxos_roundtrip_witness:
  "utxos_from_json sample_json (JArray [JObject [(''height'', JInt 9), (''tx_hash'', JString ''ab''),
       (''value'', JInt 18446744073709551615), (''tx_pos'', JInt 1)]]) [] =
     Inr [\<lparr>tx_pos = 1, tx_id = ''ab'', utxo_value = - 1, utxo_height = 9\<rparr>]"
proof -
  let ?u = "\<lparr>tx_pos = 1, tx_id = ''ab'', utxo_value = - 1, utxo_height = 9\<rparr> :: Utxo"
  let ?j = "JObject [(''height'', JInt 9), (''tx_hash'', JString ''ab''),
       (''value'', JInt 18446744073709551615), (''tx_pos'', JInt 1)]"
  have "utxo_object sample_json ?j ?u"
    unfolding utxo_object_def
    by (intro exI [where x = "[(''height'', JInt 9), (''tx_hash'', JString ''ab''),
       (''value'', JInt 18446744073709551615), (''tx_pos'', JInt 1)]"])
       (simp add: sample_json_def unsigned_minus_1_eq_mask mask_eq_exp_minus_1)
  then have "list_all2 (utxo_object sample_json) [?j] [?u]" by simp
  from utxos_roundtrip [OF sample_json_documented this, of "[]" "[]" "[]"] show ?thesis
    by (simp add: sample_json_def)
qed

text \<open>
  A server entry in the documented form \<^verbatim>\<open>[ip, host, [version, pruning, ...]]\<close> gives the
  host and the version, but the service gets the pruning limit (\<^verbatim>\<open>10000\<close> from \<^verbatim>\<open>p10000\<close> in the
  example of the comment), and the service itself, further back in the list, is never read.
\<close>

theorem server_info_service_is_pruning:
  assumes "json_documented J"
  shows "server_info_from_json J (js_array J [ip, js_string J host,
      js_array J (js_string J version # js_string J (c # pruning) # rest)]) si =
    Inr (si\<lparr>si_host := host, si_version := version, si_service := pruning\<rparr>)"
proof -
  have "foldR (server_features_step J) (enumerate (Suc (Suc n)) ys) acc = Inr acc" for n ys acc
    by (induction ys arbitrary: n) (simp_all add: server_features_step_def)
  from this [of 0] show ?thesis
    using assms
    by (simp add: server_info_from_json_def server_info_step_def server_features_step_def json_facts)
qed

theorem server_info_service_is_pruning_witness:
  "server_info_from_json sample_json (JArray [JString ''107.150.45.210'', JString ''e.anonyhost.org'',
      JArray [JString ''v1.0'', JString ''p10000'', JString ''t'', JString ''s995'']])
      \<lparr>si_host = [], si_service = [], si_version = [], si_pruning = []\<rparr> =
    Inr \<lparr>si_host = ''e.anonyhost.org'', si_service = ''10000'', si_version = ''v1.0'', si_pruning = []\<rparr>"
  using server_info_service_is_pruning [OF sample_json_documented, where ip = "JString ''107.150.45.210''"
      and host = "''e.anonyhost.org''" and version = "''v1.0''" and c = "CHR ''p''" and pruning = "''10000''"
      and rest = "[JString ''t'', JString ''s995'']"
      and si = "\<lparr>si_host = [], si_service = [], si_version = [], si_pruning = []\<rparr>"]
  by (simp add: sample_json_def)

end
