(* ===== verification/FundsFinder.thy ===== *)
theory FundsFinder
  imports Libbitcoin ElectrumModel "HOL-Library.Sublist"
begin

text \<open>
  \<^verbatim>\<open>src/libbfunds/funds_finder.cpp\<close>: the two coin selections. \<^verbatim>\<open>find_funds\<close> works on the
  points a libbitcoin server returns and stops as soon as enough is gathered;
  \<^verbatim>\<open>find_funds_utxos\<close> works on the unspent outputs of an Electrum server and takes every
  output of positive value. The locale \<^verbatim>\<open>coin_selection\<close> states what the transaction
  creators rely on; both routines are interpretations of it.
\<close>

section \<open>The two selections\<close>

definition point_of_value :: "point_value \<Rightarrow> output_point" where
  "point_of_value p = \<lparr>op_hash = pv_hash p, op_index = pv_index p\<rparr>"

text \<open>
  The loop tests \<^verbatim>\<open>points.value() > 0\<close>, the total of all points, in every iteration; \<^verbatim>\<open>all\<close>
  is that list.
\<close>

fun find_funds_loop ::
    "libbitcoin \<Rightarrow> u64 \<Rightarrow> point_value list \<Rightarrow> point_value list \<Rightarrow>
     output_point list \<Rightarrow> u64 \<Rightarrow> output_point list \<times> u64" where
  "find_funds_loop L needed all [] utxos gathered = (utxos, gathered)"
| "find_funds_loop L needed all (p # ps) utxos gathered =
     (if gathered < needed then
        (if lb_points_total L all > 0
         then find_funds_loop L needed all ps (utxos @ [point_of_value p]) (gathered + pv_value p)
         else find_funds_loop L needed all ps utxos gathered)
      else (utxos, gathered))"

definition find_funds :: "libbitcoin \<Rightarrow> u64 \<Rightarrow> point_value list \<Rightarrow> output_point list \<times> u64" where
  "find_funds L satoshis_needed points =
     (case find_funds_loop L satoshis_needed points points [] 0 of (utxos, gathered_funds) \<Rightarrow>
        if gathered_funds < satoshis_needed then ([], gathered_funds) else (utxos, gathered_funds))"

text \<open>
  \<^verbatim>\<open>hash_digest tx_hash;\<close> is not initialised and the result of \<^verbatim>\<open>decode_hash\<close> is not tested;
  \<^verbatim>\<open>junk\<close> is what the digest held before.
\<close>

definition point_of_utxo :: "libbitcoin \<Rightarrow> hash_digest \<Rightarrow> Utxo \<Rightarrow> output_point" where
  "point_of_utxo L junk p = \<lparr>op_hash = lb_decode_hash L junk (tx_id p), op_index = tx_pos p\<rparr>"

fun find_funds_utxos_loop ::
    "libbitcoin \<Rightarrow> hash_digest \<Rightarrow> Utxo list \<Rightarrow> output_point list \<Rightarrow> u64 \<Rightarrow> output_point list \<times> u64" where
  "find_funds_utxos_loop L junk [] utxos gathered = (utxos, gathered)"
| "find_funds_utxos_loop L junk (p # ps) utxos gathered =
     (if utxo_value p > 0
      then find_funds_utxos_loop L junk ps (utxos @ [point_of_utxo L junk p]) (gathered + utxo_value p)
      else find_funds_utxos_loop L junk ps utxos gathered)"

definition find_funds_utxos ::
    "libbitcoin \<Rightarrow> hash_digest \<Rightarrow> u64 \<Rightarrow> Utxo list \<Rightarrow> output_point list \<times> u64" where
  "find_funds_utxos L junk satoshis_needed input_utxos =
     (case find_funds_utxos_loop L junk input_utxos [] 0 of (utxos, gathered_funds) \<Rightarrow>
        if gathered_funds < satoshis_needed then ([], gathered_funds) else (utxos, gathered_funds))"

section \<open>What the callers rely on\<close>

text \<open>
  A selection returns either nothing, or the points of a sublist of its input together with
  the sum of their values, which covers the amount needed.
\<close>

locale coin_selection =
  fixes select :: "u64 \<Rightarrow> 'src list \<Rightarrow> output_point list \<times> u64"
    and worth :: "'src \<Rightarrow> u64"
    and point :: "'src \<Rightarrow> output_point"
  assumes select_sound:
    "select n xs = (us, g) \<Longrightarrow> us \<noteq> [] \<Longrightarrow>
       n \<le> g \<and> (\<exists>ys. subseq ys xs \<and> us = map point ys \<and> g = sum_list (map worth ys))"
    and select_empty: "select n xs = ([], g) \<Longrightarrow> 0 < n \<Longrightarrow> g < n"
begin

text \<open>The change that is left after the amount needed never wraps around.\<close>

lemma refund_exact:
  assumes "select n xs = (us, g)" "us \<noteq> []"
  shows "unat (g - n) = unat g - unat n" "unat n \<le> unat g"
  using select_sound [OF assms] by (simp_all add: unat_minus_le word_le_nat_alt)

lemma select_points_sublist:
  assumes "select n xs = (us, g)"
  shows "set us \<subseteq> point ` set xs"
proof (cases "us = []")
  case False
  then obtain ys where ys: "subseq ys xs" "us = map point ys"
    using select_sound [OF assms] by blast
  then have "set ys \<subseteq> set xs" by (auto dest: list_emb_set)
  with ys show ?thesis by auto
qed simp

lemma select_insufficient_iff:
  assumes "select n xs = (us, g)" "0 < n"
  shows "us = [] \<longleftrightarrow> g < n"
  using select_sound [OF assms(1)] select_empty assms
  by (metis linorder_not_le)

end

section \<open>The loops\<close>

text \<open>The loop stops after a prefix of the points.\<close>

lemma find_funds_loop_prefix:
  assumes "lb_points_total L all > 0"
  shows "\<exists>k \<le> length ps.
     find_funds_loop L n all ps us g =
       (us @ map point_of_value (take k ps), g + sum_list (map pv_value (take k ps))) \<and>
     (k < length ps \<longrightarrow> n \<le> g + sum_list (map pv_value (take k ps))) \<and>
     (\<forall>i < k. g + sum_list (map pv_value (take i ps)) < n)"
  using assms
proof (induction ps arbitrary: us g)
  case Nil
  then show ?case by simp
next
  case (Cons p ps)
  show ?case
  proof (cases "g < n")
    case False
    then have "n \<le> g" by simp
    with False show ?thesis by (intro exI [where x = 0]) (simp del: not_less)
  next
    case True
    from Cons.IH [OF Cons.prems, of "us @ [point_of_value p]" "g + pv_value p"]
    obtain k where k: "k \<le> length ps"
      "find_funds_loop L n all ps (us @ [point_of_value p]) (g + pv_value p) =
         (us @ [point_of_value p] @ map point_of_value (take k ps),
          g + pv_value p + sum_list (map pv_value (take k ps)))"
      "k < length ps \<longrightarrow> n \<le> g + pv_value p + sum_list (map pv_value (take k ps))"
      "\<forall>i < k. g + pv_value p + sum_list (map pv_value (take i ps)) < n"
      by auto
    have "\<forall>i < Suc k. g + sum_list (map pv_value (take i (p # ps))) < n"
      using k(4) True by (auto simp: less_Suc_eq_0_disj add.assoc)
    with k True Cons.prems show ?thesis
      by (intro exI [where x = "Suc k"]) (simp add: add.assoc)
  qed
qed

lemma find_funds_loop_zero_total:
  "lb_points_total L all = 0 \<Longrightarrow> find_funds_loop L n all ps us g = (us, g)"
  by (induction ps) auto

lemma find_funds_utxos_loop_eq:
  "find_funds_utxos_loop L junk ps us g =
     (us @ map (point_of_utxo L junk) (filter (\<lambda>p. 0 < utxo_value p) ps),
      g + sum_list (map utxo_value (filter (\<lambda>p. 0 < utxo_value p) ps)))"
  by (induction ps arbitrary: us g) (auto simp: add.assoc)

lemma find_funds_utxos_eq:
  "find_funds_utxos L junk n ps =
     (let sel = filter (\<lambda>p. 0 < utxo_value p) ps; g = sum_list (map utxo_value sel)
      in (if g < n then [] else map (point_of_utxo L junk) sel, g))"
  by (simp add: find_funds_utxos_def find_funds_utxos_loop_eq Let_def)

lemma take_subseq: "subseq (take k xs) xs"
  by (simp add: prefix_imp_subseq take_is_prefix)

interpretation libb_funds: coin_selection "find_funds L" pv_value point_of_value for L
proof unfold_locales
  fix n xs us g
  assume sel: "find_funds L n xs = (us, g)" and ne: "us \<noteq> []"
  show "n \<le> g \<and> (\<exists>ys. subseq ys xs \<and> us = map point_of_value ys \<and> g = sum_list (map pv_value ys))"
  proof (cases "lb_points_total L xs > 0")
    case True
    then obtain k where "find_funds_loop L n xs xs [] 0 =
        (map point_of_value (take k xs), sum_list (map pv_value (take k xs)))"
      using find_funds_loop_prefix [OF True, of xs n "[]" 0] by auto
    with sel ne have "us = map point_of_value (take k xs)" "g = sum_list (map pv_value (take k xs))"
      "n \<le> g"
      by (auto simp: find_funds_def not_less split: if_splits)
    with take_subseq show ?thesis by blast
  next
    case False
    then have "find_funds_loop L n xs xs [] 0 = ([], 0)"
      by (simp add: find_funds_loop_zero_total word_gt_0)
    with sel ne show ?thesis by (simp add: find_funds_def split: if_splits)
  qed
next
  fix n xs g
  assume sel: "find_funds L n xs = ([], g)" and "0 < n"
  show "g < n"
  proof (cases "lb_points_total L xs > 0")
    case True
    then obtain k where k: "find_funds_loop L n xs xs [] 0 =
        (map point_of_value (take k xs), sum_list (map pv_value (take k xs)))"
      using find_funds_loop_prefix [OF True, of xs n "[]" 0] by auto
    show ?thesis
    proof (rule ccontr)
      assume "\<not> g < n"
      with sel k have "take k xs = []" and "g = sum_list (map pv_value (take k xs))"
        by (auto simp: find_funds_def split: if_splits)
      with \<open>0 < n\<close> \<open>\<not> g < n\<close> show False by simp
    qed
  next
    case False
    then have "find_funds_loop L n xs xs [] 0 = ([], 0)"
      by (simp add: find_funds_loop_zero_total word_gt_0)
    with sel \<open>0 < n\<close> show ?thesis by (simp add: find_funds_def split: if_splits)
  qed
qed

interpretation electrum_funds: coin_selection "find_funds_utxos L junk" utxo_value "point_of_utxo L junk"
  for L junk
proof unfold_locales
  fix n xs us g
  assume "find_funds_utxos L junk n xs = (us, g)" "us \<noteq> []"
  then have "n \<le> g" "us = map (point_of_utxo L junk) (filter (\<lambda>p. 0 < utxo_value p) xs)"
    "g = sum_list (map utxo_value (filter (\<lambda>p. 0 < utxo_value p) xs))"
    by (auto simp: find_funds_utxos_eq Let_def not_less split: if_splits)
  then show "n \<le> g \<and> (\<exists>ys. subseq ys xs \<and> us = map (point_of_utxo L junk) ys \<and>
      g = sum_list (map utxo_value ys))"
    using subseq_filter_left by blast
next
  fix n xs g
  assume "find_funds_utxos L junk n xs = ([], g)" "0 < n"
  then show "g < n" by (auto simp: find_funds_utxos_eq Let_def split: if_splits)
qed

section \<open>Exact behaviour while the total fits in 64 bits\<close>

abbreviation points_total :: "point_value list \<Rightarrow> nat" where
  "points_total ps \<equiv> sum_list (map (\<lambda>p. unat (pv_value p)) ps)"

abbreviation utxos_total :: "Utxo list \<Rightarrow> nat" where
  "utxos_total us \<equiv> sum_list (map (\<lambda>p. unat (utxo_value p)) us)"

lemma points_total_take_le: "points_total (take k ps) \<le> points_total ps"
proof -
  have "points_total ps = points_total (take k ps) + points_total (drop k ps)"
    by (metis append_take_drop_id map_append sum_list_append)
  then show ?thesis by simp
qed

lemma unat_points_take:
  "points_total ps < 2 ^ 64 \<Longrightarrow> unat (sum_list (map pv_value (take k ps))) = points_total (take k ps)"
  using points_total_take_le [of k ps] by (intro unat_sum_list_bound) simp

lemma utxos_total_positive:
  "utxos_total (filter (\<lambda>p. 0 < utxo_value p) us) = utxos_total us"
  by (induction us) (auto simp: word_gt_0)

lemma find_funds_loop_spec:
  assumes doc: "points_total_documented L" and fits: "points_total ps < 2 ^ 64"
  shows "\<exists>k \<le> length ps.
    find_funds_loop L n ps ps [] 0 =
      (map point_of_value (take k ps), sum_list (map pv_value (take k ps))) \<and>
    (unat n \<le> points_total (take k ps) \<or> points_total (take k ps) = points_total ps) \<and>
    (\<forall>i < k. points_total (take i ps) < unat n)"
proof (cases "lb_points_total L ps > 0")
  case True
  from find_funds_loop_prefix [OF True, of ps n "[]" 0]
  obtain k where "k \<le> length ps"
    "find_funds_loop L n ps ps [] 0 =
      (map point_of_value (take k ps), sum_list (map pv_value (take k ps)))"
    "k < length ps \<longrightarrow> n \<le> sum_list (map pv_value (take k ps))"
    "\<forall>i < k. sum_list (map pv_value (take i ps)) < n"
    by auto
  then show ?thesis
    using fits by (intro exI [where x = k]) (auto simp: word_le_nat_alt word_less_nat_alt unat_points_take)
next
  case False
  then have "points_total ps = 0"
    using doc fits unfolding points_total_documented_def by (metis unat_0 word_gt_0)
  moreover from False have "find_funds_loop L n ps ps [] 0 = ([], 0)"
    by (simp add: find_funds_loop_zero_total word_gt_0)
  ultimately show ?thesis by (intro exI [where x = 0]) simp
qed

lemma find_funds_short:
  assumes "points_total_documented L" "points_total points < unat needed"
  shows "fst (find_funds L needed points) = [] \<and>
    unat (snd (find_funds L needed points)) = points_total points"
proof -
  have fits: "points_total points < 2 ^ 64"
    using assms(2) unat_u64_less [of needed] by linarith
  from find_funds_loop_spec [OF assms(1) fits, of needed] obtain k where k: "k \<le> length points"
    "find_funds_loop L needed points points [] 0 =
      (map point_of_value (take k points), sum_list (map pv_value (take k points)))"
    and "unat needed \<le> points_total (take k points) \<or> points_total (take k points) = points_total points"
    by blast
  moreover from this(3) have "points_total (take k points) = points_total points"
    using assms(2) points_total_take_le [of k points] by linarith
  ultimately show ?thesis
    using fits assms(2)
    by (simp add: find_funds_def word_less_nat_alt unat_points_take)
qed

lemma find_funds_utxos_value:
  assumes "utxos_total utxos < 2 ^ 64"
  shows "find_funds_utxos L junk needed utxos =
    (if utxos_total utxos < unat needed then [] else
       map (point_of_utxo L junk) (filter (\<lambda>p. 0 < utxo_value p) utxos),
     of_nat (utxos_total utxos))"
proof -
  have "unat (sum_list (map utxo_value (filter (\<lambda>p. 0 < utxo_value p) utxos))) = utxos_total utxos"
    using assms unat_sum_list_bound [of utxo_value "filter (\<lambda>p. 0 < utxo_value p) utxos"]
    by (simp add: utxos_total_positive)
  then show ?thesis
    by (simp add: find_funds_utxos_eq Let_def word_less_nat_alt word_of_nat_unat_u64)
qed

section \<open>Properties\<close>

text \<open>
  C11. When the points of an address are worth enough, \<^verbatim>\<open>find_funds\<close> returns the shortest
  prefix of them that covers the amount needed, together with the exact value of that prefix
  (no wrap-around, as long as the total value fits in 64 bits).
\<close>

theorem find_funds_sufficient:
  assumes "points_total_documented L" "points_total points < 2 ^ 64"
    and "unat needed \<le> points_total points"
  shows "\<exists>k \<le> length points.
    fst (find_funds L needed points) = map point_of_value (take k points) \<and>
    unat (snd (find_funds L needed points)) = points_total (take k points) \<and>
    unat needed \<le> points_total (take k points) \<and>
    (\<forall>i < k. points_total (take i points) < unat needed)"
proof -
  from find_funds_loop_spec [OF assms(1,2), of needed] obtain k where k: "k \<le> length points"
    "find_funds_loop L needed points points [] 0 =
      (map point_of_value (take k points), sum_list (map pv_value (take k points)))"
    "unat needed \<le> points_total (take k points)"
    "\<forall>i < k. points_total (take i points) < unat needed"
    using assms(3) by fastforce
  then have "\<not> sum_list (map pv_value (take k points)) < needed"
    using assms(2) by (simp add: word_less_nat_alt unat_points_take)
  with k assms(2) show ?thesis
    by (intro exI [where x = k]) (simp add: find_funds_def unat_points_take)
qed

definition sample_points :: "point_value list" where
  "sample_points = [\<lparr>pv_hash = [1], pv_index = 0, pv_value = 0\<rparr>,
                    \<lparr>pv_hash = [2], pv_index = 1, pv_value = 5\<rparr>,
                    \<lparr>pv_hash = [3], pv_index = 2, pv_value = 7\<rparr>]"

theorem find_funds_sufficient_witness:
  "\<exists>k \<le> length sample_points.
    fst (find_funds sample_libbitcoin 4 sample_points) = map point_of_value (take k sample_points) \<and>
    unat (snd (find_funds sample_libbitcoin 4 sample_points)) = points_total (take k sample_points) \<and>
    unat (4 :: u64) \<le> points_total (take k sample_points) \<and>
    (\<forall>i < k. points_total (take i sample_points) < unat (4 :: u64))"
  by (rule find_funds_sufficient)
     (simp_all add: sample_points_total_documented sample_points_def)

text \<open>
  When the points are not worth enough, \<^verbatim>\<open>find_funds\<close> returns no point and the exact
  total that is available, which the callers report to the user.
\<close>

theorem find_funds_insufficient:
  assumes "points_total_documented L" "points_total points < unat needed"
  shows "fst (find_funds L needed points) = [] \<and>
    unat (snd (find_funds L needed points)) = points_total points"
  by (rule find_funds_short [OF assms])

theorem find_funds_insufficient_witness:
  "fst (find_funds sample_libbitcoin 20 sample_points) = [] \<and>
   unat (snd (find_funds sample_libbitcoin 20 sample_points)) = points_total sample_points"
  by (rule find_funds_insufficient)
     (simp_all add: sample_points_total_documented sample_points_def)

text \<open>
  The guard inside the loop of \<^verbatim>\<open>find_funds\<close> tests the total of all points instead of the
  point at hand: a point worth nothing that precedes the others is always part of a
  successful selection.
\<close>

theorem find_funds_takes_worthless:
  assumes "0 < needed" "pv_value p = 0" "find_funds L needed (p # points) = (utxos, gathered)"
    and "utxos \<noteq> []"
  shows "point_of_value p \<in> set utxos"
proof -
  have pos: "lb_points_total L (p # points) > 0"
    using assms(3,4) by (cases "lb_points_total L (p # points) > 0")
      (auto simp: find_funds_def word_gt_0 find_funds_loop_zero_total split: if_splits)
  have loop: "find_funds_loop L needed (p # points) (p # points) [] 0 = (utxos, gathered)"
    using assms(3,4) by (auto simp: find_funds_def split: prod.splits if_splits)
  with find_funds_loop_prefix [OF pos, of "p # points" needed "[]" 0] assms(4)
  obtain k where "utxos = map point_of_value (take k (p # points))" "k \<noteq> 0"
    by (auto simp: split_paired_all) (metis not_gr_zero take0 list.map(1))
  then show ?thesis by (cases k) auto
qed

theorem find_funds_takes_worthless_witness:
  "point_of_value (hd sample_points) \<in> set (fst (find_funds sample_libbitcoin 4 sample_points))"
  by (rule find_funds_takes_worthless [of 4 "hd sample_points" sample_libbitcoin "tl sample_points" _ 5])
     (simp_all add: find_funds_def sample_points_def sample_lb)

text \<open>
  The Electrum variant does not stop early: whenever the outputs are worth enough, it
  spends every output of positive value, in the server's order, and reports the exact sum.
\<close>

theorem find_funds_utxos_takes_all:
  assumes "utxos_total utxos < 2 ^ 64"
  shows "find_funds_utxos L junk needed utxos =
    (if utxos_total utxos < unat needed then [] else
       map (point_of_utxo L junk) (filter (\<lambda>p. 0 < utxo_value p) utxos),
     of_nat (utxos_total utxos))"
  by (rule find_funds_utxos_value [OF assms])

definition sample_utxos :: "Utxo list" where
  "sample_utxos = [\<lparr>tx_pos = 0, tx_id = ''A'', utxo_value = 9, utxo_height = 7\<rparr>,
                   \<lparr>tx_pos = 1, tx_id = ''B'', utxo_value = 0, utxo_height = 7\<rparr>,
                   \<lparr>tx_pos = 2, tx_id = ''C'', utxo_value = 3, utxo_height = 8\<rparr>]"

theorem find_funds_utxos_takes_all_witness:
  "find_funds_utxos sample_libbitcoin [] 4 sample_utxos =
    ([\<lparr>op_hash = [65], op_index = 0\<rparr>, \<lparr>op_hash = [67], op_index = 2\<rparr>], 12)"
  by (subst find_funds_utxos_takes_all)
     (simp_all add: sample_utxos_def point_of_utxo_def sample_lb)

end
