(* ===== verification/LibbClient.thy ===== *)
theory LibbClient
  imports Libbitcoin
begin

text \<open>
  \<^verbatim>\<open>src/libbitcoinclient/libb_client.cpp\<close>: the wrapper of libbitcoin's \<^verbatim>\<open>obelisk_client\<close>. A
  request registers two handlers and \<^verbatim>\<open>wait()\<close> calls them; the library is a parameter that
  says which calls happen, in order.
\<close>

section \<open>The client library\<close>

datatype 'a callback = OnError string | OnReply 'a

datatype select_algorithm = individual | greedy

record ('w, 'h, 'hd) obelisk =
  ob_endpoint :: "string \<Rightarrow> string result"
  ob_connect :: "string \<Rightarrow> 'w \<Rightarrow> bool \<times> 'w"
  ob_fetch_last_height :: "'w \<Rightarrow> nat callback list \<times> 'w"
  ob_fetch_unspent_outputs ::
    "payment_address \<Rightarrow> u64 \<Rightarrow> select_algorithm \<Rightarrow> 'w \<Rightarrow> point_value list callback list \<times> 'w"
  ob_fetch_history3 :: "payment_address \<Rightarrow> 'w \<Rightarrow> 'h list callback list \<times> 'w"
  ob_fetch_transaction2 :: "hash_digest \<Rightarrow> 'w \<Rightarrow> transaction callback list \<times> 'w"
  ob_fetch_block_header :: "int \<Rightarrow> 'w \<Rightarrow> 'hd callback list \<times> 'w"
  ob_broadcast :: "transaction \<Rightarrow> 'w \<Rightarrow> (bool \<times> string) callback list \<times> 'w"

text \<open>The object: whether \<^verbatim>\<open>client_\<close> is set, the server of \<^verbatim>\<open>connection_\<close>, and \<^verbatim>\<open>url_\<close>.\<close>

record LibbClient =
  lc_client :: bool
  lc_connection_server :: string
  lc_url :: string

definition LibbClient_new :: LibbClient where
  "LibbClient_new = \<lparr>lc_client = False, lc_connection_server = [], lc_url = []\<rparr>"

section \<open>Connecting\<close>

definition do_connect :: "('w, 'h, 'hd) obelisk \<Rightarrow> (LibbClient \<times> 'w, unit) exec" where
  "do_connect ob = (\<lambda>(c, w). case ob_connect ob (lc_connection_server c) w of (ok, w') \<Rightarrow>
     (if ok then Inr () else Inl (InvalidArgument ''Connection Failed''), (c, w')))"

definition re_init :: "('w, 'h, 'hd) obelisk \<Rightarrow> (LibbClient \<times> 'w, unit) exec" where
  "re_init ob =
     bindE (modifyS (\<lambda>(c, w). (c\<lparr>lc_client := True\<rparr>, w))) (\<lambda>_.
     bindE (getS (\<lambda>(c, w). lc_url c)) (\<lambda>url.
     bindE (liftR (ob_endpoint ob url)) (\<lambda>server.
     bindE (modifyS (\<lambda>(c, w). (c\<lparr>lc_connection_server := server\<rparr>, w))) (\<lambda>_.
     do_connect ob))))"

definition init :: "('w, 'h, 'hd) obelisk \<Rightarrow> string \<Rightarrow> (LibbClient \<times> 'w, unit) exec" where
  "init ob url =
     bindE (modifyS (\<lambda>(c, w). (c\<lparr>lc_url := url\<rparr>, w))) (\<lambda>_. re_init ob)"

section \<open>Requests\<close>

text \<open>
  Sending a request through a null \<^verbatim>\<open>client_\<close> is undefined behaviour; otherwise the handlers
  run, on the local variables of the request, in the order in which \<^verbatim>\<open>wait()\<close> calls them.
\<close>

definition request ::
    "('w \<Rightarrow> 'a callback list \<times> 'w) \<Rightarrow> (string \<Rightarrow> 'l \<Rightarrow> 'l result) \<Rightarrow> ('a \<Rightarrow> 'l \<Rightarrow> 'l result) \<Rightarrow>
     'l \<Rightarrow> (LibbClient \<times> 'w, 'l) exec" where
  "request send on_error on_reply l = (\<lambda>(c, w).
     if \<not> lc_client c then (Inl UndefinedBehaviour, (c, w))
     else (case send w of (cbs, w') \<Rightarrow>
       (foldR (\<lambda>cb l'. case cb of OnError m \<Rightarrow> on_error m l' | OnReply x \<Rightarrow> on_reply x l') cbs l,
        (c, w'))))"

text \<open>\<^verbatim>\<open>height\<close> is not initialised: \<^verbatim>\<open>junk\<close> is what it held.\<close>

definition fetch_height :: "('w, 'h, 'hd) obelisk \<Rightarrow> nat \<Rightarrow> (LibbClient \<times> 'w, nat) exec" where
  "fetch_height ob junk =
     request (ob_fetch_last_height ob)
       (\<lambda>m l. Inl (InvalidArgument (''Error Code: '' @ m)))
       (\<lambda>blockHeight l. Inr blockHeight) junk"

definition fetch_utxo ::
    "('w, 'h, 'hd) obelisk \<Rightarrow> payment_address \<Rightarrow> u64 \<Rightarrow> select_algorithm \<Rightarrow> point_value list \<Rightarrow>
     (LibbClient \<times> 'w, point_value list) exec" where
  "fetch_utxo ob address satoshis algorithm points_value =
     request (ob_fetch_unspent_outputs ob address satoshis algorithm)
       (\<lambda>m l. Inl (InvalidArgument (''Error Code: '' @ m)))
       (\<lambda>pv l. Inr pv) points_value"

text \<open>
  The other requests collect errors in a stream and throw after \<^verbatim>\<open>wait()\<close>. Their locals are
  the stream, the flag \<^verbatim>\<open>is_error\<close> and the out parameter.
\<close>

definition throw_if_error :: "(string \<times> bool) \<times> 'l \<Rightarrow> (LibbClient \<times> 'w, 'l) exec" where
  "throw_if_error = (\<lambda>((oss, is_error), l).
     if is_error then throw (InvalidArgument oss) else ret l)"

definition note_error :: "string \<Rightarrow> string \<Rightarrow> (string \<times> bool) \<times> 'l \<Rightarrow> ((string \<times> bool) \<times> 'l) result" where
  "note_error text m = (\<lambda>((oss, is_error), l). Inr ((oss @ text @ m, True), l))"

definition fetch_history ::
    "('w, 'h, 'hd) obelisk \<Rightarrow> payment_address \<Rightarrow> 'h list \<Rightarrow> (LibbClient \<times> 'w, 'h list) exec" where
  "fetch_history ob address history =
     bindE (request (ob_fetch_history3 ob address)
              (note_error ''Fetch history failed with error code: '')
              (\<lambda>history_list (e, l). Inr (e, l @ history_list)) (([], False), history))
       throw_if_error"

definition fetch_tx ::
    "libbitcoin \<Rightarrow> ('w, 'h, 'hd) obelisk \<Rightarrow> hash_digest \<Rightarrow> string \<Rightarrow> transaction \<Rightarrow>
     (LibbClient \<times> 'w, transaction) exec" where
  "fetch_tx L ob junk txid tx =
     (let hash = lb_decode_hash L junk txid in
      bindE (request (ob_fetch_transaction2 ob hash)
               (note_error ''Fetch transaction failed with error code: '')
               (\<lambda>t (e, l). Inr (e, t)) (([], False), tx))
        throw_if_error)"

definition fetch_header ::
    "('w, 'h, 'hd) obelisk \<Rightarrow> int \<Rightarrow> 'hd \<Rightarrow> (LibbClient \<times> 'w, 'hd) exec" where
  "fetch_header ob h header =
     bindE (request (ob_fetch_block_header ob h)
              (note_error ''Fetch header failed with error code: '')
              (\<lambda>hd (e, l). Inr (e, hd)) (([], False), header))
       throw_if_error"

text \<open>The reply to a broadcast is a status: \<^verbatim>\<open>error::success\<close> or a failure with its message.\<close>

definition send_tx :: "libbitcoin \<Rightarrow> ('w, 'h, 'hd) obelisk \<Rightarrow> string \<Rightarrow> (LibbClient \<times> 'w, unit) exec" where
  "send_tx L ob tx_hex =
     (case lb_decode_base16 L tx_hex of
        None \<Rightarrow> throw (InvalidArgument ''could not decode transaction from hex'')
      | Some tx_chunk \<Rightarrow>
          (case lb_tx_from_data L tx_chunk of
             None \<Rightarrow> throw (InvalidArgument ''could not decode transaction'')
           | Some tx \<Rightarrow>
               bindE (request (ob_broadcast ob tx)
                        (note_error ''Send failed with error code: '')
                        (\<lambda>(success, m) ((oss, is_error), l).
                           Inr (if success then ((oss, is_error), l) else ((oss @ ''Send failed '' @ m, True), l)))
                        (([], False), ()))
                 throw_if_error))"

section \<open>How the handlers combine\<close>

fun is_error_callback :: "'a callback \<Rightarrow> bool" where
  "is_error_callback (OnError _) = True"
| "is_error_callback (OnReply _) = False"

fun reply_of :: "'a callback \<Rightarrow> 'a list" where
  "reply_of (OnReply x) = [x]"
| "reply_of (OnError _) = []"

lemma fetch_history_callbacks:
  "foldR (\<lambda>cb l'. case cb of OnError m \<Rightarrow> note_error text m l'
                       | OnReply x \<Rightarrow> (\<lambda>history_list (e, l). Inr (e, l @ history_list)) x l')
     cbs ((oss, err), hs) = Inr ((oss', err'), hs') \<Longrightarrow>
   err' = (err \<or> list_ex is_error_callback cbs) \<and> hs' = hs @ concat (concat (map reply_of cbs))"
proof (induction cbs arbitrary: oss err hs)
  case Nil
  then show ?case by simp
next
  case (Cons cb cbs)
  then show ?case by (cases cb) (fastforce simp: note_error_def)+
qed

section \<open>Properties\<close>

text \<open>
  \<^verbatim>\<open>fetch_history\<close> returns normally only when no handler reported an error, and then the
  out parameter has grown by all the replies, in order.
\<close>

theorem fetch_history_complete:
  assumes "fetch_history ob address history (c, w) = (Inr hs, s')"
  shows "\<not> list_ex is_error_callback (fst (ob_fetch_history3 ob address w)) \<and>
    hs = history @ concat (concat (map reply_of (fst (ob_fetch_history3 ob address w))))"
proof -
  obtain cbs w' where cbs: "ob_fetch_history3 ob address w = (cbs, w')" by fastforce
  with assms obtain oss err where
    "foldR (\<lambda>cb l'. case cb of OnError m \<Rightarrow> note_error ''Fetch history failed with error code: '' m l'
         | OnReply x \<Rightarrow> (\<lambda>history_list (e, l). Inr (e, l @ history_list)) x l') cbs (([], False), history)
       = Inr ((oss, err), hs)" and "\<not> err"
    by (auto simp: fetch_history_def request_def throw_if_error_def exec_simps
        split: if_splits prod.splits)
  with cbs show ?thesis using fetch_history_callbacks by fastforce
qed

definition sample_obelisk :: "(unit, nat, unit) obelisk" where
  "sample_obelisk =
    \<lparr>ob_endpoint = Inr, ob_connect = (\<lambda>_ w. (True, w)),
     ob_fetch_last_height = (\<lambda>w. ([], w)),
     ob_fetch_unspent_outputs = (\<lambda>a n alg w.
       ([OnReply [\<lparr>pv_hash = [7], pv_index = 1, pv_value = 900\<rparr>]], w)),
     ob_fetch_history3 = (\<lambda>a w. ([OnReply [1, 2], OnReply [3]], w)),
     ob_fetch_transaction2 = (\<lambda>h w. ([OnError ''not found''], w)),
     ob_fetch_block_header = (\<lambda>n w. ([OnReply ()], w)),
     ob_broadcast = (\<lambda>t w. ([OnReply (True, [])], w))\<rparr>"

abbreviation sample_address :: payment_address where
  "sample_address \<equiv> \<lparr>pa_version = 0, pa_hash = [], pa_valid = True\<rparr>"

theorem fetch_history_complete_witness:
  "fst (fetch_history sample_obelisk sample_address [0]
     (\<lparr>lc_client = True, lc_connection_server = [], lc_url = []\<rparr>, ())) = Inr [0, 1, 2, 3]"
proof -
  let ?s = "(\<lparr>lc_client = True, lc_connection_server = [], lc_url = []\<rparr>, ())"
  have "fetch_history sample_obelisk sample_address [0] ?s = (Inr [0, 1, 2, 3], ?s)"
    by (simp add: fetch_history_def request_def throw_if_error_def sample_obelisk_def bindE_def)
  from fetch_history_complete [OF this] show ?thesis
    by (simp add: fetch_history_def request_def throw_if_error_def sample_obelisk_def bindE_def)
qed

text \<open>
  Before \<^verbatim>\<open>init\<close> has run, every request dereferences the null client; after \<^verbatim>\<open>init\<close> (even
  one that failed to connect) the client is set, and \<^verbatim>\<open>fetch_height\<close> without any handler call
  returns whatever the uninitialised variable held.
\<close>

theorem requests_need_init:
  "fst (fetch_height ob junk (LibbClient_new, w)) = Inl UndefinedBehaviour \<and>
   fst (fetch_utxo ob a n alg pts (LibbClient_new, w)) = Inl UndefinedBehaviour \<and>
   lc_client (fst (snd (init ob url (c, w)))) \<and>
   (lc_client c' \<and> ob_fetch_last_height ob w' = ([], w'') \<longrightarrow>
     fst (fetch_height ob junk (c', w')) = Inr junk)"
  by (auto simp: fetch_height_def fetch_utxo_def request_def LibbClient_new_def init_def re_init_def
      do_connect_def bindE_def split: prod.splits sum.splits)

theorem requests_need_init_witness:
  "fst (fetch_height sample_obelisk 42 (\<lparr>lc_client = True, lc_connection_server = [], lc_url = []\<rparr>, ())) = Inr 42"
  by (rule requests_need_init [THEN conjunct2, THEN conjunct2, THEN conjunct2, THEN mp])
     (simp add: sample_obelisk_def)

end
