(* ===== verification/ElectrumInterface.thy ===== *)
theory ElectrumInterface
  imports ElectrumModel
begin

text \<open>
  \<^verbatim>\<open>src/electrumclient/electrum_interface.hpp\<close>: the abstract class of an Electrum client as
  the record of its virtual operations, each acting on a world \<^verbatim>\<open>'w\<close> (the client object, its
  connection and the server). \<^verbatim>\<open>RonghuaClient\<close> provides the one implementation of the
  repository; the wallet state and the transaction creators take the record as an argument.
  An error callback is known by a number. \<^verbatim>\<open>init\<close> is not part of the record: it is called
  once, on the concrete class.
\<close>

record ElectrumErrorEvent =
  error_code :: int
  error_message :: string

record ProgressEvent =
  history_read_delta :: int
  history_total :: int
  txs_read_delta :: int
  txs_total :: int

type_synonym 'w ProgressCallback = "ProgressEvent \<Rightarrow> ('w, unit) exec"

record ('j, 'w) ElectrumInterface =
  ei_scripthashSubscribe :: "string \<Rightarrow> ('w, unit) exec"
  ei_scripthashSubscribeBulk :: "string list \<Rightarrow> ('w, unit) exec"
  ei_getHistory :: "string \<Rightarrow> ('w, AddressHistory) exec"
  ei_getHistoryBulk :: "string list \<Rightarrow> 'w ProgressCallback list \<Rightarrow> ('w, AddressHistory list) exec"
  ei_getTransaction :: "string \<Rightarrow> ('w, string) exec"
  ei_getTransactionBulk :: "string list \<Rightarrow> 'w ProgressCallback list \<Rightarrow> ('w, string list) exec"
  ei_getBalance :: "string \<Rightarrow> ('w, AddressBalance) exec"
  ei_getBlockHeader :: "int \<Rightarrow> ('w, string) exec"
  ei_getUtxos :: "string \<Rightarrow> ('w, Utxo list) exec"
  ei_getServerPeers :: "('w, ServerInfo list) exec"
  ei_estimateFee :: "int \<Rightarrow> ('w, u64) exec"
  ei_broadcastTransaction :: "string \<Rightarrow> ('w, string) exec"
  ei_ping :: "('w, unit) exec"
  ei_getVersion :: "string \<Rightarrow> string list \<Rightarrow> ('w, string list) exec"
  ei_get_subscription_event :: "('w, 'j ElectrumMessage) exec"
  ei_do_interrupt :: "('w, unit) exec"
  ei_stop :: "('w, unit) exec"
  ei_subscribe_to_error_events :: "nat \<Rightarrow> ('w, unit) exec"
  ei_clear_error_events_subscriptions :: "('w, unit) exec"

text \<open>
  The contract the callers of the bulk operations rely on, which the comments in
  \<^verbatim>\<open>wallet_state.cpp\<close> call the 1-1 relation of requests and replies: when a bulk operation
  returns, it returns one entry for every element of its argument.
\<close>

locale bulk_service =
  fixes history_bulk :: "string list \<Rightarrow> 'w ProgressCallback list \<Rightarrow> ('w, AddressHistory list) exec"
    and transaction_bulk :: "string list \<Rightarrow> 'w ProgressCallback list \<Rightarrow> ('w, string list) exec"
  assumes history_bulk_complete:
      "history_bulk addresses cbs w = (Inr hs, w') \<Longrightarrow> length hs = length addresses"
    and transaction_bulk_complete:
      "transaction_bulk txids cbs w = (Inr ts, w') \<Longrightarrow> length ts = length txids"
begin

lemma transaction_bulk_at:
  "transaction_bulk txids cbs w = (Inr ts, w') \<Longrightarrow> i < length txids \<Longrightarrow> vec_at ts i = Inr (ts ! i)"
  by (simp add: transaction_bulk_complete)

lemma history_bulk_at:
  "history_bulk addresses cbs w = (Inr hs, w') \<Longrightarrow> i < length hs \<Longrightarrow>
     vec_at addresses i = Inr (addresses ! i)"
  by (simp add: history_bulk_complete)

end

end
