(* ===== verification/AddressConverter.thy ===== *)
theory AddressConverter
  imports Libbitcoin
begin

text \<open>
  \<^verbatim>\<open>src/utility/address_converter.cpp\<close>: from a base58 address to the script hash under which
  an Electrum server files the history of the address.
\<close>

section \<open>The conversion\<close>

text \<open>
  The iterator range \<^verbatim>\<open>begin()+1, begin()+21\<close> is read without a test of the length: a decoded
  address of fewer than 21 bytes is undefined behaviour.
\<close>

definition base58_to_spkh_hex :: "libbitcoin \<Rightarrow> string \<Rightarrow> string result" where
  "base58_to_spkh_hex L base58_address =
     (case lb_decode_base58 L base58_address of
        None \<Rightarrow> Inl (InvalidArgument ''base58_to_spk_hex'')
      | Some decoded \<Rightarrow>
          if length decoded < 21 then Inl UndefinedBehaviour
          else
            (let stripped = take 20 (drop 1 decoded);
                 prefix = [0x76, 0xa9, 0x14];
                 postfix = [0x88, 0xac];
                 stripped = stripped @ postfix;
                 stripped = prefix @ stripped;
                 sha = lb_sha256 L stripped;
                 sha_rev = rev sha
             in Inr (lb_encode_base16 L sha_rev)))"

section \<open>The specification\<close>

text \<open>
  The Electrum protocol: the key of an address is the byte-reversed hash, in hex, of the
  script that pays to it; for a legacy address that script is DUP HASH160 \<^verbatim>\<open>hash\<close>
  EQUALVERIFY CHECKSIG.
\<close>

definition p2pkh_script_bytes :: "short_hash \<Rightarrow> data_chunk" where
  "p2pkh_script_bytes h = [0x76, 0xa9, of_nat (length h)] @ h @ [0x88, 0xac]"

definition electrum_script_hash :: "libbitcoin \<Rightarrow> data_chunk \<Rightarrow> string" where
  "electrum_script_hash L script_bytes = lb_encode_base16 L (rev (lb_sha256 L script_bytes))"

lemma base58_to_spkh_hex_decoded:
  assumes "lb_decode_base58 L a = Some (version # h @ checksum)" "length h = 20"
  shows "base58_to_spkh_hex L a = Inr (electrum_script_hash L (p2pkh_script_bytes h))"
  using assms by (simp add: base58_to_spkh_hex_def electrum_script_hash_def p2pkh_script_bytes_def)

section \<open>Properties\<close>

text \<open>
  An address that decodes to a version byte, a 20-byte key hash and a checksum is
  converted to the Electrum script hash of the pay-to-key-hash script for that key hash; in
  particular version byte and checksum play no role, so a pay-to-script-hash address is filed
  under the key-hash script as well.
\<close>

theorem base58_to_spkh_hex_correct:
  assumes "lb_decode_base58 L address = Some (version # key_hash @ checksum)"
    and "length key_hash = 20"
  shows "base58_to_spkh_hex L address =
    Inr (lb_encode_base16 L (rev (lb_sha256 L (p2pkh_script_bytes key_hash))))"
  using base58_to_spkh_hex_decoded [OF assms] by (simp add: electrum_script_hash_def)

theorem base58_to_spkh_hex_correct_witness:
  "base58_to_spkh_hex (sample_libbitcoin\<lparr>lb_decode_base58 := (\<lambda>s. Some
      [0x6f, 0x61, 0xc9, 0x5c, 0xdd, 0xad, 0xf4, 0x65, 0xca, 0xc9, 0xb0, 0x75, 0x1e, 0xda, 0xd1,
       0x66, 0x24, 0xd0, 0x15, 0x72, 0xc0, 0x66, 0xff, 0x80, 0x27])\<rparr>) ''mpS14bFCZiHFRxfNNbnPT2FScJBrm96iLE''
   = Inr (sample_hex
      [0xac, 0x88, 0xc0, 0x72, 0x15, 0xd0, 0x24, 0x66, 0xd1, 0xda, 0x1e, 0x75, 0xb0, 0xc9, 0xca,
       0x65, 0xf4, 0xad, 0xdd, 0x5c, 0xc9, 0x61, 0x14, 0xa9, 0x76])"
  by (subst base58_to_spkh_hex_correct [where version = "0x6f" and checksum = "[0x66, 0xff, 0x80, 0x27]"
        and key_hash = "[0x61, 0xc9, 0x5c, 0xdd, 0xad, 0xf4, 0x65, 0xca, 0xc9, 0xb0, 0x75, 0x1e, 0xda,
          0xd1, 0x66, 0x24, 0xd0, 0x15, 0x72, 0xc0]"])
     (simp_all add: p2pkh_script_bytes_def sample_lb)

text \<open>
  The conversion succeeds exactly on the texts that decode to at least 21 bytes; a text
  that is no base58 is reported as an exception, and a shorter one is read out of bounds.
\<close>

theorem base58_to_spkh_hex_outcome:
  "((\<exists>s. base58_to_spkh_hex L a = Inr s) \<longleftrightarrow> (\<exists>d. lb_decode_base58 L a = Some d \<and> 21 \<le> length d)) \<and>
   (base58_to_spkh_hex L a = Inl (InvalidArgument ''base58_to_spk_hex'') \<longleftrightarrow> lb_decode_base58 L a = None) \<and>
   (base58_to_spkh_hex L a = Inl UndefinedBehaviour \<longleftrightarrow>
     (\<exists>d. lb_decode_base58 L a = Some d \<and> length d < 21))"
  by (auto simp: base58_to_spkh_hex_def Let_def not_less split: option.splits)

end
