(* ===== verification/TxBuild.thy ===== *)
theory TxBuild
  imports FundsFinder LibbClient ElectrumInterface AddressConverter
begin

text \<open>
  The steps the two online transaction creators share (the same statements appear in
  \<^verbatim>\<open>src/locktx/online_lock_tx_creator.cpp\<close> and \<^verbatim>\<open>src/p2pkhtx/online_p2pkh_tx_creator.cpp\<close>):
  one input per selected point, and the signing loop over the inputs.
\<close>

section \<open>Inputs and signatures\<close>

definition spend_input :: "libbitcoin \<Rightarrow> output_point \<Rightarrow> txin" where
  "spend_input L utxo =
     (lb_new_input L)\<lparr>previous_output := utxo, in_sequence := 0xfffffffe\<rparr>"

definition push_input :: "libbitcoin \<Rightarrow> transaction \<Rightarrow> output_point \<Rightarrow> transaction" where
  "push_input L tx utxo = tx\<lparr>tx_inputs := tx_inputs tx @ [spend_input L utxo]\<rparr>"

definition push_inputs :: "libbitcoin \<Rightarrow> output_point list \<Rightarrow> transaction \<Rightarrow> transaction" where
  "push_inputs L utxos tx = foldl (push_input L) tx utxos"

definition push_output :: "txout \<Rightarrow> transaction \<Rightarrow> transaction" where
  "push_output out tx = tx\<lparr>tx_outputs := tx_outputs tx @ [out]\<rparr>"

text \<open>
  One iteration of the signing loop: input \<^verbatim>\<open>i\<close> is signed in the transaction as it is by
  then, with the scripts of the inputs before it already set.
\<close>

definition sign_input :: "libbitcoin \<Rightarrow> ec_private \<Rightarrow> transaction \<Rightarrow> nat \<Rightarrow> transaction" where
  "sign_input L priv_key_ec tx i =
     (let pub_key_data_chunk = lb_public_key_data L priv_key_ec;
          previous_locking_script = lb_to_pay_key_hash_pattern L (lb_bitcoin_short_hash L pub_key_data_chunk);
          sig = lb_endorsement L (ec_secret priv_key_ec) previous_locking_script tx (of_nat i);
          sigScript = [Push sig, Push pub_key_data_chunk]
      in tx\<lparr>tx_inputs := (tx_inputs tx)[i := (tx_inputs tx ! i)\<lparr>in_script := sigScript\<rparr>]\<rparr>)"

definition sign_inputs :: "libbitcoin \<Rightarrow> ec_private \<Rightarrow> nat \<Rightarrow> transaction \<Rightarrow> transaction" where
  "sign_inputs L priv_key_ec n tx = foldl (sign_input L priv_key_ec) tx [0..<n]"

section \<open>What signing leaves alone\<close>

text \<open>The part of a transaction a signature of kind \<^verbatim>\<open>all\<close> commits to: everything but the
  input scripts.\<close>

definition signed_view :: "transaction \<Rightarrow> u32 \<times> u32 \<times> (output_point \<times> u32) list \<times> txout list" where
  "signed_view tx = (tx_version tx, tx_locktime tx,
     map (\<lambda>i. (previous_output i, in_sequence i)) (tx_inputs tx), tx_outputs tx)"

text \<open>Documented behaviour of \<^verbatim>\<open>create_endorsement\<close> with sighash \<^verbatim>\<open>all\<close>: the signature does
  not depend on the input scripts.\<close>

definition endorsement_documented :: "libbitcoin \<Rightarrow> bool" where
  "endorsement_documented L \<longleftrightarrow> (\<forall>sec s tx tx' i. signed_view tx = signed_view tx' \<longrightarrow>
     lb_endorsement L sec s tx i = lb_endorsement L sec s tx' i)"

lemma sample_endorsement_documented: "endorsement_documented sample_libbitcoin"
  by (simp add: endorsement_documented_def sample_lb)

lemma tx_inputs_push_inputs [simp]:
  "tx_inputs (push_inputs L utxos tx) = tx_inputs tx @ map (spend_input L) utxos"
  by (induction utxos arbitrary: tx) (simp_all add: push_inputs_def push_input_def)

lemma tx_other_push_inputs [simp]:
  "tx_outputs (push_inputs L utxos tx) = tx_outputs tx"
  "tx_version (push_inputs L utxos tx) = tx_version tx"
  "tx_locktime (push_inputs L utxos tx) = tx_locktime tx"
  by (induction utxos arbitrary: tx) (simp_all add: push_inputs_def push_input_def)

lemma push_output_simps [simp]:
  "tx_outputs (push_output out tx) = tx_outputs tx @ [out]"
  "tx_inputs (push_output out tx) = tx_inputs tx"
  "tx_version (push_output out tx) = tx_version tx"
  "tx_locktime (push_output out tx) = tx_locktime tx"
  by (simp_all add: push_output_def)

lemma signed_view_sign_input [simp]: "signed_view (sign_input L key tx i) = signed_view tx"
proof (cases "i < length (tx_inputs tx)")
  case True
  then have "map (\<lambda>i. (previous_output i, in_sequence i))
      ((tx_inputs tx)[i := (tx_inputs tx ! i)\<lparr>in_script := s\<rparr>])
    = map (\<lambda>i. (previous_output i, in_sequence i)) (tx_inputs tx)" for s
    by (simp add: map_update list_update_same_conv)
  then show ?thesis by (simp add: sign_input_def signed_view_def Let_def)
next
  case False
  then show ?thesis by (simp add: sign_input_def signed_view_def Let_def list_update_beyond)
qed

lemma signed_view_sign_inputs [simp]: "signed_view (sign_inputs L key n tx) = signed_view tx"
  by (induction n) (simp_all add: sign_inputs_def)

lemma signed_view_simps:
  "signed_view tx = signed_view tx' \<Longrightarrow> tx_outputs tx = tx_outputs tx'"
  "signed_view tx = signed_view tx' \<Longrightarrow> tx_version tx = tx_version tx'"
  "signed_view tx = signed_view tx' \<Longrightarrow> tx_locktime tx = tx_locktime tx'"
  "signed_view tx = signed_view tx' \<Longrightarrow>
     map previous_output (tx_inputs tx) = map previous_output (tx_inputs tx')"
  "signed_view tx = signed_view tx' \<Longrightarrow>
     map in_sequence (tx_inputs tx) = map in_sequence (tx_inputs tx')"
proof -
  assume v: "signed_view tx = signed_view tx'"
  then have p: "map (\<lambda>i. (previous_output i, in_sequence i)) (tx_inputs tx)
      = map (\<lambda>i. (previous_output i, in_sequence i)) (tx_inputs tx')"
    by (simp add: signed_view_def)
  from v show "tx_outputs tx = tx_outputs tx'" "tx_version tx = tx_version tx'"
    "tx_locktime tx = tx_locktime tx'"
    by (simp_all add: signed_view_def)
  from arg_cong [OF p, of "map fst"] show "map previous_output (tx_inputs tx) = map previous_output (tx_inputs tx')"
    by (simp add: comp_def)
  from arg_cong [OF p, of "map snd"] show "map in_sequence (tx_inputs tx) = map in_sequence (tx_inputs tx')"
    by (simp add: comp_def)
qed

lemma length_sign_inputs [simp]: "length (tx_inputs (sign_inputs L key n tx)) = length (tx_inputs tx)"
  using signed_view_simps(4) [OF signed_view_sign_inputs [of L key n tx]] by (metis length_map)

text \<open>The script every input gets, in terms of the finished transaction.\<close>

definition key_spend_script :: "libbitcoin \<Rightarrow> ec_private \<Rightarrow> transaction \<Rightarrow> nat \<Rightarrow> script" where
  "key_spend_script L key tx i =
     (let pub = lb_public_key_data L key
      in [Push (lb_endorsement L (ec_secret key)
                 (lb_to_pay_key_hash_pattern L (lb_bitcoin_short_hash L pub)) tx (of_nat i)),
          Push pub])"

lemma key_spend_script_cong:
  "endorsement_documented L \<Longrightarrow> signed_view tx = signed_view tx' \<Longrightarrow>
   key_spend_script L key tx i = key_spend_script L key tx' i"
  unfolding endorsement_documented_def key_spend_script_def Let_def by metis

lemma sign_input_script:
  "j < length (tx_inputs tx) \<Longrightarrow>
   in_script (tx_inputs (sign_input L key tx i) ! j) =
     (if j = i then key_spend_script L key tx i else in_script (tx_inputs tx ! j))"
  by (simp add: sign_input_def key_spend_script_def Let_def nth_list_update)

lemma sign_inputs_script:
  assumes "endorsement_documented L" "i < n" "n \<le> length (tx_inputs tx)"
  shows "in_script (tx_inputs (sign_inputs L key n tx) ! i) =
    key_spend_script L key (sign_inputs L key n tx) i"
  using assms(2,3)
proof (induction n)
  case 0
  then show ?case by simp
next
  case (Suc n)
  let ?t = "sign_inputs L key n tx"
  have step: "sign_inputs L key (Suc n) tx = sign_input L key ?t n" by (simp add: sign_inputs_def)
  have len: "length (tx_inputs ?t) = length (tx_inputs tx)" by simp
  have view: "key_spend_script L key (sign_input L key ?t n) j = key_spend_script L key ?t j" for j
    by (rule key_spend_script_cong [OF assms(1)]) simp
  show ?case
  proof (cases "i = n")
    case True
    with Suc.prems len show ?thesis by (simp add: step view sign_input_script)
  next
    case False
    with Suc.prems have "i < n" "n \<le> length (tx_inputs tx)" by auto
    with Suc.IH False Suc.prems len show ?thesis by (simp add: step view sign_input_script)
  qed
qed

section \<open>Value\<close>

abbreviation outputs_total :: "transaction \<Rightarrow> nat" where
  "outputs_total tx \<equiv> sum_list (map (\<lambda>out. unat (out_value out)) (tx_outputs tx))"

text \<open>
  What a payment moves: amount, change and fee make up the available funds, unless
  \<^verbatim>\<open>amount + fee\<close> has wrapped around, in which case they exceed them by $2^{64}$.
\<close>

lemma payment_balance:
  fixes amount fee available :: u64
  assumes "amount + fee \<le> available"
  shows "unat amount + unat (available - (amount + fee)) + unat fee =
    unat available + (if unat amount + unat fee < 2 ^ 64 then 0 else 2 ^ 64)"
proof -
  have sub: "unat (available - (amount + fee)) = unat available - unat (amount + fee)"
    "unat (amount + fee) \<le> unat available"
    using assms by (simp_all add: unat_minus_le word_le_nat_alt)
  have "unat (amount + fee) = (unat amount + unat fee) mod 2 ^ 64"
    by (simp add: unat_word_ariths)
  moreover have "unat amount + unat fee < 2 * 2 ^ 64"
    using unat_u64_less [of amount] unat_u64_less [of fee] by linarith
  ultimately have "unat (amount + fee) =
      (if unat amount + unat fee < 2 ^ 64 then unat amount + unat fee
       else unat amount + unat fee - 2 ^ 64)"
    by (simp add: mod_if [of "unat amount + unat fee"])
  with sub show ?thesis by (simp split: if_splits)
qed

context coin_selection
begin

lemma selection_balance:
  assumes "select (amount + fee) xs = (us, g)" "us \<noteq> []"
  shows "unat amount + unat (g - (amount + fee)) + unat fee =
    unat g + (if unat amount + unat fee < 2 ^ 64 then 0 else 2 ^ 64)"
  using select_sound [OF assms] by (blast intro: payment_balance)

end

end
