(* ===== verification/RedeemScript.thy ===== *)
theory RedeemScript
  imports Libbitcoin
begin

text \<open>
  \<^verbatim>\<open>src/libbscript/redeem_script.cpp\<close>: the time-lock script, and the consensus rules (BIP 16,
  BIP 65, script numbers) as the specification it has to meet.
\<close>

section \<open>The redeem script\<close>

definition to_pay_key_hash_pattern_with_lock :: "libbitcoin \<Rightarrow> data_chunk \<Rightarrow> u32 \<Rightarrow> operation list" where
  "to_pay_key_hash_pattern_with_lock L public_key lock_until =
     (let lock_until_array = lb_write_4_bytes_little_endian L lock_until
      in [Push lock_until_array,
          Op checklocktimeverify,
          Op op_drop,
          Push public_key,
          Op checksig])"

section \<open>The consensus rules\<close>

text \<open>
  Numbers on the script stack: little-endian magnitude, with the sign in the top bit of the
  last byte.
\<close>

fun le_nat :: "u8 list \<Rightarrow> nat" where
  "le_nat [] = 0"
| "le_nat (b # bs) = unat b + 256 * le_nat bs"

definition script_num :: "u8 list \<Rightarrow> int" where
  "script_num bs =
     (let m = le_nat bs; top = 2 ^ (8 * length bs - 1)
      in if bs = [] then 0 else if m < top then int m else - int (m - top))"

text \<open>Documented behaviour of \<^verbatim>\<open>serializer::write_4_bytes_little_endian\<close>.\<close>

definition le_bytes :: "u32 \<Rightarrow> u8 list" where
  "le_bytes n = [ucast n, ucast (drop_bit 8 n), ucast (drop_bit 16 n), ucast (drop_bit 24 n)]"

definition le32_documented :: "libbitcoin \<Rightarrow> bool" where
  "le32_documented L \<longleftrightarrow> (\<forall>n. lb_write_4_bytes_little_endian L n = le_bytes n)"

text \<open>
  The script machine, for the operations of the redeem script: a context gives the lock time
  and input sequence of the spending transaction and the outcome of signature checks.
\<close>

record spend_context =
  ctx_locktime :: u32
  ctx_sequence :: u32
  ctx_signature_ok :: "data_chunk \<Rightarrow> data_chunk \<Rightarrow> bool"

definition cltv_satisfied :: "spend_context \<Rightarrow> int \<Rightarrow> bool" where
  "cltv_satisfied c n \<longleftrightarrow>
     0 \<le> n \<and> (n < 500000000 \<longleftrightarrow> uint (ctx_locktime c) < 500000000) \<and>
     n \<le> uint (ctx_locktime c) \<and> ctx_sequence c \<noteq> 0xffffffff"

fun eval_operation :: "spend_context \<Rightarrow> operation \<Rightarrow> data_chunk list \<Rightarrow> data_chunk list option" where
  "eval_operation c (Push d) st = Some (d # st)"
| "eval_operation c (Op checklocktimeverify) (d # st) =
     (if length d \<le> 5 \<and> cltv_satisfied c (script_num d) then Some (d # st) else None)"
| "eval_operation c (Op op_drop) (d # st) = Some st"
| "eval_operation c (Op checksig) (pk # sig # st) =
     Some ((if ctx_signature_ok c pk sig then [1] else []) # st)"
| "eval_operation c _ st = None"

fun eval_script :: "spend_context \<Rightarrow> script \<Rightarrow> data_chunk list \<Rightarrow> data_chunk list option" where
  "eval_script c [] st = Some st"
| "eval_script c (x # xs) st =
     (case eval_operation c x st of None \<Rightarrow> None | Some st' \<Rightarrow> eval_script c xs st')"

definition accepts :: "spend_context \<Rightarrow> script \<Rightarrow> data_chunk list \<Rightarrow> bool" where
  "accepts c s st \<longleftrightarrow> (case eval_script c s st of
     Some (d # _) \<Rightarrow> list_ex (\<lambda>b. b \<noteq> 0) d | _ \<Rightarrow> False)"

section \<open>The encoding of the lock time\<close>

lemma unat_byte: "unat (ucast (drop_bit k (n :: u32)) :: u8) = (unat n div 2 ^ k) mod 256"
proof -
  have "unat (ucast (drop_bit k n) :: u8) = take_bit 8 (unat (drop_bit k n))"
    by (simp add: unsigned_ucast_eq)
  moreover have "unat n < 2 ^ LENGTH(32)" by (rule unsigned_less)
  then have "take_bit 32 (unat n) = unat n" by (simp add: take_bit_nat_eq_self)
  then have "unat (drop_bit k n) = drop_bit k (unat n)"
    by (simp add: unsigned_drop_bit_eq)
  ultimately show ?thesis by (simp add: take_bit_eq_mod [where 'a = nat] drop_bit_eq_div [where 'a = nat])
qed

lemma le_nat_le_bytes: "le_nat (le_bytes n) = unat n"
proof -
  let ?x = "unat n"
  have "unat n < 2 ^ LENGTH(32)" by (rule unsigned_less)
  then have "?x div 256 div 256 div 256 < 256" by (simp add: less_mult_imp_div_less)
  then have top: "?x div 256 div 256 div 256 mod 256 = ?x div 256 div 256 div 256" by simp
  have split: "y mod 256 + 256 * (y div 256) = y" for y :: nat by simp
  have "le_nat (le_bytes n) = ?x mod 256 + 256 * (?x div 256 mod 256 +
      256 * (?x div 256 div 256 mod 256 + 256 * (?x div 256 div 256 div 256 mod 256)))"
    using unat_byte [of 0 n] unat_byte [of 8 n] unat_byte [of 16 n] unat_byte [of 24 n]
    by (simp add: le_bytes_def div_mult2_eq [symmetric])
  then show ?thesis by (simp only: top split)
qed

lemma script_num_le_bytes:
  "script_num (le_bytes n) = (if n < 2 ^ 31 then uint n else 2 ^ 31 - uint n)"
  using le_nat_le_bytes [of n]
  by (auto simp: script_num_def le_bytes_def Let_def word_less_nat_alt of_nat_diff)

lemma accepts_redeem_script:
  assumes "le32_documented L"
  shows "accepts c (to_pay_key_hash_pattern_with_lock L pk lock_until) (sig # st) \<longleftrightarrow>
    cltv_satisfied c (script_num (le_bytes lock_until)) \<and> ctx_signature_ok c pk sig"
  using assms
  by (auto simp: accepts_def to_pay_key_hash_pattern_with_lock_def Let_def le32_documented_def
      le_bytes_def)

section \<open>Properties\<close>

text \<open>
  C12. For a lock time below $2^{31}$ the redeem script does what its comment promises: a
  spending transaction is accepted exactly when it is signed by the key of the script, its
  lock time is of the same kind (block height or seconds) and not below \<^verbatim>\<open>lock_until\<close>, and the
  input is not final.
\<close>

theorem redeem_script_locks_until:
  assumes "le32_documented L" "lock_until < 2 ^ 31"
  shows "accepts c (to_pay_key_hash_pattern_with_lock L public_key lock_until) (sig # st) \<longleftrightarrow>
    ctx_signature_ok c public_key sig \<and> lock_until \<le> ctx_locktime c \<and>
    (lock_until < 500000000 \<longleftrightarrow> ctx_locktime c < 500000000) \<and> ctx_sequence c \<noteq> 0xffffffff"
  using assms
  by (auto simp: accepts_redeem_script script_num_le_bytes cltv_satisfied_def word_le_def
      word_less_def)

theorem redeem_script_locks_until_witness:
  "accepts \<lparr>ctx_locktime = 1600000000, ctx_sequence = 0, ctx_signature_ok = (\<lambda>pk sig. pk = sig)\<rparr>
     (to_pay_key_hash_pattern_with_lock sample_libbitcoin [2] 1500000000) [[2]]"
proof -
  have "le32_documented sample_libbitcoin"
    by (simp add: le32_documented_def sample_lb le_bytes_def)
  then show ?thesis by (subst redeem_script_locks_until) simp_all
qed

text \<open>
  C40. Above $2^{31}$ (19 January 2038 when read as seconds) the four bytes are a negative
  script number: the script rejects every spending transaction, whatever its lock time and
  whoever signs it, so the locked funds can never be moved again.
\<close>

theorem redeem_script_unspendable_from_2038:
  assumes "le32_documented L" "2 ^ 31 < lock_until"
  shows "\<not> accepts c (to_pay_key_hash_pattern_with_lock L public_key lock_until) st"
proof -
  have "\<not> lock_until < 2 ^ 31" "script_num (le_bytes lock_until) < 0"
    using assms(2) by (auto simp: script_num_le_bytes word_less_def)
  then have "\<not> cltv_satisfied c (script_num (le_bytes lock_until))"
    by (simp add: cltv_satisfied_def)
  moreover have "eval_operation c (Op checklocktimeverify) (le_bytes lock_until # st) = None"
    using calculation by simp
  ultimately show ?thesis
    using assms(1) by (simp add: accepts_def to_pay_key_hash_pattern_with_lock_def Let_def le32_documented_def)
qed

theorem redeem_script_unspendable_from_2038_witness:
  "\<not> accepts \<lparr>ctx_locktime = 4000000000, ctx_sequence = 0, ctx_signature_ok = (\<lambda>_ _. True)\<rparr>
     (to_pay_key_hash_pattern_with_lock sample_libbitcoin [2] 3000000000) [[2]]"
  by (rule redeem_script_unspendable_from_2038)
     (simp_all add: le32_documented_def sample_lb le_bytes_def)

end
