(* ===== verification/OnlineLockTxCreator.thy ===== *)
theory OnlineLockTxCreator
  imports TxBuild RedeemScript
begin

text \<open>
  \<^verbatim>\<open>src/locktx/online_lock_tx_creator.cpp\<close>: a transaction that pays an amount to the hash of
  the time-lock script and the change back to the source address. The four public overloads
  obtain the coins from a libbitcoin server or an Electrum server, with the key as WIF text or
  as an object; all end in \<^verbatim>\<open>do_construct_p2sh_time_locking_tx_from_address\<close>.
\<close>

record LockTxInfo =
  locking_tx :: string
  unlocking_info :: string

section \<open>Construction\<close>

definition newline :: string where
  "newline = [CHR 0x0A]"

text \<open>
  The information text. \<^verbatim>\<open>local_time\<close> stands for \<^verbatim>\<open>std::put_time(std::localtime(&t), "%c %Z")\<close>,
  which depends on the locale and time zone of the process.
\<close>

definition unlocking_text :: "(u32 \<Rightarrow> string) \<Rightarrow> u32 \<Rightarrow> string \<Rightarrow> u64 \<Rightarrow> string \<Rightarrow> string" where
  "unlocking_text local_time lock_until src_addr amount_to_transfer tx_to_unlock =
     ''=========================='' @ newline @
     ''===== data that will be needed to unlock the funds: ===='' @ newline @
     ''1) lock time: '' @ dec_nat (unat lock_until) @ '' <=> '' @ local_time lock_until @ newline @
     ''2) private key of address: '' @ src_addr @ newline @
     ''3) available amount: '' @ dec_nat (unat amount_to_transfer) @ '' satoshi'' @ newline @
     ''   from ^^ please subtract fee'' @ newline @
     ''4) funding transaction id: '' @ tx_to_unlock @ newline @
     ''5) desired target address to which the unlocked funds will be transferred'' @ newline @
     ''YOU NEED TO PRESERVE THIS DATA TO AVOID LOSS OF FUNDS!'' @ newline @
     ''=========================='' @ newline @
     ''=========================='' @ newline"

text \<open>Output 0 pays to the script hash of the redeem script.\<close>

definition lock_output :: "libbitcoin \<Rightarrow> ec_private \<Rightarrow> u64 \<Rightarrow> u32 \<Rightarrow> txout" where
  "lock_output L priv_key_ec amount_to_transfer lock_until =
     (let cltv_script = to_pay_key_hash_pattern_with_lock L (lb_public_key_data L priv_key_ec) lock_until;
          script_hash = lb_bitcoin_short_hash L (lb_script_to_data L cltv_script)
      in \<lparr>out_value = amount_to_transfer, out_script = lb_to_pay_script_hash_pattern L script_hash\<rparr>)"

text \<open>The transaction, from its default value to the last signature.\<close>

definition lock_transaction ::
    "libbitcoin \<Rightarrow> output_point list \<Rightarrow> payment_address \<Rightarrow> ec_private \<Rightarrow> u64 \<Rightarrow> u64 \<Rightarrow> u32 \<Rightarrow> transaction" where
  "lock_transaction L utxos source_payment_address priv_key_ec amount_to_transfer refund lock_until =
     (let tx = push_inputs L utxos (lb_new_transaction L);
          tx = push_output (lock_output L priv_key_ec amount_to_transfer lock_until) tx;
          tx = (if refund > 0
                then push_output \<lparr>out_value = refund,
                       out_script = lb_to_pay_key_hash_pattern L (pa_hash source_payment_address)\<rparr> tx
                else tx);
          tx = tx\<lparr>tx_version := 1\<rparr>
      in sign_inputs L priv_key_ec (length utxos) tx)"

definition do_construct_p2sh_time_locking_tx_from_address ::
    "libbitcoin \<Rightarrow> (u32 \<Rightarrow> string) \<Rightarrow> output_point list \<Rightarrow> u64 \<Rightarrow> string \<Rightarrow> ec_private \<Rightarrow>
     u64 \<Rightarrow> u64 \<Rightarrow> u32 \<Rightarrow> LockTxInfo result" where
  "do_construct_p2sh_time_locking_tx_from_address L local_time utxos available_funds src_addr
       priv_key_ec amount_to_transfer satoshis_fee lock_until =
     (let pub_key_data_chunk = lb_public_key_data L priv_key_ec;
          satoshis_needed = amount_to_transfer + satoshis_fee
      in if utxos = [] then
           Inl (InsufficientFundsException
                  (''Insufficient funds, required '' @ dec_nat (unat satoshis_needed) @
                   '', maximum at one address available '' @ dec_nat (unat available_funds) @ newline)
                  satoshis_needed available_funds)
         else
           (let refund = available_funds - satoshis_needed;
                cltv_script = to_pay_key_hash_pattern_with_lock L pub_key_data_chunk lock_until
            in if \<not> lb_script_is_valid L cltv_script then Inl (InvalidArgument ''CLTV Script Invalid!'')
               else
                 (let source_payment_address = lb_payment_address L src_addr
                  in if \<not> pa_valid source_payment_address then Inl InvalidSourceAddressException
                     else
                       (let tx = lock_transaction L utxos source_payment_address priv_key_ec
                                   amount_to_transfer refund lock_until;
                            tx_to_unlock = lb_encode_hash L (lb_tx_hash L tx)
                        in Inr \<lparr>locking_tx = lb_encode_base16 L (lb_tx_to_data L tx),
                                unlocking_info = unlocking_text local_time lock_until src_addr
                                  amount_to_transfer tx_to_unlock\<rparr>))))"

section \<open>The public overloads\<close>

definition construct_p2sh_time_locking_tx_from_address_libb ::
    "libbitcoin \<Rightarrow> (u32 \<Rightarrow> string) \<Rightarrow> ('w, 'h, 'hd) obelisk \<Rightarrow> string \<Rightarrow> ec_private \<Rightarrow> u64 \<Rightarrow> u64 \<Rightarrow> u32 \<Rightarrow>
     (LibbClient \<times> 'w, LockTxInfo) exec" where
  "construct_p2sh_time_locking_tx_from_address_libb L local_time ob src_addr priv_key_ec
       amount_to_transfer satoshis_fee lock_until =
     (let source_payment_address = lb_payment_address L src_addr
      in if \<not> pa_valid source_payment_address then throw InvalidSourceAddressException
         else
           bindE (fetch_utxo ob source_payment_address 1 individual []) (\<lambda>points_value.
             let satoshis_needed = amount_to_transfer + satoshis_fee in
             case find_funds L satoshis_needed points_value of (utxos, available_funds) \<Rightarrow>
               liftR (do_construct_p2sh_time_locking_tx_from_address L local_time utxos available_funds
                        src_addr priv_key_ec amount_to_transfer satoshis_fee lock_until)))"

definition construct_p2sh_time_locking_tx_from_address_libb_wif ::
    "libbitcoin \<Rightarrow> (u32 \<Rightarrow> string) \<Rightarrow> ('w, 'h, 'hd) obelisk \<Rightarrow> string \<Rightarrow> string \<Rightarrow> u64 \<Rightarrow> u64 \<Rightarrow> u32 \<Rightarrow>
     (LibbClient \<times> 'w, LockTxInfo) exec" where
  "construct_p2sh_time_locking_tx_from_address_libb_wif L local_time ob src_addr priv_key_wif
       amount_to_transfer satoshis_fee lock_until =
     construct_p2sh_time_locking_tx_from_address_libb L local_time ob src_addr
       (lb_ec_private_wif L priv_key_wif) amount_to_transfer satoshis_fee lock_until"

definition construct_p2sh_time_locking_tx_from_address_electrum ::
    "libbitcoin \<Rightarrow> (u32 \<Rightarrow> string) \<Rightarrow> hash_digest \<Rightarrow> ('j, 'w) ElectrumInterface \<Rightarrow> string \<Rightarrow> ec_private \<Rightarrow>
     u64 \<Rightarrow> u64 \<Rightarrow> u32 \<Rightarrow> ('w, LockTxInfo) exec" where
  "construct_p2sh_time_locking_tx_from_address_electrum L local_time junk electrum_interface src_addr
       priv_key_ec amount_to_transfer satoshis_fee lock_until =
     bindE (liftR (base58_to_spkh_hex L src_addr)) (\<lambda>spkh.
     bindE (ei_getUtxos electrum_interface spkh) (\<lambda>input_utxos.
       let satoshis_needed = amount_to_transfer + satoshis_fee in
       case find_funds_utxos L junk satoshis_needed input_utxos of (utxos, available_funds) \<Rightarrow>
         liftR (do_construct_p2sh_time_locking_tx_from_address L local_time utxos available_funds
                  src_addr priv_key_ec amount_to_transfer satoshis_fee lock_until)))"

definition construct_p2sh_time_locking_tx_from_address_electrum_wif ::
    "libbitcoin \<Rightarrow> (u32 \<Rightarrow> string) \<Rightarrow> hash_digest \<Rightarrow> ('j, 'w) ElectrumInterface \<Rightarrow> string \<Rightarrow> string \<Rightarrow>
     u64 \<Rightarrow> u64 \<Rightarrow> u32 \<Rightarrow> ('w, LockTxInfo) exec" where
  "construct_p2sh_time_locking_tx_from_address_electrum_wif L local_time junk electrum_interface src_addr
       priv_key_wif amount_to_transfer satoshis_fee lock_until =
     construct_p2sh_time_locking_tx_from_address_electrum L local_time junk electrum_interface src_addr
       (lb_ec_private_wif L priv_key_wif) amount_to_transfer satoshis_fee lock_until"

section \<open>The transaction\<close>

lemma lock_transaction_signed_view:
  assumes "new_transaction_documented L"
  shows "signed_view (lock_transaction L utxos src key amount refund lock_until) =
    (1, tx_locktime (lb_new_transaction L), map (\<lambda>u. (u, 0xfffffffe)) utxos,
     lock_output L key amount lock_until #
       (if 0 < refund then [\<lparr>out_value = refund, out_script = lb_to_pay_key_hash_pattern L (pa_hash src)\<rparr>]
        else []))"
proof -
  have "signed_view (lock_transaction L utxos src key amount refund lock_until) =
    signed_view ((if refund > 0
        then push_output \<lparr>out_value = refund, out_script = lb_to_pay_key_hash_pattern L (pa_hash src)\<rparr>
          (push_output (lock_output L key amount lock_until) (push_inputs L utxos (lb_new_transaction L)))
        else push_output (lock_output L key amount lock_until)
          (push_inputs L utxos (lb_new_transaction L)))\<lparr>tx_version := 1\<rparr>)"
    by (simp add: lock_transaction_def Let_def)
  then show ?thesis
    using assms by (simp add: signed_view_def new_transaction_documented_def spend_input_def comp_def)
qed

lemma lock_transaction_simps:
  assumes "new_transaction_documented L"
  shows "tx_outputs (lock_transaction L utxos src key amount refund lock_until) =
      lock_output L key amount lock_until #
       (if 0 < refund then [\<lparr>out_value = refund, out_script = lb_to_pay_key_hash_pattern L (pa_hash src)\<rparr>]
        else [])"
    and "map previous_output (tx_inputs (lock_transaction L utxos src key amount refund lock_until)) = utxos"
    and "map in_sequence (tx_inputs (lock_transaction L utxos src key amount refund lock_until)) =
      map (\<lambda>_. 0xfffffffe) utxos"
    and "tx_version (lock_transaction L utxos src key amount refund lock_until) = 1"
  using lock_transaction_signed_view [OF assms, of utxos src key amount refund lock_until]
  by (auto simp: signed_view_def comp_def dest: arg_cong [where f = "map fst"] arg_cong [where f = "map snd"])

lemma lock_transaction_scripts:
  assumes "new_transaction_documented L" "endorsement_documented L" "i < length utxos"
  shows "in_script (tx_inputs (lock_transaction L utxos src key amount refund lock_until) ! i) =
    key_spend_script L key (lock_transaction L utxos src key amount refund lock_until) i"
  unfolding lock_transaction_def Let_def
  by (rule sign_inputs_script) (use assms in \<open>auto simp: new_transaction_documented_def\<close>)

lemma out_value_lock_output [simp]: "out_value (lock_output L key amount lock_until) = amount"
  by (simp add: lock_output_def Let_def)

lemma lock_transaction_total:
  assumes "new_transaction_documented L"
  shows "outputs_total (lock_transaction L utxos src key amount refund lock_until) = unat amount + unat refund"
  using assms by (simp add: lock_transaction_simps word_gt_0)

lemma do_construct_lock_Inr:
  "do_construct_p2sh_time_locking_tx_from_address L local_time utxos available src_addr key amount fee lock_until
     = Inr info \<longleftrightarrow>
   utxos \<noteq> [] \<and>
   lb_script_is_valid L (to_pay_key_hash_pattern_with_lock L (lb_public_key_data L key) lock_until) \<and>
   pa_valid (lb_payment_address L src_addr) \<and>
   (let tx = lock_transaction L utxos (lb_payment_address L src_addr) key amount
               (available - (amount + fee)) lock_until
    in info = \<lparr>locking_tx = lb_encode_base16 L (lb_tx_to_data L tx),
               unlocking_info = unlocking_text local_time lock_until src_addr amount
                 (lb_encode_hash L (lb_tx_hash L tx))\<rparr>)"
  by (auto simp: do_construct_p2sh_time_locking_tx_from_address_def Let_def)

section \<open>Properties\<close>

text \<open>
  C3. When a locking transaction is constructed from coins of a libbitcoin server, it spends
  points the server returned, output 0 pays the amount to the hash of the time-lock script of
  the key, and the outputs together with the fee are exactly the value of the spent points
  (as computed in 64 bits) -- unless \<^verbatim>\<open>amount + fee\<close> wraps around, which no check excludes:
  then the outputs exceed the spent value by $2^{64}$ minus the fee.
\<close>

theorem lock_tx_libb_balanced:
  assumes "new_transaction_documented L"
    and "construct_p2sh_time_locking_tx_from_address_libb L local_time ob src_addr key amount fee lock_until s
         = (Inr info, s')"
  shows "\<exists>points selected tx.
    fst (fetch_utxo ob (lb_payment_address L src_addr) 1 individual [] s) = Inr points \<and>
    subseq selected points \<and> selected \<noteq> [] \<and>
    locking_tx info = lb_encode_base16 L (lb_tx_to_data L tx) \<and>
    map previous_output (tx_inputs tx) = map point_of_value selected \<and>
    hd (tx_outputs tx) = lock_output L key amount lock_until \<and>
    outputs_total tx + unat fee = unat (sum_list (map pv_value selected)) +
      (if unat amount + unat fee < 2 ^ 64 then 0 else 2 ^ 64)"
proof -
  from assms(2) obtain points s1 where
    fetch: "fetch_utxo ob (lb_payment_address L src_addr) 1 individual [] s = (Inr points, s1)" and
    run: "do_construct_p2sh_time_locking_tx_from_address L local_time
      (fst (find_funds L (amount + fee) points)) (snd (find_funds L (amount + fee) points))
      src_addr key amount fee lock_until = Inr info"
    by (auto simp: construct_p2sh_time_locking_tx_from_address_libb_def Let_def exec_simps
        case_prod_beta split: if_splits)
  obtain utxos g where ff: "find_funds L (amount + fee) points = (utxos, g)" by fastforce
  with run have cons: "do_construct_p2sh_time_locking_tx_from_address L local_time utxos g src_addr
      key amount fee lock_until = Inr info" by simp
  let ?tx = "lock_transaction L utxos (lb_payment_address L src_addr) key amount (g - (amount + fee)) lock_until"
  from cons have ne: "utxos \<noteq> []" and info: "locking_tx info = lb_encode_base16 L (lb_tx_to_data L ?tx)"
    by (auto simp: do_construct_lock_Inr Let_def)
  from libb_funds.select_sound [OF ff ne] obtain sel where
    sel: "subseq sel points" "utxos = map point_of_value sel" "g = sum_list (map pv_value sel)"
    by blast
  have "outputs_total ?tx + unat fee = unat g + (if unat amount + unat fee < 2 ^ 64 then 0 else 2 ^ 64)"
    using libb_funds.selection_balance [OF ff ne] by (simp add: lock_transaction_total [OF assms(1)])
  with fetch sel ne info show ?thesis
    by (intro exI [where x = points] exI [where x = sel] exI [where x = ?tx])
       (auto simp: lock_transaction_simps [OF assms(1)])
qed

abbreviation sample_client :: LibbClient where
  "sample_client \<equiv> \<lparr>lc_client = True, lc_connection_server = [], lc_url = []\<rparr>"

lemmas sample_run_simps =
  construct_p2sh_time_locking_tx_from_address_libb_def fetch_utxo_def request_def find_funds_def
  do_construct_p2sh_time_locking_tx_from_address_def to_pay_key_hash_pattern_with_lock_def
  sample_obelisk_def bindE_def sample_lb

theorem lock_tx_libb_balanced_witness:
  "\<exists>info. fst (construct_p2sh_time_locking_tx_from_address_libb sample_libbitcoin (\<lambda>_. []) sample_obelisk
      ''S'' \<lparr>ec_secret = [5], ec_version = 128\<rparr> 700 50 1500000000 (sample_client, ())) = Inr info \<and>
    (\<exists>points selected tx. fst (fetch_utxo sample_obelisk (lb_payment_address sample_libbitcoin ''S'') 1
        individual [] (sample_client, ())) = Inr points \<and>
     subseq selected points \<and> selected \<noteq> [] \<and>
     locking_tx info = lb_encode_base16 sample_libbitcoin (lb_tx_to_data sample_libbitcoin tx) \<and>
     map previous_output (tx_inputs tx) = map point_of_value selected \<and>
     hd (tx_outputs tx) = lock_output sample_libbitcoin \<lparr>ec_secret = [5], ec_version = 128\<rparr> 700 1500000000 \<and>
     outputs_total tx + unat (50 :: u64) = unat (sum_list (map pv_value selected)) +
       (if unat (700 :: u64) + unat (50 :: u64) < 2 ^ 64 then 0 else 2 ^ 64))"
proof -
  let ?run = "construct_p2sh_time_locking_tx_from_address_libb sample_libbitcoin (\<lambda>_. []) sample_obelisk
      ''S'' \<lparr>ec_secret = [5], ec_version = 128\<rparr> 700 50 1500000000 (sample_client, ())"
  obtain info where run: "?run = (Inr info, (sample_client, ()))"
    by (simp add: sample_run_simps Let_def)
  from lock_tx_libb_balanced [OF sample_new_transaction_documented this] run show ?thesis
    by (intro exI [where x = info] conjI) (simp, assumption)
qed

text \<open>
  C31. Every input of a locking transaction is signed for the finished transaction: although
  the loop signs input \<^verbatim>\<open>i\<close> while the scripts of the later inputs are still empty, its script
  is the signature of the final transaction under the pay-to-key-hash script of the key,
  followed by the public key; the change goes back to the source address and the sequence
  numbers keep the transaction replaceable by lock time.
\<close>

theorem lock_tx_signed:
  assumes "new_transaction_documented L" "endorsement_documented L"
    and "do_construct_p2sh_time_locking_tx_from_address L local_time utxos available src_addr key amount fee
           lock_until = Inr info"
  shows "\<exists>tx. locking_tx info = lb_encode_base16 L (lb_tx_to_data L tx) \<and>
    tx_version tx = 1 \<and> length (tx_inputs tx) = length utxos \<and>
    (\<forall>i < length utxos.
       previous_output (tx_inputs tx ! i) = utxos ! i \<and>
       in_sequence (tx_inputs tx ! i) = 0xfffffffe \<and>
       in_script (tx_inputs tx ! i) = key_spend_script L key tx i) \<and>
    tl (tx_outputs tx) =
      (if available = amount + fee then []
       else [\<lparr>out_value = available - (amount + fee),
              out_script = lb_to_pay_key_hash_pattern L (pa_hash (lb_payment_address L src_addr))\<rparr>])"
proof -
  let ?tx = "lock_transaction L utxos (lb_payment_address L src_addr) key amount
    (available - (amount + fee)) lock_until"
  note tx = lock_transaction_simps [OF assms(1), of utxos "lb_payment_address L src_addr" key amount
      "available - (amount + fee)" lock_until]
  have len: "length (tx_inputs ?tx) = length utxos" using tx(2) by (metis length_map)
  have "previous_output (tx_inputs ?tx ! i) = utxos ! i \<and> in_sequence (tx_inputs ?tx ! i) = 0xfffffffe"
    if "i < length utxos" for i
    using that len tx(2,3) by (metis nth_map)
  moreover have "0 < available - (amount + fee) \<longleftrightarrow> available \<noteq> amount + fee"
    by (simp add: word_gt_0)
  ultimately show ?thesis
    using assms len tx by (intro exI [where x = ?tx])
      (auto simp: do_construct_lock_Inr Let_def lock_transaction_scripts)
qed

theorem lock_tx_signed_witness:
  "\<exists>tx. lb_encode_base16 sample_libbitcoin (lb_tx_to_data sample_libbitcoin tx) = sample_hex [1] \<and>
    tx_version tx = 1 \<and> length (tx_inputs tx) = 1"
proof -
  let ?u = "\<lparr>op_hash = [7], op_index = 1\<rparr>"
  obtain info where "do_construct_p2sh_time_locking_tx_from_address sample_libbitcoin (\<lambda>_. []) [?u] 900
      ''S'' \<lparr>ec_secret = [5], ec_version = 128\<rparr> 700 50 1500000000 = Inr info"
    by (simp add: do_construct_p2sh_time_locking_tx_from_address_def Let_def sample_lb
        to_pay_key_hash_pattern_with_lock_def)
  from lock_tx_signed [OF sample_new_transaction_documented sample_endorsement_documented this]
  obtain tx :: transaction where "tx_version tx = 1" "length (tx_inputs tx) = length [?u]" by blast
  then show ?thesis by (intro exI [where x = tx]) (simp add: sample_lb)
qed

text \<open>
  When a valid source address does not hold the amount and the fee, no transaction is
  constructed: the call ends with the exception that carries the amount needed and the exact
  amount available, and with the message that quotes both.
\<close>

theorem lock_tx_insufficient:
  assumes "points_total_documented L" "pa_valid (lb_payment_address L src_addr)"
    and "fetch_utxo ob (lb_payment_address L src_addr) 1 individual [] s = (Inr points, s')"
    and "unat amount + unat fee < 2 ^ 64" "points_total points < unat amount + unat fee"
  shows "construct_p2sh_time_locking_tx_from_address_libb L local_time ob src_addr key amount fee lock_until s
    = (Inl (InsufficientFundsException
         (''Insufficient funds, required '' @ dec_nat (unat amount + unat fee) @
          '', maximum at one address available '' @ dec_nat (points_total points) @ [CHR 0x0A])
         (amount + fee) (of_nat (points_total points))), s')"
proof -
  have needed: "unat (amount + fee) = unat amount + unat fee"
    using assms(4) by (simp add: unat_plus_bound)
  obtain us g where ff: "find_funds L (amount + fee) points = (us, g)" by fastforce
  with find_funds_short [OF assms(1), of points "amount + fee"] assms(5) needed
  have short: "us = []" "unat g = points_total points" by simp_all
  then have "g = of_nat (points_total points)" by (metis word_of_nat_unat_u64)
  with short ff assms(2,3) needed show ?thesis
    by (simp add: construct_p2sh_time_locking_tx_from_address_libb_def Let_def
        do_construct_p2sh_time_locking_tx_from_address_def newline_def)
qed

theorem lock_tx_insufficient_witness:
  "fst (construct_p2sh_time_locking_tx_from_address_libb sample_libbitcoin (\<lambda>_. []) sample_obelisk
      ''S'' \<lparr>ec_secret = [5], ec_version = 128\<rparr> 2000 50 1500000000 (sample_client, ())) =
    Inl (InsufficientFundsException
         (''Insufficient funds, required '' @ dec_nat 2050 @
          '', maximum at one address available '' @ dec_nat 900 @ [CHR 0x0A]) 2050 900)"
  by (subst lock_tx_insufficient [where points = "[\<lparr>pv_hash = [7], pv_index = 1, pv_value = 900\<rparr>]" and s' = "(sample_client, ())"])
     (simp_all add: sample_points_total_documented sample_run_simps)

end
