(* ===== verification/OfflineUnlockTxCreator.thy ===== *)
theory OfflineUnlockTxCreator
  imports RedeemScript
begin

text \<open>
  \<^verbatim>\<open>src/unlocktx/offline_unlock_tx_creator.cpp\<close>: a transaction that spends output 0 of a
  locking transaction, revealing the redeem script, and pays to a key-hash address.
\<close>

section \<open>Construction\<close>

text \<open>The unsigned transaction: one input with sequence 0, the lock time of the script.\<close>

definition unlock_transaction_unsigned ::
    "libbitcoin \<Rightarrow> hash_digest \<Rightarrow> payment_address \<Rightarrow> u64 \<Rightarrow> u32 \<Rightarrow> transaction" where
  "unlock_transaction_unsigned L utxoHash target_payment_address satoshis_to_transfer src_lock_until =
     (let utxo = \<lparr>op_hash = utxoHash, op_index = 0\<rparr>;
          input1 = (lb_new_input L)\<lparr>previous_output := utxo, in_sequence := 0\<rparr>;
          output1 = \<lparr>out_value = satoshis_to_transfer,
            out_script = lb_to_pay_key_hash_pattern L (pa_hash target_payment_address)\<rparr>;
          tx = lb_new_transaction L
      in tx\<lparr>tx_inputs := tx_inputs tx @ [input1], tx_outputs := tx_outputs tx @ [output1],
            tx_locktime := src_lock_until, tx_version := 1\<rparr>)"

text \<open>\<^verbatim>\<open>tx.inputs()[0].set_script(...)\<close> with the signature and the serialised redeem script.\<close>

definition unlock_transaction ::
    "libbitcoin \<Rightarrow> ec_private \<Rightarrow> hash_digest \<Rightarrow> payment_address \<Rightarrow> u64 \<Rightarrow> u32 \<Rightarrow> transaction" where
  "unlock_transaction L priv_key_ec utxoHash target_payment_address satoshis_to_transfer src_lock_until =
     (let tx = unlock_transaction_unsigned L utxoHash target_payment_address satoshis_to_transfer src_lock_until;
          redeemScript = to_pay_key_hash_pattern_with_lock L (lb_public_key_data L priv_key_ec) src_lock_until;
          sig = lb_endorsement L (ec_secret priv_key_ec) redeemScript tx 0;
          sigScript = [Push sig, Push (lb_script_to_data L redeemScript)]
      in tx\<lparr>tx_inputs := (tx_inputs tx)[0 := (tx_inputs tx ! 0)\<lparr>in_script := sigScript\<rparr>]\<rparr>)"

definition construct_unlock_tx ::
    "libbitcoin \<Rightarrow> hash_digest \<Rightarrow> ec_private \<Rightarrow> string \<Rightarrow> u64 \<Rightarrow> u32 \<Rightarrow> string \<Rightarrow> string result" where
  "construct_unlock_tx L junk priv_key_ec src_tx_id satoshis_to_transfer src_lock_until target_addr =
     (let utxoHash = lb_decode_hash L junk src_tx_id;
          target_payment_address = lb_payment_address L target_addr
      in if pa_version target_payment_address = lb_mainnet_p2sh L \<or>
            pa_version target_payment_address = lb_testnet_p2sh L
         then Inl InvalidTargetAddressException
         else if \<not> pa_valid target_payment_address then Inl InvalidTargetAddressException
         else if \<not> lb_script_is_valid L
              (to_pay_key_hash_pattern_with_lock L (lb_public_key_data L priv_key_ec) src_lock_until)
         then Inl (InvalidArgument ''CLTV Script Invalid!'')
         else Inr (lb_encode_base16 L (lb_tx_to_data L
                (unlock_transaction L priv_key_ec utxoHash target_payment_address satoshis_to_transfer
                   src_lock_until))))"

definition construct_unlock_tx_wif ::
    "libbitcoin \<Rightarrow> hash_digest \<Rightarrow> string \<Rightarrow> string \<Rightarrow> u64 \<Rightarrow> u32 \<Rightarrow> string \<Rightarrow> string result" where
  "construct_unlock_tx_wif L junk priv_key_wif src_tx_id satoshis_to_transfer src_lock_until target_addr =
     construct_unlock_tx L junk (lb_ec_private_wif L priv_key_wif) src_tx_id satoshis_to_transfer
       src_lock_until target_addr"

section \<open>The transaction\<close>

lemma unlock_transaction_fields:
  assumes "tx_inputs (lb_new_transaction L) = []" "tx_outputs (lb_new_transaction L) = []"
  shows "tx_inputs (unlock_transaction L key h target v lock_until) =
      [(lb_new_input L)\<lparr>previous_output := \<lparr>op_hash = h, op_index = 0\<rparr>, in_sequence := 0,
         in_script := [Push (lb_endorsement L (ec_secret key)
             (to_pay_key_hash_pattern_with_lock L (lb_public_key_data L key) lock_until)
             (unlock_transaction_unsigned L h target v lock_until) 0),
           Push (lb_script_to_data L
             (to_pay_key_hash_pattern_with_lock L (lb_public_key_data L key) lock_until))]\<rparr>]"
    and "tx_outputs (unlock_transaction L key h target v lock_until) =
      [\<lparr>out_value = v, out_script = lb_to_pay_key_hash_pattern L (pa_hash target)\<rparr>]"
    and "tx_locktime (unlock_transaction L key h target v lock_until) = lock_until"
    and "tx_version (unlock_transaction L key h target v lock_until) = 1"
  using assms by (simp_all add: unlock_transaction_def unlock_transaction_unsigned_def Let_def)

section \<open>Properties\<close>

text \<open>
  The unlocking transaction satisfies the script it reveals: for any key and any lock time
  below $2^{31}$, its own lock time and input sequence meet the time-lock, so the revealed
  redeem script accepts it exactly when its signature is good.
\<close>

theorem unlock_tx_satisfies_script:
  assumes "new_transaction_documented L" "le32_documented L" "lock_until < 2 ^ 31"
    and "tx = unlock_transaction L key hash target amount lock_until"
  shows "\<exists>sig. map in_script (tx_inputs tx) =
      [[Push sig, Push (lb_script_to_data L
          (to_pay_key_hash_pattern_with_lock L (lb_public_key_data L key) lock_until))]] \<and>
    (accepts \<lparr>ctx_locktime = tx_locktime tx, ctx_sequence = in_sequence (hd (tx_inputs tx)),
              ctx_signature_ok = ok\<rparr>
       (to_pay_key_hash_pattern_with_lock L (lb_public_key_data L key) lock_until) [sig] \<longleftrightarrow>
     ok (lb_public_key_data L key) sig)"
proof -
  have new: "tx_inputs (lb_new_transaction L) = []" "tx_outputs (lb_new_transaction L) = []"
    using assms(1) by (simp_all add: new_transaction_documented_def)
  have "cltv_satisfied \<lparr>ctx_locktime = lock_until, ctx_sequence = 0, ctx_signature_ok = ok\<rparr>
      (script_num (le_bytes lock_until))"
    using assms(3) by (simp add: cltv_satisfied_def script_num_le_bytes)
  then show ?thesis
    using assms(4) by (simp add: unlock_transaction_fields [OF new] accepts_redeem_script [OF assms(2)])
qed

theorem unlock_tx_satisfies_script_witness:
  "\<exists>sig. map in_script (tx_inputs (unlock_transaction sample_libbitcoin \<lparr>ec_secret = [5], ec_version = 128\<rparr>
        [7] \<lparr>pa_version = 0, pa_hash = [9], pa_valid = True\<rparr> 600 1500000000)) =
      [[Push sig, Push [0, 47, 104, 89, 0, 0, 5, 0]]]"
proof -
  have "le32_documented sample_libbitcoin"
    by (simp add: le32_documented_def sample_lb le_bytes_def)
  moreover have "(1500000000 :: u32) < 2 ^ 31" by simp
  moreover have "lb_script_to_data sample_libbitcoin (to_pay_key_hash_pattern_with_lock sample_libbitcoin
      (lb_public_key_data sample_libbitcoin \<lparr>ec_secret = [5], ec_version = 128\<rparr>) 1500000000) =
      [0, 47, 104, 89, 0, 0, 5, 0]"
    by (simp add: to_pay_key_hash_pattern_with_lock_def sample_lb)
  ultimately show ?thesis
    using unlock_tx_satisfies_script [OF sample_new_transaction_documented _ _ refl] by metis
qed

end
