(* ===== verification/OnlineP2pkhTxCreator.thy ===== *)
theory OnlineP2pkhTxCreator
  imports TxBuild
begin

text \<open>
  \<^verbatim>\<open>src/p2pkhtx/online_p2pkh_tx_creator.cpp\<close>: a transaction that pays an amount to a key-hash
  address and the change back to the source address.
\<close>

section \<open>Construction\<close>

definition p2pkh_transaction ::
    "libbitcoin \<Rightarrow> output_point list \<Rightarrow> payment_address \<Rightarrow> payment_address \<Rightarrow> ec_private \<Rightarrow> u64 \<Rightarrow> u64 \<Rightarrow>
     transaction" where
  "p2pkh_transaction L utxos target_payment_address source_payment_address priv_key_ec
       amount_to_transfer refund =
     (let output0 = \<lparr>out_value = amount_to_transfer,
            out_script = lb_to_pay_key_hash_pattern L (pa_hash target_payment_address)\<rparr>;
          tx = push_inputs L utxos (lb_new_transaction L);
          tx = push_output output0 tx;
          tx = (if refund > 0
                then push_output \<lparr>out_value = refund,
                       out_script = lb_to_pay_key_hash_pattern L (pa_hash source_payment_address)\<rparr> tx
                else tx);
          tx = tx\<lparr>tx_version := 1\<rparr>
      in sign_inputs L priv_key_ec (length utxos) tx)"

definition do_construct_p2pkh_tx_from_address ::
    "libbitcoin \<Rightarrow> output_point list \<Rightarrow> u64 \<Rightarrow> string \<Rightarrow> ec_private \<Rightarrow> u64 \<Rightarrow> u64 \<Rightarrow> string \<Rightarrow> string result" where
  "do_construct_p2pkh_tx_from_address L utxos available_funds src_addr priv_key_ec
       amount_to_transfer satoshis_fee target_addr =
     (let satoshis_needed = amount_to_transfer + satoshis_fee
      in if utxos = [] then
           Inl (InsufficientFundsException
                  (''Insufficient funds, required '' @ dec_nat (unat satoshis_needed) @
                   '', available '' @ dec_nat (unat available_funds))
                  satoshis_needed available_funds)
         else
           (let refund = available_funds - satoshis_needed;
                target_payment_address = lb_payment_address L target_addr
            in if pa_version target_payment_address = lb_mainnet_p2sh L \<or>
                  pa_version target_payment_address = lb_testnet_p2sh L
               then Inl InvalidTargetAddressException
               else if \<not> pa_valid target_payment_address then Inl InvalidTargetAddressException
               else
                 (let source_payment_address = lb_payment_address L src_addr
                  in if \<not> pa_valid source_payment_address then Inl InvalidSourceAddressException
                     else Inr (lb_encode_base16 L (lb_tx_to_data L
                            (p2pkh_transaction L utxos target_payment_address source_payment_address
                               priv_key_ec amount_to_transfer refund))))))"

section \<open>The public overloads\<close>

definition construct_p2pkh_tx_from_address_libb ::
    "libbitcoin \<Rightarrow> ('w, 'h, 'hd) obelisk \<Rightarrow> string \<Rightarrow> ec_private \<Rightarrow> u64 \<Rightarrow> u64 \<Rightarrow> string \<Rightarrow>
     (LibbClient \<times> 'w, string) exec" where
  "construct_p2pkh_tx_from_address_libb L ob src_addr priv_key_ec amount_to_transfer satoshis_fee target_addr =
     (let source_payment_address = lb_payment_address L src_addr
      in if \<not> pa_valid source_payment_address then throw InvalidSourceAddressException
         else
           bindE (fetch_utxo ob source_payment_address 1 individual []) (\<lambda>points_value.
             let satoshis_needed = amount_to_transfer + satoshis_fee in
             case find_funds L satoshis_needed points_value of (utxos, available_funds) \<Rightarrow>
               liftR (do_construct_p2pkh_tx_from_address L utxos available_funds src_addr priv_key_ec
                        amount_to_transfer satoshis_fee target_addr)))"

definition construct_p2pkh_tx_from_address_libb_wif ::
    "libbitcoin \<Rightarrow> ('w, 'h, 'hd) obelisk \<Rightarrow> string \<Rightarrow> string \<Rightarrow> u64 \<Rightarrow> u64 \<Rightarrow> string \<Rightarrow>
     (LibbClient \<times> 'w, string) exec" where
  "construct_p2pkh_tx_from_address_libb_wif L ob src_addr priv_key_wif amount_to_transfer satoshis_fee target_addr =
     construct_p2pkh_tx_from_address_libb L ob src_addr (lb_ec_private_wif L priv_key_wif)
       amount_to_transfer satoshis_fee target_addr"

definition construct_p2pkh_tx_from_address_electrum ::
    "libbitcoin \<Rightarrow> hash_digest \<Rightarrow> ('j, 'w) ElectrumInterface \<Rightarrow> string \<Rightarrow> ec_private \<Rightarrow> u64 \<Rightarrow> u64 \<Rightarrow> string \<Rightarrow>
     ('w, string) exec" where
  "construct_p2pkh_tx_from_address_electrum L junk electrum_interface src_addr priv_key_ec
       amount_to_transfer satoshis_fee target_addr =
     bindE (liftR (base58_to_spkh_hex L src_addr)) (\<lambda>spkh.
     bindE (ei_getUtxos electrum_interface spkh) (\<lambda>input_utxos.
       let satoshis_needed = amount_to_transfer + satoshis_fee in
       case find_funds_utxos L junk satoshis_needed input_utxos of (utxos, available_funds) \<Rightarrow>
         liftR (do_construct_p2pkh_tx_from_address L utxos available_funds src_addr priv_key_ec
                  amount_to_transfer satoshis_fee target_addr)))"

definition construct_p2pkh_tx_from_address_electrum_wif ::
    "libbitcoin \<Rightarrow> hash_digest \<Rightarrow> ('j, 'w) ElectrumInterface \<Rightarrow> string \<Rightarrow> string \<Rightarrow> u64 \<Rightarrow> u64 \<Rightarrow> string \<Rightarrow>
     ('w, string) exec" where
  "construct_p2pkh_tx_from_address_electrum_wif L junk electrum_interface src_addr priv_key_wif
       amount_to_transfer satoshis_fee target_addr =
     construct_p2pkh_tx_from_address_electrum L junk electrum_interface src_addr
       (lb_ec_private_wif L priv_key_wif) amount_to_transfer satoshis_fee target_addr"

section \<open>The transaction\<close>

lemma p2pkh_transaction_signed_view:
  assumes "new_transaction_documented L"
  shows "signed_view (p2pkh_transaction L utxos target src key amount refund) =
    (1, tx_locktime (lb_new_transaction L), map (\<lambda>u. (u, 0xfffffffe)) utxos,
     \<lparr>out_value = amount, out_script = lb_to_pay_key_hash_pattern L (pa_hash target)\<rparr> #
       (if 0 < refund then [\<lparr>out_value = refund, out_script = lb_to_pay_key_hash_pattern L (pa_hash src)\<rparr>]
        else []))"
  using assms
  by (simp add: p2pkh_transaction_def Let_def)
     (simp add: signed_view_def new_transaction_documented_def spend_input_def comp_def)

lemma p2pkh_transaction_simps:
  assumes "new_transaction_documented L"
  shows "tx_outputs (p2pkh_transaction L utxos target src key amount refund) =
      \<lparr>out_value = amount, out_script = lb_to_pay_key_hash_pattern L (pa_hash target)\<rparr> #
       (if 0 < refund then [\<lparr>out_value = refund, out_script = lb_to_pay_key_hash_pattern L (pa_hash src)\<rparr>]
        else [])"
    and "map previous_output (tx_inputs (p2pkh_transaction L utxos target src key amount refund)) = utxos"
  using p2pkh_transaction_signed_view [OF assms, of utxos target src key amount refund]
  by (auto simp: signed_view_def comp_def dest: arg_cong [where f = "map fst"])

lemma p2pkh_transaction_scripts:
  assumes "new_transaction_documented L" "endorsement_documented L" "i < length utxos"
  shows "in_script (tx_inputs (p2pkh_transaction L utxos target src key amount refund) ! i) =
    key_spend_script L key (p2pkh_transaction L utxos target src key amount refund) i"
  unfolding p2pkh_transaction_def Let_def
  by (rule sign_inputs_script) (use assms in \<open>auto simp: new_transaction_documented_def\<close>)

lemma p2pkh_transaction_total:
  assumes "new_transaction_documented L"
  shows "outputs_total (p2pkh_transaction L utxos target src key amount refund) = unat amount + unat refund"
  using assms by (simp add: p2pkh_transaction_simps word_gt_0)

lemma do_construct_p2pkh_Inr:
  "do_construct_p2pkh_tx_from_address L utxos available src_addr key amount fee target_addr = Inr hex \<longleftrightarrow>
   utxos \<noteq> [] \<and>
   pa_version (lb_payment_address L target_addr) \<notin> {lb_mainnet_p2sh L, lb_testnet_p2sh L} \<and>
   pa_valid (lb_payment_address L target_addr) \<and> pa_valid (lb_payment_address L src_addr) \<and>
   hex = lb_encode_base16 L (lb_tx_to_data L (p2pkh_transaction L utxos (lb_payment_address L target_addr)
           (lb_payment_address L src_addr) key amount (available - (amount + fee))))"
  by (auto simp: do_construct_p2pkh_tx_from_address_def Let_def)

section \<open>Properties\<close>

text \<open>
  C24. A payment constructed from the coins of an Electrum server goes to a valid address that
  is no script-hash address, spends only outputs the server reported (all of positive value),
  and, as long as \<^verbatim>\<open>amount + fee\<close> does not wrap around, its outputs and the fee add up to what
  the spent outputs are worth.
\<close>

theorem p2pkh_tx_electrum_balanced:
  assumes "new_transaction_documented L" "unat amount + unat fee < 2 ^ 64"
    and "construct_p2pkh_tx_from_address_electrum L junk E src_addr key amount fee target_addr w
         = (Inr hex, w')"
  shows "\<exists>spkh utxos selected tx.
    base58_to_spkh_hex L src_addr = Inr spkh \<and> fst (ei_getUtxos E spkh w) = Inr utxos \<and>
    subseq selected utxos \<and> selected \<noteq> [] \<and>
    hex = lb_encode_base16 L (lb_tx_to_data L tx) \<and>
    map previous_output (tx_inputs tx) = map (point_of_utxo L junk) selected \<and>
    hd (tx_outputs tx) = \<lparr>out_value = amount,
      out_script = lb_to_pay_key_hash_pattern L (pa_hash (lb_payment_address L target_addr))\<rparr> \<and>
    pa_version (lb_payment_address L target_addr) \<notin> {lb_mainnet_p2sh L, lb_testnet_p2sh L} \<and>
    outputs_total tx + unat fee = unat (sum_list (map utxo_value selected))"
proof -
  from assms(3) obtain spkh utxos w1 where
    spkh: "base58_to_spkh_hex L src_addr = Inr spkh" and
    get: "ei_getUtxos E spkh w = (Inr utxos, w1)" and
    run: "do_construct_p2pkh_tx_from_address L
      (fst (find_funds_utxos L junk (amount + fee) utxos)) (snd (find_funds_utxos L junk (amount + fee) utxos))
      src_addr key amount fee target_addr = Inr hex"
    by (auto simp: construct_p2pkh_tx_from_address_electrum_def Let_def exec_simps case_prod_beta)
  obtain us g where ff: "find_funds_utxos L junk (amount + fee) utxos = (us, g)" by fastforce
  let ?tx = "p2pkh_transaction L us (lb_payment_address L target_addr) (lb_payment_address L src_addr)
    key amount (g - (amount + fee))"
  from run ff have ne: "us \<noteq> []" and hex: "hex = lb_encode_base16 L (lb_tx_to_data L ?tx)"
    and target: "pa_version (lb_payment_address L target_addr) \<notin> {lb_mainnet_p2sh L, lb_testnet_p2sh L}"
    by (auto simp: do_construct_p2pkh_Inr)
  from electrum_funds.select_sound [OF ff ne] obtain sel where
    sel: "subseq sel utxos" "us = map (point_of_utxo L junk) sel" "g = sum_list (map utxo_value sel)"
    by blast
  have "outputs_total ?tx + unat fee = unat g"
    using electrum_funds.selection_balance [OF ff ne] assms(2)
    by (simp add: p2pkh_transaction_total [OF assms(1)])
  with spkh get sel ne hex target show ?thesis
    by (intro exI [where x = spkh] exI [where x = utxos] exI [where x = sel] exI [where x = ?tx])
       (auto simp: p2pkh_transaction_simps [OF assms(1)])
qed

definition sample_electrum :: "(unit, unit) ElectrumInterface" where
  "sample_electrum =
    \<lparr>ei_scripthashSubscribe = (\<lambda>_. ret ()), ei_scripthashSubscribeBulk = (\<lambda>_. ret ()),
     ei_getHistory = (\<lambda>_. ret []), ei_getHistoryBulk = (\<lambda>as _. ret (map (\<lambda>_. []) as)),
     ei_getTransaction = ret, ei_getTransactionBulk = (\<lambda>ts _. ret ts),
     ei_getBalance = (\<lambda>_. ret \<lparr>confirmed = 12, unconfirmed = 0\<rparr>), ei_getBlockHeader = (\<lambda>_. ret []),
     ei_getUtxos = (\<lambda>_. ret sample_utxos), ei_getServerPeers = ret [], ei_estimateFee = (\<lambda>_. ret 1),
     ei_broadcastTransaction = ret, ei_ping = ret (), ei_getVersion = (\<lambda>c vs. ret vs),
     ei_get_subscription_event = ret \<lparr>msg_json = (), msg_method = [], has_correlation_id = False,
        correlation_id = 0, msg_params = []\<rparr>,
     ei_do_interrupt = ret (), ei_stop = ret (),
     ei_subscribe_to_error_events = (\<lambda>_. ret ()), ei_clear_error_events_subscriptions = ret ()\<rparr>"

text \<open>A source address of the sample library: a text of at least 21 bytes.\<close>

definition sample_source :: string where
  "sample_source = ''SSSSSSSSSSSSSSSSSSSSSSSSS''"

theorem p2pkh_tx_electrum_balanced_witness:
  "\<exists>hex spkh utxos selected (tx :: transaction).
    construct_p2pkh_tx_from_address_electrum sample_libbitcoin [] sample_electrum sample_source
      \<lparr>ec_secret = [5], ec_version = 128\<rparr> 3 1 ''T'' () = (Inr hex, ()) \<and>
    hex = lb_encode_base16 sample_libbitcoin (lb_tx_to_data sample_libbitcoin tx) \<and>
    base58_to_spkh_hex sample_libbitcoin sample_source = Inr spkh \<and>
    fst (ei_getUtxos sample_electrum spkh ()) = Inr utxos \<and>
    subseq selected utxos \<and> selected \<noteq> [] \<and>
    map previous_output (tx_inputs tx) = map (point_of_utxo sample_libbitcoin []) selected \<and>
    outputs_total tx + unat (1 :: u64) = unat (sum_list (map utxo_value selected))"
proof -
  let ?run = "construct_p2pkh_tx_from_address_electrum sample_libbitcoin [] sample_electrum sample_source
      \<lparr>ec_secret = [5], ec_version = 128\<rparr> 3 1 ''T'' ()"
  obtain hex where run: "?run = (Inr hex, ())"
    by (simp add: construct_p2pkh_tx_from_address_electrum_def Let_def find_funds_utxos_eq
        do_construct_p2pkh_tx_from_address_def base58_to_spkh_hex_def sample_electrum_def bindE_def
        sample_utxos_def sample_source_def sample_lb)
  have "unat (3 :: u64) + unat (1 :: u64) < 2 ^ 64" by simp
  from p2pkh_tx_electrum_balanced [OF sample_new_transaction_documented this run] run show ?thesis
    by blast
qed

text \<open>
  When the outputs an Electrum server reports for the source do not cover amount and fee,
  no payment is constructed, whatever the target is: the call ends with the exception that
  carries the amount needed and the exact amount available.
\<close>

theorem p2pkh_tx_electrum_insufficient:
  assumes "base58_to_spkh_hex L src_addr = Inr spkh" "ei_getUtxos E spkh w = (Inr utxos, w')"
    and "unat amount + unat fee < 2 ^ 64" "utxos_total utxos < unat amount + unat fee"
  shows "construct_p2pkh_tx_from_address_electrum L junk E src_addr key amount fee target_addr w =
    (Inl (InsufficientFundsException
       (''Insufficient funds, required '' @ dec_nat (unat amount + unat fee) @
        '', available '' @ dec_nat (utxos_total utxos))
       (amount + fee) (of_nat (utxos_total utxos))), w')"
proof -
  have needed: "unat (amount + fee) = unat amount + unat fee"
    using assms(3) by (simp add: unat_plus_bound)
  from assms(3,4) have fits: "utxos_total utxos < 2 ^ 64" by linarith
  then have "unat (of_nat (utxos_total utxos) :: u64) = utxos_total utxos"
    by (simp add: unat_of_nat take_bit_nat_eq_self)
  with assms(1,2,4) needed find_funds_utxos_value [OF fits, of L junk "amount + fee"] show ?thesis
    by (simp add: construct_p2pkh_tx_from_address_electrum_def Let_def do_construct_p2pkh_tx_from_address_def)
qed

theorem p2pkh_tx_electrum_insufficient_witness:
  "construct_p2pkh_tx_from_address_electrum sample_libbitcoin [] sample_electrum sample_source
      \<lparr>ec_secret = [5], ec_version = 128\<rparr> 30 1 ''T'' () =
    (Inl (InsufficientFundsException (''Insufficient funds, required '' @ dec_nat 31 @
        '', available '' @ dec_nat 12) 31 12), ())"
proof -
  obtain spkh where spkh: "base58_to_spkh_hex sample_libbitcoin sample_source = Inr spkh"
    by (simp add: base58_to_spkh_hex_def sample_source_def sample_lb)
  show ?thesis
    by (subst p2pkh_tx_electrum_insufficient [OF spkh, where utxos = sample_utxos and w' = "()"])
       (simp_all add: sample_electrum_def sample_utxos_def)
qed

end
