(* ===== verification/InputQueue.thy ===== *)
theory InputQueue
  imports ElectrumModel
begin

text \<open>
  \<^verbatim>\<open>src/ronghuaclient/ronghua_input_queue.cpp\<close>: the messages received from the server, from
  which each thread takes the replies to its own requests. The deque is a list, front first;
  new messages enter at the front, and searches run from the front.
\<close>

section \<open>The operations\<close>

type_synonym 'j input_queue = "'j ElectrumMessage list"

text \<open>The predicate of \<^verbatim>\<open>find_if\<close>: a negative id asks for a message without correlation id.\<close>

definition matches_id :: "int \<Rightarrow> 'j ElectrumMessage \<Rightarrow> bool" where
  "matches_id cid message \<longleftrightarrow>
     (if cid \<ge> 0 then has_correlation_id message \<and> correlation_id message = cid
      else \<not> has_correlation_id message)"

text \<open>An iterator is a position; \<^verbatim>\<open>queue_.end()\<close> is the length.\<close>

definition find_msg_with_id :: "int \<Rightarrow> 'j input_queue \<Rightarrow> nat" where
  "find_msg_with_id cid queue = length (takeWhile (\<lambda>m. \<not> matches_id cid m) queue)"

definition contains_msg_with_id :: "int \<Rightarrow> 'j input_queue \<Rightarrow> bool" where
  "contains_msg_with_id cid queue \<longleftrightarrow> find_msg_with_id cid queue \<noteq> length queue"

fun contains_msg_with_id_bulk :: "int list \<Rightarrow> 'j input_queue \<Rightarrow> bool" where
  "contains_msg_with_id_bulk [] queue = True"
| "contains_msg_with_id_bulk (cid # ids) queue =
     (if find_msg_with_id cid queue = length queue then False
      else contains_msg_with_id_bulk ids queue)"

definition iq_push :: "'j ElectrumMessage \<Rightarrow> 'j input_queue \<Rightarrow> 'j input_queue" where
  "iq_push message queue = message # queue"

definition erase_at :: "nat \<Rightarrow> 'a list \<Rightarrow> 'a list" where
  "erase_at i queue = take i queue @ drop (Suc i) queue"

text \<open>\<^verbatim>\<open>pop_reply\<close> waits while there is no match: \<^verbatim>\<open>None\<close>.\<close>

definition pop_reply :: "int \<Rightarrow> 'j input_queue \<Rightarrow> ('j ElectrumMessage \<times> 'j input_queue) option" where
  "pop_reply cid queue =
     (if contains_msg_with_id cid queue
      then (let iter = find_msg_with_id cid queue in Some (queue ! iter, erase_at iter queue))
      else None)"

definition pop_eat_reply :: "int \<Rightarrow> 'j input_queue \<Rightarrow> 'j input_queue option" where
  "pop_eat_reply cid queue = map_option snd (pop_reply cid queue)"

text \<open>
  The loop of \<^verbatim>\<open>pop_reply_bulk\<close>, after the wait has ended (all replies are there, or 1500 ms
  have passed): it stops at the first id without a message.
\<close>

fun pop_reply_bulk ::
    "int list \<Rightarrow> 'j input_queue \<Rightarrow> 'j ElectrumMessage list \<times> 'j input_queue" where
  "pop_reply_bulk [] queue = ([], queue)"
| "pop_reply_bulk (cid # ids) queue =
     (let iter = find_msg_with_id cid queue in
      if iter = length queue then ([], queue)
      else (case pop_reply_bulk ids (erase_at iter queue) of
              (messages, queue') \<Rightarrow> (queue ! iter # messages, queue')))"

definition copyAll :: "'j input_queue \<Rightarrow> 'j ElectrumMessage list" where
  "copyAll queue = queue"

section \<open>The interface\<close>

text \<open>
  What a client relies on: a store of messages from which it takes, for an id, a message that
  matches, if there is one.
\<close>

locale reply_store =
  fixes put :: "'m \<Rightarrow> 'q \<Rightarrow> 'q"
    and take_reply :: "'cid \<Rightarrow> 'q \<Rightarrow> ('m \<times> 'q) option"
    and fits :: "'cid \<Rightarrow> 'm \<Rightarrow> bool"
    and held :: "'q \<Rightarrow> 'm multiset"
  assumes held_put: "held (put m q) = add_mset m (held q)"
    and take_None_iff: "take_reply i q = None \<longleftrightarrow> (\<forall>m \<in># held q. \<not> fits i m)"
    and take_Some: "take_reply i q = Some (m, q') \<Longrightarrow> fits i m \<and> held q = add_mset m (held q')"
begin

lemma held_put_all: "held (fold put ms q) = mset ms + held q"
  by (induction ms arbitrary: q) (simp_all add: held_put)

text \<open>The only message that fits an id is the one its taker gets.\<close>

lemma take_unique:
  assumes "m \<in># held q" "fits i m" "\<And>m'. m' \<in># held q \<Longrightarrow> fits i m' \<Longrightarrow> m' = m"
  shows "\<exists>q'. take_reply i q = Some (m, q') \<and> held q = add_mset m (held q')"
proof -
  obtain m' q' where t: "take_reply i q = Some (m', q')"
    using assms(1,2) take_None_iff by (metis not_None_eq surj_pair)
  from take_Some [OF t] assms(3) have "m' = m" "held q = add_mset m (held q')" by auto
  with t show ?thesis by auto
qed

lemma take_after_put:
  assumes "fits i m" shows "take_reply i (put m q) \<noteq> None"
  using assms by (simp add: take_None_iff held_put)

text \<open>Taking for one id leaves the messages for the others.\<close>

lemma take_keeps_others:
  assumes "take_reply i q = Some (m, q')" "m' \<in># held q" "\<not> fits i m'"
  shows "m' \<in># held q'"
  using take_Some [OF assms(1)] assms(2,3) by (metis insert_iff set_mset_add_mset_insert)

end

section \<open>Facts about the search\<close>

lemma find_msg_le: "find_msg_with_id cid q \<le> length q"
  by (simp add: find_msg_with_id_def length_takeWhile_le)

lemma find_msg_end_iff: "find_msg_with_id cid q = length q \<longleftrightarrow> (\<forall>m \<in> set q. \<not> matches_id cid m)"
  by (simp add: find_msg_with_id_def length_takeWhile_eq_iff)

lemma find_msg_matches:
  "find_msg_with_id cid q \<noteq> length q \<Longrightarrow> matches_id cid (q ! find_msg_with_id cid q)"
  using nth_length_takeWhile_not [of "\<lambda>m. \<not> matches_id cid m" q] by (simp add: find_msg_with_id_def)

lemma find_msg_less: "find_msg_with_id cid q \<noteq> length q \<Longrightarrow> find_msg_with_id cid q < length q"
  using find_msg_le [of cid q] by simp

lemma mset_erase_at: "i < length q \<Longrightarrow> mset q = add_mset (q ! i) (mset (erase_at i q))"
  unfolding erase_at_def by (rule mset_take_drop_nth)

lemma find_msg_push: "matches_id cid m \<Longrightarrow> find_msg_with_id cid (m # q) = 0"
  by (simp add: find_msg_with_id_def)

interpretation iq: reply_store iq_push pop_reply matches_id mset
proof unfold_locales
  fix cid and q q' :: "'a input_queue" and m
  assume "pop_reply cid q = Some (m, q')"
  then have "find_msg_with_id cid q \<noteq> length q" "m = q ! find_msg_with_id cid q"
    "q' = erase_at (find_msg_with_id cid q) q"
    by (auto simp: pop_reply_def contains_msg_with_id_def Let_def split: if_splits)
  with find_msg_matches find_msg_less mset_erase_at
  show "matches_id cid m \<and> mset q = add_mset m (mset q')" by metis
qed (auto simp: iq_push_def pop_reply_def contains_msg_with_id_def find_msg_end_iff Let_def)

lemma contains_bulk_iff:
  "contains_msg_with_id_bulk ids q \<longleftrightarrow> (\<forall>cid \<in> set ids. contains_msg_with_id cid q)"
  by (induction ids) (auto simp: contains_msg_with_id_def)

lemma bulk_ready_iff:
  "contains_msg_with_id_bulk ids q \<longleftrightarrow> (\<forall>cid \<in> set ids. \<exists>m \<in> set q. matches_id cid m)"
  by (auto simp: contains_bulk_iff contains_msg_with_id_def find_msg_end_iff)

lemma pop_reply_bulk_Cons:
  "pop_reply_bulk (cid # ids) q =
     (case pop_reply cid q of None \<Rightarrow> ([], q)
      | Some (m, q1) \<Rightarrow> (case pop_reply_bulk ids q1 of (ms, q') \<Rightarrow> (m # ms, q')))"
  by (simp add: pop_reply_def contains_msg_with_id_def Let_def)

declare pop_reply_bulk.simps(2) [simp del]

lemma pop_reply_bulk_spec:
  "pop_reply_bulk ids q = (ms, q') \<Longrightarrow>
     length ms \<le> length ids \<and> list_all2 matches_id (take (length ms) ids) ms \<and>
     mset q = mset ms + mset q' \<and>
     (length ms < length ids \<longrightarrow> (\<forall>m \<in> set q'. \<not> matches_id (ids ! length ms) m))"
proof (induction ids arbitrary: q ms)
  case Nil
  then show ?case by simp
next
  case (Cons cid ids)
  show ?case
  proof (cases "pop_reply cid q")
    case None
    with Cons.prems have "ms = []" "q' = q" by (simp_all add: pop_reply_bulk_Cons)
    with None show ?thesis using iq.take_None_iff [of cid q] by simp
  next
    case (Some p)
    obtain m q1 where p: "p = (m, q1)" by fastforce
    obtain ms1 q2 where rest: "pop_reply_bulk ids q1 = (ms1, q2)" by fastforce
    with Some p Cons.prems have eqs: "ms = m # ms1" "q' = q2" by (simp_all add: pop_reply_bulk_Cons)
    from Cons.IH rest eqs have "length ms1 \<le> length ids \<and>
        list_all2 matches_id (take (length ms1) ids) ms1 \<and> mset q1 = mset ms1 + mset q' \<and>
        (length ms1 < length ids \<longrightarrow> (\<forall>m \<in> set q'. \<not> matches_id (ids ! length ms1) m))" by simp
    with iq.take_Some [OF Some [unfolded p]] eqs show ?thesis by simp
  qed
qed

lemma pop_reply_bulk_all:
  assumes "distinct ids" "\<forall>cid \<in> set ids. 0 \<le> cid" "contains_msg_with_id_bulk ids q"
    and "pop_reply_bulk ids q = (ms, q')"
  shows "length ms = length ids"
  using assms
proof (induction ids arbitrary: q ms)
  case Nil
  then show ?case by simp
next
  case (Cons cid ids)
  from Cons.prems(3) have "pop_reply cid q \<noteq> None"
    by (simp add: pop_reply_def contains_msg_with_id_def Let_def split: if_splits)
  then obtain m q1 where pop: "pop_reply cid q = Some (m, q1)" by fastforce
  have rest: "contains_msg_with_id_bulk ids q1"
    unfolding contains_bulk_iff
  proof
    fix i assume i: "i \<in> set ids"
    with Cons.prems(3) have "\<exists>m' \<in> set q. matches_id i m'"
      by (auto simp: contains_bulk_iff contains_msg_with_id_def find_msg_end_iff split: if_splits)
    then obtain m' where m': "m' \<in># mset q" "matches_id i m'" by auto
    from i Cons.prems(1,2) have "i \<noteq> cid" "0 \<le> i" "0 \<le> cid" by auto
    with m'(2) have "\<not> matches_id cid m'" by (auto simp: matches_id_def)
    with iq.take_keeps_others [OF pop m'(1)] m'(2) show "contains_msg_with_id i q1"
      by (auto simp: contains_msg_with_id_def find_msg_end_iff)
  qed
  obtain ms1 q2 where "pop_reply_bulk ids q1 = (ms1, q2)" by fastforce
  with Cons.IH [of q1 ms1] Cons.prems rest pop show ?case
    by (auto simp: pop_reply_bulk_Cons)
qed

section \<open>Runs\<close>

text \<open>The receiver's pushes and the threads' takes, in the order in which they held the mutex.\<close>

datatype 'j iq_event = Received "'j ElectrumMessage" | Replied int "'j ElectrumMessage"

fun iq_run :: "'j iq_event list \<Rightarrow> 'j input_queue \<Rightarrow> 'j input_queue option" where
  "iq_run [] q = Some q"
| "iq_run (Received m # es) q = iq_run es (iq_push m q)"
| "iq_run (Replied cid m # es) q =
     (case pop_reply cid q of None \<Rightarrow> None | Some (m', q') \<Rightarrow> if m' = m then iq_run es q' else None)"

fun received_messages :: "'j iq_event list \<Rightarrow> 'j ElectrumMessage list" where
  "received_messages [] = []"
| "received_messages (Received m # es) = m # received_messages es"
| "received_messages (Replied cid m # es) = received_messages es"

fun replies_taken :: "'j iq_event list \<Rightarrow> (int \<times> 'j ElectrumMessage) list" where
  "replies_taken [] = []"
| "replies_taken (Received m # es) = replies_taken es"
| "replies_taken (Replied cid m # es) = (cid, m) # replies_taken es"

lemma iq_run_conserves:
  "iq_run es q = Some q' \<Longrightarrow>
     mset q + mset (received_messages es) = mset (map snd (replies_taken es)) + mset q' \<and>
     list_all (\<lambda>(cid, m). matches_id cid m) (replies_taken es)"
proof (induction es q rule: iq_run.induct)
  case (1 q)
  then show ?case by simp
next
  case (2 m es q)
  then show ?case by (simp add: iq_push_def)
next
  case (3 cid m es q)
  from "3.prems" obtain q1 where pop: "pop_reply cid q = Some (m, q1)" and run: "iq_run es q1 = Some q'"
    by (auto split: option.splits if_splits)
  from "3.IH" [OF pop refl refl run] iq.take_Some [OF pop] show ?case by simp
qed

section \<open>Properties\<close>

text \<open>
  C13. However the receiver and the requesting threads interleave, every message goes to at most
  one thread and none is lost (what was received is what was taken plus what is still
  queued), and a thread only ever takes a message that matches the id it waits for.
\<close>

theorem input_queue_delivers_once:
  assumes "iq_run es [] = Some q"
  shows "mset (received_messages es) = mset (map snd (replies_taken es)) + mset q \<and>
    list_all (\<lambda>(cid, m). matches_id cid m) (replies_taken es)"
  using iq_run_conserves [OF assms] by simp

definition sample_message :: "int \<Rightarrow> unit ElectrumMessage" where
  "sample_message n = \<lparr>msg_json = (), msg_method = [], has_correlation_id = (n \<ge> 0),
     correlation_id = n, msg_params = []\<rparr>"

theorem input_queue_delivers_once_witness:
  "mset (received_messages [Received (sample_message 1), Received (sample_message 2),
      Received (sample_message 3), Replied 2 (sample_message 2)]) =
    mset (map snd (replies_taken [Received (sample_message 1), Received (sample_message 2),
      Received (sample_message 3), Replied 2 (sample_message 2)])) +
    mset [sample_message 3, sample_message 1]"
  by (rule input_queue_delivers_once [THEN conjunct1])
     (simp add: iq_push_def pop_reply_def contains_msg_with_id_def find_msg_with_id_def matches_id_def
        erase_at_def sample_message_def)

text \<open>
  A bulk request gets the replies to a prefix of its ids, in the order of the ids; it
  stops early only when no message for the next id is queued, and it leaves every other
  message in place. With distinct non-negative ids whose replies have all arrived it gets all
  of them.
\<close>

theorem pop_reply_bulk_prefix:
  assumes "pop_reply_bulk ids q = (ms, q')"
  shows "list_all2 matches_id (take (length ms) ids) ms \<and> mset q = mset ms + mset q' \<and>
    (length ms < length ids \<longrightarrow> find_msg_with_id (ids ! length ms) q' = length q') \<and>
    (distinct ids \<and> list_all (\<lambda>cid. 0 \<le> cid) ids \<and> contains_msg_with_id_bulk ids q \<longrightarrow>
       length ms = length ids)"
  using pop_reply_bulk_spec [OF assms] pop_reply_bulk_all [OF _ _ _ assms]
  by (auto simp: find_msg_end_iff list_all_iff)

theorem pop_reply_bulk_prefix_witness:
  "pop_reply_bulk [1, 2, 5] [sample_message 2, sample_message 7, sample_message 1] =
     ([sample_message 1, sample_message 2], [sample_message 7]) \<and>
   list_all2 matches_id (take 2 [1, 2, 5]) [sample_message 1, sample_message 2]"
proof -
  have run: "pop_reply_bulk [1, 2, 5] [sample_message 2, sample_message 7, sample_message 1] =
     ([sample_message 1, sample_message 2], [sample_message 7])"
    by (simp add: pop_reply_bulk.simps(2) find_msg_with_id_def matches_id_def erase_at_def
        sample_message_def)
  from pop_reply_bulk_prefix [OF this] run show ?thesis by simp
qed

text \<open>
  Messages are matched newest first: a reader that asks for a message without correlation
  id (a subscription event) gets the last one received, ahead of the events that are still
  waiting. Events are therefore delivered in reverse order, unlike the updates of the
  first-in-first-out \<^verbatim>\<open>blocking_queue\<close>.
\<close>

theorem events_newest_first:
  assumes "\<not> has_correlation_id old" "\<not> has_correlation_id new"
  shows "pop_reply (-1) (iq_push new (iq_push old q)) = Some (new, iq_push old q)"
  using assms
  by (simp add: pop_reply_def contains_msg_with_id_def iq_push_def find_msg_push matches_id_def erase_at_def)

theorem events_newest_first_witness:
  "pop_reply (-1) (iq_push (sample_message (-2)) (iq_push (sample_message (-1)) [])) =
     Some (sample_message (-2), iq_push (sample_message (-1)) [])"
  by (rule events_newest_first) (simp_all add: sample_message_def)

end
