(* ===== verification/SocketClient.thy ===== *)
theory SocketClient
  imports InputQueue ElectrumInterface
begin

text \<open>
  \<^verbatim>\<open>src/ronghuaclient/ronghua_socket_client.cpp\<close>: the connection. Requests are written to the
  socket by the calling thread; a receiver thread appends what arrives to a buffer, and puts a
  message into the reply queue whenever the buffer parses as one JSON text.

  The rest of the world is a script in the state, the list of events still to come: completed
  reads, the expiry of a timed wait, and another thread's request to interrupt. The receiver
  takes its steps while the modelled thread waits for the queue; steps it could take earlier
  change nothing the thread looks at before it waits.
\<close>

section \<open>State\<close>

text \<open>A completed read carries its error, if any, and the bytes transferred.\<close>

datatype net_event = ReadSome "(int \<times> string) option" string | Elapsed | Interrupt

text \<open>
  \<^verbatim>\<open>interrupt_requested\<close> and \<^verbatim>\<open>error_callbacks\<close> are the references to the members of
  \<^verbatim>\<open>RonghuaClient\<close>. A callback is known by a number and \<^verbatim>\<open>error_log\<close> records the calls made.
  \<^verbatim>\<open>reading\<close>: an \<^verbatim>\<open>async_read_some\<close> is outstanding; \<^verbatim>\<open>io_stopped\<close>: the \<^verbatim>\<open>io_context\<close> does
  not run handlers; \<^verbatim>\<open>terminated\<close>: an exception has left a handler, hence the receiver's thread,
  which ends the process (\<^verbatim>\<open>std::terminate\<close>); \<^verbatim>\<open>socket_open\<close>, \<^verbatim>\<open>write_faults\<close> (the outcome of each write still to come,
  with the message of its exception) and \<^verbatim>\<open>sent\<close> describe the socket.
\<close>

record 'j SocketClient =
  queue :: "'j input_queue"
  oss :: string
  interrupt_requested :: bool
  error_callbacks :: "nat list"
  error_log :: "(nat \<times> ElectrumErrorEvent) list"
  reading :: bool
  io_stopped :: bool
  terminated :: bool
  socket_open :: bool
  write_faults :: "string option list"
  sent :: "string list"
  events :: "net_event list"

section \<open>Messages\<close>

text \<open>
  Each of the three fields is read in a \<^verbatim>\<open>try\<close> of its own, whose failure leaves the default.
\<close>

definition from_json :: "'j json_api \<Rightarrow> 'j \<Rightarrow> 'j ElectrumMessage" where
  "from_json J j =
     \<lparr>msg_json = j,
      msg_method = (case at_get J (js_get_string J) j ''method'' of Inr m \<Rightarrow> m | Inl e \<Rightarrow> []),
      has_correlation_id = (case at_get J (js_get_int J) j ''id'' of Inr n \<Rightarrow> True | Inl e \<Rightarrow> False),
      correlation_id = (case at_get J (js_get_int J) j ''id'' of Inr n \<Rightarrow> n | Inl e \<Rightarrow> 0),
      msg_params = (case at_get J (js_get_strings J) j ''params'' of Inr ps \<Rightarrow> ps | Inl e \<Rightarrow> [])\<rparr>"

section \<open>Sending\<close>

text \<open>
  \<^verbatim>\<open>strcpy\<close> copies up to and including the terminating zero into an array of 1536 bytes; a
  longer text is written past its end.
\<close>

definition max_length :: nat where
  "max_length = 1536"

definition socket_write :: "string \<Rightarrow> (('j, 'm) SocketClient_scheme, unit) exec" where
  "socket_write bytes = (\<lambda>s.
     if \<not> socket_open s then (Inl (LibraryException ''Bad file descriptor''), s)
     else (case write_faults s of
             Some m # fs \<Rightarrow> (Inl (LibraryException m), s\<lparr>write_faults := fs\<rparr>)
           | None # fs \<Rightarrow> (Inr (), s\<lparr>write_faults := fs, sent := sent s @ [bytes]\<rparr>)
           | [] \<Rightarrow> (Inr (), s\<lparr>sent := sent s @ [bytes]\<rparr>)))"

definition socket_send_request :: "'j json_api \<Rightarrow> 'j \<Rightarrow> (('j, 'm) SocketClient_scheme, unit) exec" where
  "socket_send_request J json_request =
     bindE (liftR (dump_json J json_request)) (\<lambda>req0.
     let req = req0 @ [CHR 0x0A];
         c_str = takeWhile (\<lambda>c. c \<noteq> CHR 0x00) req
     in if max_length < length c_str + 1 then throw UndefinedBehaviour else socket_write c_str)"

section \<open>Receiving\<close>

definition async_read :: "('j, 'm) SocketClient_scheme \<Rightarrow> ('j, 'm) SocketClient_scheme" where
  "async_read s = (if \<not> interrupt_requested s then s\<lparr>reading := True\<rparr> else s)"

definition push_error ::
    "int \<Rightarrow> string \<Rightarrow> ('j, 'm) SocketClient_scheme \<Rightarrow> ('j, 'm) SocketClient_scheme" where
  "push_error code m s =
     s\<lparr>error_log := error_log s @
         map (\<lambda>f. (f, \<lparr>error_code = code, error_message = m\<rparr>)) (error_callbacks s)\<rparr>"

text \<open>
  The handler of a completed read. It catches the \<^verbatim>\<open>parse_error\<close> of a text that is not complete;
  any other exception of the parser leaves it before the next read is started.
\<close>

definition do_read ::
    "'j json_api \<Rightarrow> (int \<times> string) option \<Rightarrow> string \<Rightarrow>
     ('j, 'm) SocketClient_scheme \<Rightarrow> ('j, 'm) SocketClient_scheme" where
  "do_read J error bytes s =
     (let s1 = s\<lparr>reading := False\<rparr>;
          s2 = (case error of None \<Rightarrow> s1 | Some (code, m) \<Rightarrow> push_error code m s1);
          s3 = (if 0 < length bytes
                then (let candidate_response = oss s2 @ bytes
                      in case js_parse J candidate_response of
                           Inr parsed_response \<Rightarrow>
                             s2\<lparr>queue := iq_push (from_json J parsed_response) (queue s2), oss := []\<rparr>
                         | Inl e \<Rightarrow>
                             (if is_parse_error e then s2\<lparr>oss := candidate_response\<rparr>
                              else s2\<lparr>oss := candidate_response, terminated := True\<rparr>))
                else s2)
      in if terminated s3 then s3 else async_read s3)"

definition socket_do_interrupt :: "'j json_api \<Rightarrow> (('j, 'm) SocketClient_scheme, unit) exec" where
  "socket_do_interrupt J =
     bindE (liftR (js_parse J ''{}'')) (\<lambda>j.
     let poison_message = \<lparr>msg_json = j, msg_method = [], has_correlation_id = False,
                           correlation_id = 0, msg_params = []\<rparr>
     in modifyS (\<lambda>s. s\<lparr>queue := iq_push poison_message (queue s), io_stopped := True\<rparr>))"

text \<open>\<^verbatim>\<open>RonghuaClient::do_interrupt\<close> sets the shared flag first.\<close>

definition interrupt_client :: "'j json_api \<Rightarrow> (('j, 'm) SocketClient_scheme, unit) exec" where
  "interrupt_client J =
     bindE (modifyS (\<lambda>s. s\<lparr>interrupt_requested := True\<rparr>)) (\<lambda>_. socket_do_interrupt J)"

definition run_receiving_loop :: "('j, 'm) SocketClient_scheme \<Rightarrow> ('j, 'm) SocketClient_scheme" where
  "run_receiving_loop s =
     (let s1 = async_read s in if io_stopped s1 then s1\<lparr>io_stopped := False\<rparr> else s1)"

definition socket_stop :: "('j, 'm) SocketClient_scheme \<Rightarrow> ('j, 'm) SocketClient_scheme" where
  "socket_stop s = s\<lparr>socket_open := False\<rparr>"

section \<open>Connecting\<close>

text \<open>
  The constructor starts the connection; a failed connection or handshake is reported to the
  error callbacks, and the object is constructed all the same. The two outcomes are arguments.
  The certificate callback copies the subject into a local buffer and leaves the verdict as it is;
  the verify mode is \<^verbatim>\<open>verify_none\<close>, so the outcome of the handshake does not depend on it.
\<close>

definition verify_certificate :: "bool \<Rightarrow> string \<Rightarrow> bool" where
  "verify_certificate preverified subject = (let subject_name = take 255 subject in preverified)"

definition handshake ::
    "(int \<times> string) option \<Rightarrow> ('j, 'm) SocketClient_scheme \<Rightarrow> ('j, 'm) SocketClient_scheme" where
  "handshake outcome s = (case outcome of None \<Rightarrow> s | Some (code, m) \<Rightarrow> push_error code m s)"

definition connect ::
    "(int \<times> string) option \<Rightarrow> (int \<times> string) option \<Rightarrow>
     ('j, 'm) SocketClient_scheme \<Rightarrow> ('j, 'm) SocketClient_scheme" where
  "connect connected shaken s =
     (case connected of None \<Rightarrow> handshake shaken s | Some (code, m) \<Rightarrow> push_error code m s)"

definition SocketClient_new ::
    "(int \<times> string) option \<Rightarrow> (int \<times> string) option \<Rightarrow>
     ('j, 'm) SocketClient_scheme \<Rightarrow> ('j, 'm) SocketClient_scheme" where
  "SocketClient_new connected shaken s =
     connect connected shaken (s\<lparr>queue := [], oss := [], reading := False, socket_open := True\<rparr>)"

section \<open>Waiting for replies\<close>

text \<open>Handlers run only for an outstanding read of a running \<^verbatim>\<open>io_context\<close>, and nothing runs once
  the process has ended.\<close>

fun world_step ::
    "'j json_api \<Rightarrow> net_event \<Rightarrow> ('j, 'm) SocketClient_scheme \<Rightarrow> ('j, 'm) SocketClient_scheme" where
  "world_step J (ReadSome error bytes) s =
     (if reading s \<and> \<not> io_stopped s \<and> \<not> terminated s then do_read J error bytes s else s)"
| "world_step J Elapsed s = s"
| "world_step J Interrupt s = (if terminated s then s else snd (interrupt_client J s))"

text \<open>Let the world go on until the condition holds, the time of a timed wait is over, or
  nothing happens any more.\<close>

fun pump ::
    "'j json_api \<Rightarrow> bool \<Rightarrow> ('j input_queue \<Rightarrow> bool) \<Rightarrow> net_event list \<Rightarrow>
     ('j, 'm) SocketClient_scheme \<Rightarrow> ('j, 'm) SocketClient_scheme" where
  "pump J timed ready [] s = s\<lparr>events := []\<rparr>"
| "pump J timed ready (e # es) s =
     (if ready (queue s) then s\<lparr>events := e # es\<rparr>
      else if timed \<and> e = Elapsed then s\<lparr>events := es\<rparr>
      else pump J timed ready es (world_step J e s))"

text \<open>\<^verbatim>\<open>condition_.wait\<close>: without the condition it never returns.\<close>

definition wait_until :: "'j json_api \<Rightarrow> ('j input_queue \<Rightarrow> bool) \<Rightarrow> (('j, 'm) SocketClient_scheme, unit) exec" where
  "wait_until J ready = (\<lambda>s.
     let s' = pump J False ready (events s) s
     in (if ready (queue s') then Inr () else Inl NeverReturns, s'))"

text \<open>\<^verbatim>\<open>condition_.wait_for\<close>: returns in any case, unless the process ends.\<close>

definition wait_for :: "'j json_api \<Rightarrow> ('j input_queue \<Rightarrow> bool) \<Rightarrow> (('j, 'm) SocketClient_scheme, unit) exec" where
  "wait_for J ready = (\<lambda>s.
     let s' = pump J True ready (events s) s
     in (if terminated s' \<and> \<not> ready (queue s') then Inl NeverReturns else Inr (), s'))"

text \<open>\<^verbatim>\<open>queue_.pop_reply(id)\<close> with its wait.\<close>

definition queue_pop_reply :: "'j json_api \<Rightarrow> int \<Rightarrow> (('j, 'm) SocketClient_scheme, 'j ElectrumMessage) exec" where
  "queue_pop_reply J cid =
     bindE (wait_until J (contains_msg_with_id cid)) (\<lambda>_ s.
       case pop_reply cid (queue s) of
         Some (m, q) \<Rightarrow> (Inr m, s\<lparr>queue := q\<rparr>)
       | None \<Rightarrow> (Inl UndefinedBehaviour, s))"

definition queue_pop_reply_bulk ::
    "'j json_api \<Rightarrow> int list \<Rightarrow> (('j, 'm) SocketClient_scheme, 'j ElectrumMessage list) exec" where
  "queue_pop_reply_bulk J ids =
     bindE (wait_for J (contains_msg_with_id_bulk ids)) (\<lambda>_ s.
       case pop_reply_bulk ids (queue s) of (ms, q) \<Rightarrow> (Inr ms, s\<lparr>queue := q\<rparr>))"

definition receive_response :: "'j json_api \<Rightarrow> int \<Rightarrow> (('j, 'm) SocketClient_scheme, 'j) exec" where
  "receive_response J cid = bindE (queue_pop_reply J cid) (\<lambda>m. ret (msg_json m))"

definition receive_response_bulk ::
    "'j json_api \<Rightarrow> int list \<Rightarrow> (('j, 'm) SocketClient_scheme, 'j list) exec" where
  "receive_response_bulk J ids = bindE (queue_pop_reply_bulk J ids) (\<lambda>ms. ret (map msg_json ms))"

definition eat_response :: "'j json_api \<Rightarrow> int \<Rightarrow> (('j, 'm) SocketClient_scheme, unit) exec" where
  "eat_response J cid = bindE (queue_pop_reply J cid) (\<lambda>_. ret ())"

definition socket_get_subscription_event ::
    "'j json_api \<Rightarrow> (('j, 'm) SocketClient_scheme, 'j ElectrumMessage) exec" where
  "socket_get_subscription_event J = queue_pop_reply J (-1)"


section \<open>Facts about the receiver\<close>

lemma async_read_simps [simp]:
  "queue (async_read s) = queue s" "oss (async_read s) = oss s" "io_stopped (async_read s) = io_stopped s"
  "interrupt_requested (async_read s) = interrupt_requested s" "events (async_read s) = events s"
  "sent (async_read s) = sent s" "write_faults (async_read s) = write_faults s"
  "socket_open (async_read s) = socket_open s" "error_log (async_read s) = error_log s"
  "error_callbacks (async_read s) = error_callbacks s" "terminated (async_read s) = terminated s"
  by (simp_all add: async_read_def)

lemma push_error_simps [simp]:
  "queue (push_error c m s) = queue s" "oss (push_error c m s) = oss s"
  "io_stopped (push_error c m s) = io_stopped s"
  "interrupt_requested (push_error c m s) = interrupt_requested s"
  "reading (push_error c m s) = reading s" "events (push_error c m s) = events s"
  "sent (push_error c m s) = sent s" "write_faults (push_error c m s) = write_faults s"
  "socket_open (push_error c m s) = socket_open s"
  "error_callbacks (push_error c m s) = error_callbacks s" "terminated (push_error c m s) = terminated s"
  by (simp_all add: push_error_def)

lemma do_read_frame [simp]:
  "io_stopped (do_read J error bytes s) = io_stopped s"
  "interrupt_requested (do_read J error bytes s) = interrupt_requested s"
  "sent (do_read J error bytes s) = sent s" "write_faults (do_read J error bytes s) = write_faults s"
  "socket_open (do_read J error bytes s) = socket_open s"
  by (simp_all add: do_read_def Let_def split: option.splits sum.splits)

lemma interrupt_client_state:
  "snd (interrupt_client J s) =
     (case js_parse J ''{}'' of
        Inl e \<Rightarrow> s\<lparr>interrupt_requested := True\<rparr>
      | Inr j \<Rightarrow> s\<lparr>interrupt_requested := True, io_stopped := True,
          queue := \<lparr>msg_json = j, msg_method = [], has_correlation_id = False, correlation_id = 0,
                    msg_params = []\<rparr> # queue s\<rparr>)"
  by (simp add: interrupt_client_def socket_do_interrupt_def bindE_def iq_push_def split: sum.splits)

lemma world_step_frame [simp]:
  "sent (world_step J e s) = sent s" "write_faults (world_step J e s) = write_faults s"
  "socket_open (world_step J e s) = socket_open s"
  by (cases e; simp add: interrupt_client_state split: sum.splits)+

lemma pump_frame [simp]:
  "sent (pump J timed ready es s) = sent s" "write_faults (pump J timed ready es s) = write_faults s"
  "socket_open (pump J timed ready es s) = socket_open s"
  by (induction J timed ready es s rule: pump.induct) simp_all

lemma pump_ready [simp]: "ready (queue s) \<Longrightarrow> pump J timed ready es s = s\<lparr>events := es\<rparr>"
  by (cases es) simp_all

text \<open>The queue only grows, at the front.\<close>

lemma world_step_queue: "\<exists>ms. queue (world_step J e s) = ms @ queue s"
  by (cases e) (auto simp: interrupt_client_state do_read_def Let_def iq_push_def split: option.splits sum.splits)

lemma pump_queue: "\<exists>ms. queue (pump J timed ready es s) = ms @ queue s"
proof (induction J timed ready es s rule: pump.induct)
  case (2 J timed ready e es s)
  obtain ms where "queue (world_step J e s) = ms @ queue s" using world_step_queue by blast
  with 2 show ?case by auto
qed simp

text \<open>A stopped receiver adds nothing.\<close>

lemma world_step_stopped:
  "io_stopped s \<Longrightarrow> e \<noteq> Interrupt \<Longrightarrow> world_step J e s = s"
  by (cases e) simp_all

section \<open>What has arrived\<close>

text \<open>The events alone, without the thread that waits: all messages that arrive stay in the queue.\<close>

definition network ::
    "'j json_api \<Rightarrow> net_event list \<Rightarrow> ('j, 'm) SocketClient_scheme \<Rightarrow> ('j, 'm) SocketClient_scheme" where
  "network J es s = foldl (\<lambda>s e. world_step J e s) s es"

lemma network_simps [simp]:
  "network J [] s = s" "network J (e # es) s = network J es (world_step J e s)"
  "network J (es @ es') s = network J es' (network J es s)"
  by (simp_all add: network_def)

lemma network_frame [simp]: "sent (network J es s) = sent s"
  by (induction es arbitrary: s) (simp_all del: world_step.simps)

text \<open>The receiver is in the same state; the queues and the sending side may differ.\<close>

definition same_link :: "('j, 'm) SocketClient_scheme \<Rightarrow> ('j, 'n) SocketClient_scheme \<Rightarrow> bool" where
  "same_link s t \<longleftrightarrow> oss s = oss t \<and> interrupt_requested s = interrupt_requested t \<and> reading s = reading t \<and>
     io_stopped s = io_stopped t \<and> terminated s = terminated t"

lemma same_link_trans: "same_link s t \<Longrightarrow> same_link t u \<Longrightarrow> same_link s u"
  by (simp add: same_link_def)

lemma do_read_link:
  "oss (do_read J error bytes s) = (if bytes = [] then oss s
     else case js_parse J (oss s @ bytes) of Inr j \<Rightarrow> [] | Inl e \<Rightarrow> oss s @ bytes)"
  "terminated (do_read J error bytes s) \<longleftrightarrow> terminated s \<or>
     (bytes \<noteq> [] \<and> (case js_parse J (oss s @ bytes) of Inr j \<Rightarrow> False | Inl e \<Rightarrow> \<not> is_parse_error e))"
  "reading (do_read J error bytes s) \<longleftrightarrow> \<not> interrupt_requested s \<and> \<not> terminated (do_read J error bytes s)"
  "queue (do_read J error bytes s) = (if bytes = [] then []
     else case js_parse J (oss s @ bytes) of Inr j \<Rightarrow> [from_json J j] | Inl e \<Rightarrow> []) @ queue s"
  by (cases "js_parse J (oss s @ bytes)"; cases error;
      simp add: do_read_def Let_def async_read_def iq_push_def split: prod.split)+

lemma world_step_link:
  assumes "same_link s t"
  shows "same_link (world_step J e s) (world_step J e t) \<and>
    (\<exists>ms. queue (world_step J e s) = ms @ queue s \<and> queue (world_step J e t) = ms @ queue t)"
proof (cases e)
  case (ReadSome error bytes)
  from assms have "oss s = oss t" by (simp add: same_link_def)
  with assms ReadSome show ?thesis by (simp add: same_link_def do_read_link cong: sum.case_cong)
next
  case Interrupt
  with assms show ?thesis by (cases "js_parse J ''{}''") (auto simp: same_link_def interrupt_client_state)
qed (use assms in simp)

lemma network_link:
  assumes "same_link s t"
  shows "same_link (network J es s) (network J es t) \<and>
    (\<exists>ms. queue (network J es s) = ms @ queue s \<and> queue (network J es t) = ms @ queue t)"
  using assms
proof (induction es arbitrary: s t)
  case (Cons e es)
  from world_step_link [OF Cons.prems, of J e] Cons.IH [of "world_step J e s" "world_step J e t"] show ?case
    by (simp del: world_step.simps) (metis append_assoc)
qed simp

text \<open>A wait lets some of the events happen and nothing else.\<close>

lemma pump_network:
  "\<exists>done rest. es = done @ rest \<and> pump J timed ready es s = (network J done s)\<lparr>events := rest\<rparr>"
proof (induction J timed ready es s rule: pump.induct)
  case (2 J timed ready e es s)
  consider "ready (queue s)" | "\<not> ready (queue s)" "timed \<and> e = Elapsed" |
    "\<not> ready (queue s)" "\<not> (timed \<and> e = Elapsed)" by blast
  then show ?case
  proof cases
    case 1
    then show ?thesis by (intro exI [where x = "[]"] exI [where x = "e # es"]) simp
  next
    case 2
    then show ?thesis by (intro exI [where x = "[e]"] exI [where x = es]) simp
  next
    case 3
    with "2.IH" obtain seen rest where "es = seen @ rest"
      "pump J timed ready es (world_step J e s) = (network J seen (world_step J e s))\<lparr>events := rest\<rparr>" by blast
    with 3 show ?thesis by (intro exI [where x = "e # seen"] exI [where x = rest]) auto
  qed
qed simp

text \<open>
  \<^verbatim>\<open>s\<close> has come from \<^verbatim>\<open>s0\<close> while the events \<^verbatim>\<open>es\<close> happened, and has only messages that have
  arrived by then, or were in the queue of \<^verbatim>\<open>s0\<close>.
\<close>

definition follows ::
    "'j json_api \<Rightarrow> net_event list \<Rightarrow> ('j, 'm) SocketClient_scheme \<Rightarrow> ('j, 'm) SocketClient_scheme \<Rightarrow> bool" where
  "follows J es s0 s \<longleftrightarrow> events s0 = es @ events s \<and> same_link (network J es s0) s \<and>
     set (queue s) \<subseteq> set (queue (network J es s0))"

lemma follows_refl: "follows J [] s s"
  by (simp add: follows_def same_link_def)

lemma follows_trans:
  assumes "follows J es s0 s" "follows J es' s t"
  shows "follows J (es @ es') s0 t \<and>
    set (queue (network J es s0)) \<union> set (queue (network J es' s)) \<subseteq> set (queue (network J (es @ es') s0))"
proof -
  from assms(1) have "same_link (network J es s0) s" by (simp add: follows_def)
  from network_link [OF this, of J es'] obtain ms where
    "same_link (network J es' (network J es s0)) (network J es' s)"
    "queue (network J es' (network J es s0)) = ms @ queue (network J es s0)"
    "queue (network J es' s) = ms @ queue s" by blast
  with assms show ?thesis using same_link_trans by (auto simp: follows_def)
qed

lemma contains_poison: "contains_msg_with_id (-1) (m # q) \<longleftrightarrow>
    \<not> has_correlation_id m \<or> contains_msg_with_id (-1) q"
  by (auto simp: contains_msg_with_id_def find_msg_with_id_def matches_id_def)

lemma contains_skip: "\<not> matches_id cid m \<Longrightarrow> contains_msg_with_id cid (m # q) = contains_msg_with_id cid q"
  by (simp add: contains_msg_with_id_def find_msg_with_id_def)

lemma contains_append: "contains_msg_with_id cid q \<Longrightarrow> contains_msg_with_id cid (ms @ q)"
  by (auto simp: contains_msg_with_id_def find_msg_end_iff simp del: length_append)

lemma queue_pop_reply_ready:
  assumes "contains_msg_with_id cid (queue (pump J False (contains_msg_with_id cid) (events s) s))"
  shows "\<exists>m s'. queue_pop_reply J cid s = (Inr m, s') \<and> matches_id cid m"
proof -
  let ?s' = "pump J False (contains_msg_with_id cid) (events s) s"
  from assms obtain m q where pop: "pop_reply cid (queue ?s') = Some (m, q)"
    by (auto simp: pop_reply_def Let_def)
  with assms iq.take_Some [OF pop] show ?thesis
    by (simp add: queue_pop_reply_def bindE_def wait_until_def Let_def)
qed

lemma queue_pop_reply_stuck:
  assumes "\<not> contains_msg_with_id cid (queue (pump J False (contains_msg_with_id cid) (events s) s))"
  shows "fst (queue_pop_reply J cid s) = Inl NeverReturns"
  using assms by (simp add: queue_pop_reply_def bindE_def wait_until_def Let_def)

section \<open>Reassembly of messages\<close>

text \<open>
  The parser does not accept the text, and the exception is the one the receiver catches. A text is
  hopeless if no continuation of it parses.
\<close>

definition unfinished :: "'j json_api \<Rightarrow> string \<Rightarrow> bool" where
  "unfinished J t \<longleftrightarrow> (case js_parse J t of Inl e \<Rightarrow> is_parse_error e | Inr j \<Rightarrow> False)"

definition hopeless_text :: "'j json_api \<Rightarrow> string \<Rightarrow> bool" where
  "hopeless_text J t \<longleftrightarrow> (\<forall>rest. \<exists>e. js_parse J (t @ rest) = Inl e)"

text \<open>
  The reads turn what is in the buffer into one message: they are not empty, what has been read is
  unfinished after each of them but the last, and after the last it is the text of \<^verbatim>\<open>j\<close> (with
  the newline the server ends it with, or without).
\<close>

fun assembles :: "'j json_api \<Rightarrow> string \<Rightarrow> string list \<Rightarrow> 'j \<Rightarrow> bool" where
  "assembles J buf [] j = False"
| "assembles J buf (c # cs) j \<longleftrightarrow> c \<noteq> [] \<and>
     (if cs = [] then js_parse J (buf @ c) = Inr j else unfinished J (buf @ c) \<and> assembles J (buf @ c) cs j)"

definition message_reads :: "'j json_api \<Rightarrow> string list \<Rightarrow> 'j \<Rightarrow> bool" where
  "message_reads J reads j = assembles J [] reads j"

text \<open>It is enough that no shorter beginning of the text parses: then the cuts do not matter. And a
  text that arrives in one read only has to parse.\<close>

definition complete_text :: "'j json_api \<Rightarrow> string \<Rightarrow> 'j \<Rightarrow> bool" where
  "complete_text J t j \<longleftrightarrow> js_parse J t = Inr j \<and> (\<forall>n < length t. unfinished J (take n t))"

lemma complete_text_assembles:
  assumes "complete_text J (buf @ concat chunks) j" "chunks \<noteq> []" "[] \<notin> set chunks"
  shows "assembles J buf chunks j"
  using assms
proof (induction chunks arbitrary: buf)
  case Nil
  then show ?case by simp
next
  case (Cons c cs)
  have "unfinished J (buf @ c)" if "cs \<noteq> []"
  proof -
    from that Cons.prems(3) have "length (buf @ c) < length (buf @ concat (c # cs))" by (cases cs) auto
    with Cons.prems(1) have "unfinished J (take (length (buf @ c)) (buf @ concat (c # cs)))"
      unfolding complete_text_def by blast
    then show ?thesis by simp
  qed
  with Cons.IH [of "buf @ c"] Cons.prems show ?case by (auto simp: complete_text_def)
qed

lemma complete_message_reads:
  "complete_text J (concat reads) j \<Longrightarrow> reads \<noteq> [] \<Longrightarrow> [] \<notin> set reads \<Longrightarrow> message_reads J reads j"
  unfolding message_reads_def by (rule complete_text_assembles) simp_all

text \<open>A receiver that works: a read is outstanding and handlers run.\<close>

definition receiving :: "('j, 'm) SocketClient_scheme \<Rightarrow> bool" where
  "receiving s \<longleftrightarrow> reading s \<and> \<not> io_stopped s \<and> \<not> interrupt_requested s \<and> \<not> terminated s"

definition receive_chunks ::
    "'j json_api \<Rightarrow> string list \<Rightarrow> ('j, 'm) SocketClient_scheme \<Rightarrow> ('j, 'm) SocketClient_scheme" where
  "receive_chunks J chunks s = foldl (\<lambda>s c. world_step J (ReadSome None c) s) s chunks"

lemma receive_last:
  assumes "receiving s" "c \<noteq> []" "js_parse J (oss s @ c) = Inr j"
  shows "receiving (world_step J (ReadSome None c) s) \<and>
    queue (world_step J (ReadSome None c) s) = from_json J j # queue s \<and>
    oss (world_step J (ReadSome None c) s) = []"
  using assms by (simp add: receiving_def do_read_def Let_def async_read_def iq_push_def)

lemma receive_part:
  assumes "receiving s" "c \<noteq> []" "unfinished J (oss s @ c)"
  shows "receiving (world_step J (ReadSome None c) s) \<and>
    queue (world_step J (ReadSome None c) s) = queue s \<and>
    oss (world_step J (ReadSome None c) s) = oss s @ c"
  using assms by (cases "js_parse J (oss s @ c)") (simp_all add: receiving_def do_read_def Let_def async_read_def unfinished_def)

lemma receive_chunks_message:
  assumes "assembles J (oss s) chunks j" "receiving s"
  shows "queue (receive_chunks J chunks s) = from_json J j # queue s \<and>
    oss (receive_chunks J chunks s) = [] \<and> receiving (receive_chunks J chunks s)"
  using assms
proof (induction chunks arbitrary: s)
  case Nil
  then show ?case by simp
next
  case (Cons c cs)
  let ?s1 = "world_step J (ReadSome None c) s"
  have step: "receive_chunks J (c # cs) s = receive_chunks J cs ?s1" by (simp add: receive_chunks_def)
  show ?case
  proof (cases "cs = []")
    case True
    with Cons.prems receive_last [of s c J j] step show ?thesis by (simp add: receive_chunks_def)
  next
    case False
    with Cons.prems receive_part [of s c J]
    have s1: "receiving ?s1" "queue ?s1 = queue s" "oss ?s1 = oss s @ c" by simp_all
    with Cons.IH [of ?s1] Cons.prems False step show ?thesis by simp
  qed
qed

lemma pump_hopeless:
  assumes "hopeless_text J (oss s)" "Interrupt \<notin> set es"
  shows "queue (pump J timed ready es s) = queue s"
  using assms
proof (induction J timed ready es s rule: pump.induct)
  case (2 J timed ready e es s)
  have step: "queue (world_step J e s) = queue s \<and> hopeless_text J (oss (world_step J e s))"
  proof (cases e)
    case (ReadSome error bytes)
    from "2.prems"(1) obtain err where "js_parse J (oss s @ bytes) = Inl err"
      unfolding hopeless_text_def by blast
    moreover from "2.prems"(1) have "hopeless_text J (oss s @ bytes)"
      unfolding hopeless_text_def by (metis append_assoc)
    ultimately show ?thesis
      using "2.prems"(1) ReadSome by (simp add: do_read_def Let_def split: option.splits)
  qed (use "2.prems" in auto)
  with 2 show ?case by auto
qed simp

lemma pump_stopped:
  assumes "io_stopped s" "Interrupt \<notin> set es"
  shows "queue (pump J timed ready es s) = queue s"
  using assms by (induction J timed ready es s rule: pump.induct) (auto simp: world_step_stopped)

text \<open>As long as the parser throws nothing but parse errors, the process goes on.\<close>

definition parse_errors_only :: "'j json_api \<Rightarrow> bool" where
  "parse_errors_only J \<longleftrightarrow> (\<forall>t e. js_parse J t = Inl e \<longrightarrow> is_parse_error e)"

lemma world_step_goes_on:
  assumes "parse_errors_only J" "\<not> terminated s" shows "\<not> terminated (world_step J e s)"
  using assms
  by (cases e) (auto simp: interrupt_client_state do_read_def Let_def parse_errors_only_def split: option.splits sum.splits)

lemma pump_interrupt:
  assumes "js_parse J ''{}'' = Inr j" "Interrupt \<in> set es" "parse_errors_only J" "\<not> terminated s"
  shows "contains_msg_with_id (-1) (queue (pump J False (contains_msg_with_id (-1)) es s))"
  using assms(2,4)
proof (induction es arbitrary: s)
  case (Cons e es)
  show ?case
  proof (cases "contains_msg_with_id (-1) (queue s) \<or> e \<noteq> Interrupt")
    case True
    with Cons world_step_goes_on [OF assms(3)] show ?thesis by auto
  next
    case False
    with Cons.prems have "contains_msg_with_id (-1) (queue (world_step J e s))"
      using assms(1) by (simp add: interrupt_client_state contains_poison)
    with False show ?thesis by simp
  qed
qed simp

lemma fst_bindE_Inl: "fst (m s) = Inl e \<Longrightarrow> fst (bindE m f s) = Inl e"
  by (cases "m s") simp

text \<open>An exception of the parser other than a parse error ends the process: no wait returns any more.\<close>

lemma pump_terminated:
  "terminated s \<Longrightarrow> terminated (pump J timed ready es s) \<and> queue (pump J timed ready es s) = queue s"
proof (induction J timed ready es s rule: pump.induct)
  case (2 J timed ready e es s)
  then have "world_step J e s = s" by (cases e) simp_all
  with 2 show ?case by auto
qed simp

lemma other_exception_ends_process:
  assumes "receiving s" "bytes \<noteq> []" "js_parse J (oss s @ bytes) = Inl e" "\<not> is_parse_error e"
    and "\<not> contains_msg_with_id cid (queue s)" "events s = ReadSome None bytes # es"
  shows "fst (receive_response J cid s) = Inl NeverReturns"
proof -
  let ?s1 = "world_step J (ReadSome None bytes) s"
  have s1: "terminated ?s1" "queue ?s1 = queue s"
    using assms(1-4) by (simp_all add: receiving_def do_read_link)
  have "pump J False (contains_msg_with_id cid) (events s) s = pump J False (contains_msg_with_id cid) es ?s1"
    using assms(5,6) by (simp del: world_step.simps)
  with pump_terminated [OF s1(1)] s1(2) assms(5) have "fst (queue_pop_reply J cid s) = Inl NeverReturns"
    by (intro queue_pop_reply_stuck) simp
  then show ?thesis by (simp add: receive_response_def fst_bindE_Inl)
qed

section \<open>Properties\<close>

text \<open>
  C17. However the network cuts a stream of messages into reads, as long as no read contains parts
  of two messages and no message parses before its last read, the receiver delivers exactly these
  messages, once each and in the order of the stream (the queue keeps the newest in front).
\<close>

theorem messages_reassembled:
  assumes "receiving s" "oss s = []"
    and "list_all2 (message_reads J) chunkss js"
  shows "queue (receive_chunks J (concat chunkss) s) = rev (map (from_json J) js) @ queue s \<and>
    oss (receive_chunks J (concat chunkss) s) = []"
  using assms(3,1,2)
proof (induction chunkss js arbitrary: s rule: list_all2_induct)
  case Nil
  then show ?case by (simp add: receive_chunks_def)
next
  case (Cons chunks chunkss j js)
  let ?s1 = "receive_chunks J chunks s"
  from Cons.hyps(1) Cons.prems receive_chunks_message [of J s chunks j]
  have "queue ?s1 = from_json J j # queue s" "oss ?s1 = []" "receiving ?s1" by (simp_all add: message_reads_def)
  with Cons.IH [of ?s1] show ?case by (simp add: receive_chunks_def)
qed

definition sample_socket :: "json SocketClient" where
  "sample_socket = \<lparr>queue = [], oss = [], interrupt_requested = False, error_callbacks = [],
     error_log = [], reading = True, io_stopped = False, terminated = False, socket_open = True, write_faults = [],
     sent = [], events = []\<rparr>"

lemma sample_complete: "complete_text sample_json ''{7}'' (JObject [(''id'', JInt 7), (''result'', JString ''7'')])"
proof -
  have "unfinished sample_json (take n ''{7}'')" if "n < 3" for n
  proof -
    from that have "n = 0 \<or> n = 1 \<or> n = 2" by arith
    then show ?thesis by (auto simp: unfinished_def sample_json_def sample_parse_def numeral_2_eq_2)
  qed
  then show ?thesis
    by (simp add: complete_text_def) (simp add: sample_json_def sample_parse_def undigit_def)
qed

theorem messages_reassembled_witness:
  "queue (receive_chunks sample_json [''{'', ''7'', ''}'', ''{7}''] sample_socket) =
     [from_json sample_json (JObject [(''id'', JInt 7), (''result'', JString ''7'')]),
      from_json sample_json (JObject [(''id'', JInt 7), (''result'', JString ''7'')])]"
  using messages_reassembled [where s = sample_socket and J = sample_json
      and chunkss = "[[''{'', ''7'', ''}''], [''{7}'']]"
      and js = "[JObject [(''id'', JInt 7), (''result'', JString ''7'')], JObject [(''id'', JInt 7), (''result'', JString ''7'')]]"]
    complete_message_reads [of sample_json "[''{'', ''7'', ''}'']"] complete_message_reads [of sample_json "[''{7}'']"]
    sample_complete
  by (simp add: receiving_def sample_socket_def)

text \<open>
  C36. When one read delivers the end of a message together with the beginning of the next one
  (or the buffer holds any other text that no continuation turns into JSON), the receiver is
  dead: whatever arrives later, no message reaches the queue any more, and a request whose
  reply is not queued yet never returns.
\<close>

theorem coalesced_replies_block:
  assumes "hopeless_text J (oss s)" "Interrupt \<notin> set (events s)"
    and "\<not> contains_msg_with_id cid (queue s)"
  shows "fst (receive_response J cid s) = Inl NeverReturns \<and>
    queue (pump J timed ready (events s) s) = queue s"
proof -
  have keep: "queue (pump J t r (events s) s) = queue s" for t r
    using pump_hopeless [OF assms(1,2)] .
  with assms(3) have "fst (queue_pop_reply J cid s) = Inl NeverReturns"
    by (intro queue_pop_reply_stuck) simp
  then have "fst (receive_response J cid s) = Inl NeverReturns"
    by (simp add: receive_response_def fst_bindE_Inl)
  with keep show ?thesis by simp
qed

theorem coalesced_replies_block_witness:
  "fst (receive_response sample_json 1
     (world_step sample_json (ReadSome None ''{1}{2}'')
        (sample_socket\<lparr>events := [ReadSome None ''{3}'', ReadSome None ''{1}'']\<rparr>))) = Inl NeverReturns"
proof (rule coalesced_replies_block [THEN conjunct1])
  show "hopeless_text sample_json (oss (world_step sample_json (ReadSome None ''{1}{2}'')
        (sample_socket\<lparr>events := [ReadSome None ''{3}'', ReadSome None ''{1}'']\<rparr>)))"
    by (simp add: sample_socket_def do_read_def hopeless_text_def sample_json_def sample_parse_def
        split: list.splits)
qed (simp_all add: sample_socket_def do_read_def sample_json_def sample_parse_def async_read_def
      contains_msg_with_id_def find_msg_with_id_def)

text \<open>
  An interrupt ends the wait of the thread that listens for subscription events, whatever
  else happens on the connection before and after it, as long as no exception ends the process.
\<close>

theorem interrupt_wakes_listener:
  assumes "js_parse J ''{}'' = Inr j" "Interrupt \<in> set (events s)" "parse_errors_only J" "\<not> terminated s"
  shows "\<exists>m s'. socket_get_subscription_event J s = (Inr m, s') \<and> \<not> has_correlation_id m"
proof -
  have "contains_msg_with_id (-1) (queue (pump J False (contains_msg_with_id (-1)) (events s) s))"
    by (rule pump_interrupt [OF assms])
  from queue_pop_reply_ready [OF this] show ?thesis
    by (auto simp: socket_get_subscription_event_def matches_id_def)
qed

theorem interrupt_wakes_listener_witness:
  "\<exists>m s'. socket_get_subscription_event sample_json
     (sample_socket\<lparr>events := [ReadSome (Some (104, ''reset'')) [], Interrupt]\<rparr>) = (Inr m, s') \<and>
     \<not> has_correlation_id m"
proof (rule interrupt_wakes_listener [where j = "JObject []"])
  show "parse_errors_only sample_json"
    by (auto simp: parse_errors_only_def sample_json_def sample_parse_def split: list.splits if_splits)
qed (simp_all add: sample_json_def sample_parse_def sample_socket_def)

text \<open>
  The same interrupt strands every thread that waits for the reply to a request: it stops
  the handlers, and the message it puts into the queue has no correlation id, so the wait never
  ends, although the server's reply may be the very next thing that arrives.
\<close>

theorem interrupt_strands_requests:
  assumes "js_parse J ''{}'' = Inr j" "0 \<le> cid" "\<not> contains_msg_with_id cid (queue s)"
    and "events s = Interrupt # es" "Interrupt \<notin> set es" "\<not> terminated s"
  shows "fst (receive_response J cid s) = Inl NeverReturns"
proof -
  let ?s1 = "world_step J Interrupt s"
  have s1: "io_stopped ?s1" "\<not> contains_msg_with_id cid (queue ?s1)"
    using assms(1-3,6) by (simp_all add: interrupt_client_state contains_skip matches_id_def)
  have "pump J False (contains_msg_with_id cid) (events s) s = pump J False (contains_msg_with_id cid) es ?s1"
    using assms(3,4) by simp
  with s1 pump_stopped [OF s1(1) assms(5)] have "fst (queue_pop_reply J cid s) = Inl NeverReturns"
    by (intro queue_pop_reply_stuck) simp
  then show ?thesis by (simp add: receive_response_def fst_bindE_Inl)
qed

theorem interrupt_strands_requests_witness:
  "fst (receive_response sample_json 1 (sample_socket\<lparr>events := [Interrupt, ReadSome None ''{1}'']\<rparr>))
     = Inl NeverReturns"
  by (rule interrupt_strands_requests [where j = "JObject []" and es = "[ReadSome None ''{1}'']"])
     (simp_all add: sample_json_def sample_parse_def sample_socket_def contains_msg_with_id_def
        find_msg_with_id_def)

text \<open>
  Routing: a reply with a non-negative id answers the request with that id and no other
  wait, and a message without an id reaches only the readers of subscription events.
\<close>

theorem from_json_routes:
  assumes "json_documented J"
    and "map_of reply ''id'' = Some (js_int J n)" "0 \<le> n" "n < 2 ^ 31"
    and "map_of event ''id'' = None"
  shows "(matches_id cid (from_json J (js_object J reply)) \<longleftrightarrow> cid = n) \<and>
    (matches_id cid (from_json J (js_object J event)) \<longleftrightarrow> cid < 0)"
proof -
  have "at_get J (js_get_int J) (js_object J reply) ''id'' = Inr n"
    using assms by (simp add: at_get_member json_facts)
  moreover obtain m where "at_get J (js_get_int J) (js_object J event) ''id'' = Inl (LibraryException m)"
    using at_get_missing [OF assms(1,5)] by blast
  ultimately show ?thesis
    using assms(3) by (auto simp: matches_id_def from_json_def)
qed

theorem from_json_routes_witness:
  "(matches_id 5 (from_json sample_json (js_object sample_json [(''result'', JNull), (''id'', JInt 5)])) \<longleftrightarrow>
     (5 :: int) = 5) \<and>
   (matches_id 5 (from_json sample_json (js_object sample_json [(''method'', JString ''m'')])) \<longleftrightarrow> (5 :: int) < 0)"
  by (rule from_json_routes [OF sample_json_documented]) (simp_all add: sample_json_def)

end
