(* ===== verification/RonghuaClient.thy ===== *)
theory RonghuaClient
  imports SocketClient
begin

text \<open>
  \<^verbatim>\<open>src/ronghuaclient/ronghua_client.cpp\<close>: the Electrum client. Every operation numbers its
  request, sends it through the socket client, and reads the reply to that number. The state
  extends that of the socket client: the \<^verbatim>\<open>RonghuaClient\<close> object owns the members the socket
  client refers to.
\<close>

section \<open>State\<close>

text \<open>\<^verbatim>\<open>client_set\<close>: \<^verbatim>\<open>client_\<close> is not null. \<^verbatim>\<open>id_counter\<close> is an atomic C \<^verbatim>\<open>int\<close>.\<close>

record 'j RonghuaClient = "'j SocketClient" +
  client_set :: bool
  id_counter :: int

text \<open>The constructor; \<^verbatim>\<open>faults\<close> and \<^verbatim>\<open>script\<close> are the world the object is born into.\<close>

definition RonghuaClient_new :: "string option list \<Rightarrow> net_event list \<Rightarrow> 'j RonghuaClient" where
  "RonghuaClient_new faults script =
    \<lparr>queue = [], oss = [], interrupt_requested = False, error_callbacks = [], error_log = [],
     reading = False, io_stopped = False, terminated = False, socket_open = False, write_faults = faults, sent = [],
     events = script, client_set = False, id_counter = 0\<rparr>"

text \<open>
  \<^verbatim>\<open>init\<close>: \<^verbatim>\<open>resolved\<close> says whether the name resolves, \<^verbatim>\<open>certificate\<close> is the outcome of
  \<^verbatim>\<open>load_verify_file\<close>, the last two are the outcomes of connecting and of the handshake.
  \<^verbatim>\<open>io_context_->run()\<close> returns when connecting is over and leaves the context stopped.
\<close>

definition client_init ::
    "bool \<Rightarrow> unit result \<Rightarrow> (int \<times> string) option \<Rightarrow> (int \<times> string) option \<Rightarrow>
     ('j RonghuaClient, bool) exec" where
  "client_init resolved certificate connected shaken =
     (if \<not> resolved then ret False
      else bindE (liftR certificate) (\<lambda>_.
           bindE (modifyS (\<lambda>s. SocketClient_new connected shaken (s\<lparr>client_set := True\<rparr>))) (\<lambda>_.
           bindE (modifyS (\<lambda>s. s\<lparr>io_stopped := True\<rparr>)) (\<lambda>_.
           bindE (modifyS run_receiving_loop) (\<lambda>_. ret True)))))"

text \<open>Using \<^verbatim>\<open>client_\<close> while it is null is undefined behaviour.\<close>

definition with_client :: "('j RonghuaClient, 'a) exec \<Rightarrow> ('j RonghuaClient, 'a) exec" where
  "with_client m = bindE (getS client_set) (\<lambda>ok. if ok then m else throw UndefinedBehaviour)"

definition client_stop :: "('j RonghuaClient, unit) exec" where
  "client_stop = with_client (modifyS (\<lambda>s. (socket_stop s)\<lparr>io_stopped := True\<rparr>))"

definition client_do_interrupt :: "'j json_api \<Rightarrow> ('j RonghuaClient, unit) exec" where
  "client_do_interrupt J =
     bindE (modifyS (\<lambda>s. s\<lparr>interrupt_requested := True\<rparr>)) (\<lambda>_. with_client (socket_do_interrupt J))"

definition client_get_subscription_event ::
    "'j json_api \<Rightarrow> ('j RonghuaClient, 'j ElectrumMessage) exec" where
  "client_get_subscription_event J = with_client (socket_get_subscription_event J)"

definition subscribe_to_error_events :: "nat \<Rightarrow> ('j RonghuaClient, unit) exec" where
  "subscribe_to_error_events f = modifyS (\<lambda>s. s\<lparr>error_callbacks := error_callbacks s @ [f]\<rparr>)"

definition clear_error_events_subscriptions :: "('j RonghuaClient, unit) exec" where
  "clear_error_events_subscriptions = modifyS (\<lambda>s. s\<lparr>error_callbacks := []\<rparr>)"

section \<open>Requests and replies\<close>

text \<open>\<^verbatim>\<open>++id_counter\<close> on a \<^verbatim>\<open>std::atomic<int>\<close> wraps around.\<close>

definition next_id :: "('j RonghuaClient, int) exec" where
  "next_id = (\<lambda>s. let n = wrap_int (id_counter s + 1) in (Inr n, s\<lparr>id_counter := n\<rparr>))"

definition send_request :: "'j json_api \<Rightarrow> 'j \<Rightarrow> int \<Rightarrow> ('j RonghuaClient, 'j) exec" where
  "send_request J json_request cid =
     with_client (bindE (socket_send_request J json_request) (\<lambda>_. receive_response J cid))"

definition send_request_no_response :: "'j json_api \<Rightarrow> 'j \<Rightarrow> int \<Rightarrow> ('j RonghuaClient, int) exec" where
  "send_request_no_response J json_request cid =
     with_client (bindE (socket_send_request J json_request) (\<lambda>_. ret cid))"

definition send_request_eat_response :: "'j json_api \<Rightarrow> 'j \<Rightarrow> int \<Rightarrow> ('j RonghuaClient, unit) exec" where
  "send_request_eat_response J json_request cid =
     with_client (bindE (socket_send_request J json_request) (\<lambda>_. eat_response J cid))"

text \<open>
  Turns a failure and the reply read so far into the exception that is thrown. (\<^verbatim>\<open>dump\<close> in the
  handler may throw in turn; then it is that exception.)
\<close>

definition process_exception :: "'j json_api \<Rightarrow> bing_error \<Rightarrow> 'j \<Rightarrow> string \<Rightarrow> 'a result" where
  "process_exception J e response msg =
     (if js_is_empty J response then Inl (InvalidArgument (msg @ '' failed: '' @ what e))
      else (case bindR (js_at J response ''error'') (\<lambda>err. at_get J (js_get_string J) err ''message'') of
              Inr m \<Rightarrow> Inl (InvalidArgument m)
            | Inl e2 \<Rightarrow> bindR (dump_json J response) (\<lambda>d.
                Inl (InvalidArgument (msg @ '' failed: '' @ d @ '' '' @ what e2)))))"

text \<open>
  The \<^verbatim>\<open>try\<close> block of the single requests: send, then read the reply with \<^verbatim>\<open>parse\<close>, which also
  says what the reply is afterwards (\<^verbatim>\<open>operator[]\<close> inserts missing members). The handler sees
  the reply as it was when the exception was thrown, a null value before it was received.
\<close>

definition handle_exception :: "'j json_api \<Rightarrow> string \<Rightarrow> bing_error \<Rightarrow> 'j \<Rightarrow> 'a result" where
  "handle_exception J msg e response = (if is_exception e then process_exception J e response msg else Inl e)"

definition try_request ::
    "'j json_api \<Rightarrow> string \<Rightarrow> 'j \<Rightarrow> ('j \<Rightarrow> 'a result \<times> 'j) \<Rightarrow> ('j RonghuaClient, 'a) exec" where
  "try_request J msg json_request parse = (\<lambda>s.
     case send_request J json_request (id_counter s) s of
       (Inl e, s') \<Rightarrow> (handle_exception J msg e (js_null J), s')
     | (Inr json_response, s') \<Rightarrow>
         (case parse json_response of
            (Inr x, _) \<Rightarrow> (Inr x, s')
          | (Inl e, response') \<Rightarrow> (handle_exception J msg e response', s')))"

text \<open>A request: number, serialise, try.\<close>

definition request_result ::
    "'j json_api \<Rightarrow> string \<Rightarrow> string list \<Rightarrow> ('j \<Rightarrow> 'a result \<times> 'j) \<Rightarrow> ('j RonghuaClient, 'a) exec" where
  "request_result J rpc av parse =
     bindE next_id (\<lambda>n.
       try_request J rpc (electrum_request_to_json J \<lparr>rq_method = rpc, rq_id = n, rq_params = av\<rparr>) parse)"

text \<open>The two ways of reading the result: \<^verbatim>\<open>json_response["result"]\<close> and
  \<^verbatim>\<open>json_response.at("result")\<close>.\<close>

definition index_result :: "'j json_api \<Rightarrow> ('j \<Rightarrow> 'a result) \<Rightarrow> 'j \<Rightarrow> 'a result \<times> 'j" where
  "index_result J read r = (case js_index J r ''result'' of (v, r') \<Rightarrow> (bindR v read, r'))"

definition at_result :: "'j json_api \<Rightarrow> ('j \<Rightarrow> 'a result) \<Rightarrow> 'j \<Rightarrow> 'a result \<times> 'j" where
  "at_result J read r = (at_get J read r ''result'', r)"

section \<open>The single operations\<close>

definition getHistory ::
    "'j json_api \<Rightarrow> AddressHistoryItem \<Rightarrow> string \<Rightarrow> ('j RonghuaClient, AddressHistory) exec" where
  "getHistory J ahi0 address =
     request_result J ''blockchain.scripthash.get_history'' [address]
       (index_result J (\<lambda>v. address_history_from_json J ahi0 v []))"

definition getUtxos :: "'j json_api \<Rightarrow> string \<Rightarrow> ('j RonghuaClient, Utxo list) exec" where
  "getUtxos J scripthash =
     request_result J ''blockchain.scripthash.listunspent'' [scripthash]
       (\<lambda>r. case js_index J r ''result'' of
              (Inl e, r') \<Rightarrow> (Inl e, r')
            | (Inr v, r') \<Rightarrow>
                (if js_is_null J v then (Inr [], r')
                 else at_result J (\<lambda>v. utxos_from_json J v []) r'))"

definition getTransaction :: "'j json_api \<Rightarrow> string \<Rightarrow> ('j RonghuaClient, string) exec" where
  "getTransaction J txid =
     (if txid = [] then throw (InvalidArgument ''getTransaction txid is empty'')
      else request_result J ''blockchain.transaction.get'' [txid] (at_result J (js_get_string J)))"

definition getBalance :: "'j json_api \<Rightarrow> string \<Rightarrow> ('j RonghuaClient, AddressBalance) exec" where
  "getBalance J address =
     request_result J ''blockchain.scripthash.get_balance'' [address]
       (index_result J (address_balance_from_json J))"

definition getBlockHeader :: "'j json_api \<Rightarrow> int \<Rightarrow> ('j RonghuaClient, string) exec" where
  "getBlockHeader J h =
     request_result J ''blockchain.block.header'' [dec_int h, ''0''] (at_result J (js_get_string J))"

definition estimateFee :: "'j json_api \<Rightarrow> int \<Rightarrow> ('j RonghuaClient, u64) exec" where
  "estimateFee J wait_blocks =
     request_result J ''blockchain.estimatefee'' [dec_int wait_blocks] (at_result J (js_get_double J))"

definition broadcastTransaction :: "'j json_api \<Rightarrow> string \<Rightarrow> ('j RonghuaClient, string) exec" where
  "broadcastTransaction J tx_hex =
     request_result J ''blockchain.transaction.broadcast'' [tx_hex] (at_result J (js_get_string J))"

text \<open>The handler of \<^verbatim>\<open>getVersion\<close> names the broadcast request.\<close>

definition getVersion ::
    "'j json_api \<Rightarrow> string \<Rightarrow> string list \<Rightarrow> ('j RonghuaClient, string list) exec" where
  "getVersion J client_name protocol_min_max =
     bindE next_id (\<lambda>n.
       try_request J ''blockchain.transaction.broadcast''
         (electrum_version_request_to_json J \<lparr>vr_method = ''server.version'', vr_id = n,
            vr_param1 = client_name, vr_param2 = protocol_min_max\<rparr>)
         (at_result J (js_get_strings J)))"

definition eat_request :: "'j json_api \<Rightarrow> string \<Rightarrow> string list \<Rightarrow> ('j RonghuaClient, unit) exec" where
  "eat_request J rpc av =
     bindE next_id (\<lambda>n. bindE (getS id_counter) (\<lambda>cid.
       send_request_eat_response J
         (electrum_request_to_json J \<lparr>rq_method = rpc, rq_id = n, rq_params = av\<rparr>) cid))"

definition scripthashSubscribe :: "'j json_api \<Rightarrow> string \<Rightarrow> ('j RonghuaClient, unit) exec" where
  "scripthashSubscribe J scripthash = eat_request J ''blockchain.scripthash.subscribe'' [scripthash]"

definition ping :: "'j json_api \<Rightarrow> ('j RonghuaClient, unit) exec" where
  "ping J = eat_request J ''server.ping'' []"

definition scripthashSubscribeBulk :: "string list \<Rightarrow> ('j RonghuaClient, unit) exec" where
  "scripthashSubscribeBulk scripthashes =
     throw (InvalidArgument ''scripthashSubscribeBulk not implemented'')"

definition getServerPeers :: "('j RonghuaClient, ServerInfo list) exec" where
  "getServerPeers = throw (InvalidArgument ''getServerPeers not implemented'')"

section \<open>The bulk operations\<close>

text \<open>One request per element, all sent before any reply is read.\<close>

definition send_one ::
    "'j json_api \<Rightarrow> string \<Rightarrow> string \<Rightarrow> int list \<Rightarrow> ('j RonghuaClient, int list) exec" where
  "send_one J rpc x ids =
     bindE next_id (\<lambda>n. bindE (getS id_counter) (\<lambda>cid.
     bindE (send_request_no_response J
              (electrum_request_to_json J \<lparr>rq_method = rpc, rq_id = n, rq_params = [x]\<rparr>) cid) (\<lambda>i.
     ret (ids @ [i]))))"

definition send_all :: "'j json_api \<Rightarrow> string \<Rightarrow> string list \<Rightarrow> ('j RonghuaClient, int list) exec" where
  "send_all J rpc xs = foldE (send_one J rpc) xs []"

text \<open>The loop over the replies, each read in a \<^verbatim>\<open>try\<close> block of its own.\<close>

definition read_all ::
    "'j json_api \<Rightarrow> string \<Rightarrow> ('j \<Rightarrow> 'a result \<times> 'j) \<Rightarrow> 'j list \<Rightarrow> 'a list \<Rightarrow> 'a list result" where
  "read_all J rpc parse responses acc =
     foldR (\<lambda>r acc'. case parse r of
        (Inr x, _) \<Rightarrow> Inr (acc' @ [x])
      | (Inl e, r') \<Rightarrow> handle_exception J rpc e r') responses acc"

definition do_bulk ::
    "'j json_api \<Rightarrow> string \<Rightarrow> ('j \<Rightarrow> 'a result \<times> 'j) \<Rightarrow> string list \<Rightarrow> 'a list \<Rightarrow>
     ('j RonghuaClient, 'a list) exec" where
  "do_bulk J rpc parse xs acc =
     bindE (send_all J rpc xs) (\<lambda>ids.
     bindE (with_client (receive_response_bulk J ids)) (\<lambda>responses.
     liftR (read_all J rpc parse responses acc)))"

definition doGetHistoryBulk ::
    "'j json_api \<Rightarrow> AddressHistoryItem \<Rightarrow> string list \<Rightarrow> AddressHistory list \<Rightarrow>
     ('j RonghuaClient, AddressHistory list) exec" where
  "doGetHistoryBulk J ahi0 =
     do_bulk J ''blockchain.scripthash.get_history''
       (index_result J (\<lambda>v. address_history_from_json J ahi0 v []))"

definition doGetTransactionBulk ::
    "'j json_api \<Rightarrow> string list \<Rightarrow> string list \<Rightarrow> ('j RonghuaClient, string list) exec" where
  "doGetTransactionBulk J =
     do_bulk J ''blockchain.transaction.get'' (at_result J (js_get_string J))"

text \<open>
  The \<^verbatim>\<open>while\<close> loop around a bulk step asks again for everything that is still missing; it may
  run forever, which is the value \<^verbatim>\<open>None\<close>.
\<close>

partial_function (option) bulk_loop ::
    "(string list \<Rightarrow> 'a list \<Rightarrow> ('s, 'a list) exec) \<Rightarrow> nat \<Rightarrow> string list \<Rightarrow> 'a list \<Rightarrow> 's \<Rightarrow>
     ('a list result \<times> 's) option" where
  "bulk_loop step chunk_factor xs acc s =
     (if length acc < length xs then
        (case step (take chunk_factor (drop (length acc) xs)) acc s of
           (Inl e, s') \<Rightarrow> Some (Inl e, s')
         | (Inr acc', s') \<Rightarrow> bulk_loop step chunk_factor xs acc' s')
      else Some (Inr acc, s))"

declare bulk_loop.simps [code]

definition run_bulk ::
    "(string list \<Rightarrow> 'a list \<Rightarrow> ('s, 'a list) exec) \<Rightarrow> nat \<Rightarrow> string list \<Rightarrow> ('s, 'a list) exec" where
  "run_bulk step chunk_factor xs = (\<lambda>s.
     case bulk_loop step chunk_factor xs [] s of None \<Rightarrow> (Inl NeverReturns, s) | Some p \<Rightarrow> p)"

definition getHistoryBulk ::
    "'j json_api \<Rightarrow> AddressHistoryItem \<Rightarrow> string list \<Rightarrow> 'j RonghuaClient ProgressCallback list \<Rightarrow>
     ('j RonghuaClient, AddressHistory list) exec" where
  "getHistoryBulk J ahi0 addresses progress_callbacks = run_bulk (doGetHistoryBulk J ahi0) 25 addresses"

definition getTransactionBulk ::
    "'j json_api \<Rightarrow> string list \<Rightarrow> 'j RonghuaClient ProgressCallback list \<Rightarrow>
     ('j RonghuaClient, string list) exec" where
  "getTransactionBulk J txids progress_callbacks = run_bulk (doGetTransactionBulk J) 100 txids"

section \<open>The client as an Electrum interface\<close>

definition ronghua_interface ::
    "'j json_api \<Rightarrow> AddressHistoryItem \<Rightarrow> ('j, 'j RonghuaClient) ElectrumInterface" where
  "ronghua_interface J ahi0 =
    \<lparr>ei_scripthashSubscribe = scripthashSubscribe J,
     ei_scripthashSubscribeBulk = scripthashSubscribeBulk,
     ei_getHistory = getHistory J ahi0, ei_getHistoryBulk = getHistoryBulk J ahi0,
     ei_getTransaction = getTransaction J, ei_getTransactionBulk = getTransactionBulk J,
     ei_getBalance = getBalance J, ei_getBlockHeader = getBlockHeader J, ei_getUtxos = getUtxos J,
     ei_getServerPeers = getServerPeers, ei_estimateFee = estimateFee J,
     ei_broadcastTransaction = broadcastTransaction J, ei_ping = ping J,
     ei_getVersion = getVersion J,
     ei_get_subscription_event = client_get_subscription_event J,
     ei_do_interrupt = client_do_interrupt J, ei_stop = client_stop,
     ei_subscribe_to_error_events = subscribe_to_error_events,
     ei_clear_error_events_subscriptions = clear_error_events_subscriptions\<rparr>"


section \<open>Facts about sending\<close>

lemma with_client_eval: "with_client m s = (if client_set s then m s else (Inl UndefinedBehaviour, s))"
  by (simp add: with_client_def)

text \<open>The bytes of a request on the wire.\<close>

definition request_text :: "'j json_api \<Rightarrow> string \<Rightarrow> string \<Rightarrow> int \<Rightarrow> string" where
  "request_text J rpc x n = takeWhile (\<lambda>c. c \<noteq> CHR 0x00)
     (js_dump J (electrum_request_to_json J \<lparr>rq_method = rpc, rq_id = n, rq_params = [x]\<rparr>) @ [CHR 0x0A])"

text \<open>The request can be written to JSON text, and that fits the buffer it is sent from.\<close>

definition request_fits :: "'j json_api \<Rightarrow> string \<Rightarrow> string \<Rightarrow> int \<Rightarrow> bool" where
  "request_fits J rpc x n \<longleftrightarrow>
     js_dump_error J (electrum_request_to_json J \<lparr>rq_method = rpc, rq_id = n, rq_params = [x]\<rparr>) = None \<and>
     length (request_text J rpc x n) < max_length"

lemma socket_send_fits:
  assumes "request_fits J rpc x n" "socket_open s" "write_faults s = []"
  shows "socket_send_request J (electrum_request_to_json J \<lparr>rq_method = rpc, rq_id = n, rq_params = [x]\<rparr>) s
    = (Inr (), s\<lparr>sent := sent s @ [request_text J rpc x n]\<rparr>)"
  using assms
  by (simp add: request_fits_def socket_send_request_def dump_json_def bindE_def socket_write_def
      request_text_def Let_def)

text \<open>The handler only throws.\<close>

lemma handle_exception_throws [simp]:
  "handle_exception J msg e r \<noteq> Inr x"
  "bindR (handle_exception J msg e r) f = handle_exception J msg e r"
  by (simp_all add: handle_exception_def process_exception_def dump_json_def split: sum.split option.split)

lemma socket_write_Inr:
  "socket_write bytes s = (Inr u, s') \<Longrightarrow> \<exists>fs. s' = s\<lparr>write_faults := fs, sent := sent s @ [bytes]\<rparr>"
proof (cases "write_faults s")
  case (Cons f fs)
  assume "socket_write bytes s = (Inr u, s')"
  with Cons show ?thesis by (cases f) (auto simp: socket_write_def split: if_splits)
qed (auto simp: socket_write_def split: if_splits intro: exI [where x = "[]"])

lemma socket_send_Inr:
  assumes "socket_send_request J (electrum_request_to_json J \<lparr>rq_method = rpc, rq_id = n, rq_params = [x]\<rparr>) s
    = (Inr u, s')"
  shows "\<exists>fs. s' = s\<lparr>write_faults := fs, sent := sent s @ [request_text J rpc x n]\<rparr>"
  using assms socket_write_Inr
  by (fastforce simp: socket_send_request_def dump_json_def bindE_def Let_def request_text_def
      split: if_splits option.splits)

text \<open>Sending all requests of a bulk: each element goes out under the id that is returned for it.\<close>

lemma send_one_Inr:
  assumes "send_one J rpc x ids s = (Inr ids', s')"
  shows "\<exists>n. ids' = ids @ [n] \<and> sent s' = sent s @ [request_text J rpc x n] \<and> follows J [] s s'"
proof -
  let ?n = "wrap_int (id_counter s + 1)"
  let ?s1 = "s\<lparr>id_counter := ?n\<rparr>"
  let ?req = "electrum_request_to_json J \<lparr>rq_method = rpc, rq_id = ?n, rq_params = [x]\<rparr>"
  from assms obtain u where "socket_send_request J ?req ?s1 = (Inr u, s')" "ids' = ids @ [?n]"
    by (auto simp: send_one_def exec_simps next_id_def Let_def send_request_no_response_def
        with_client_eval split: if_splits)
  with socket_send_Inr [OF this(1)] show ?thesis by (auto simp: follows_def same_link_def)
qed

lemma send_all_acc:
  assumes "foldE (send_one J rpc) xs acc s = (Inr ids', s')"
  shows "\<exists>ids. ids' = acc @ ids \<and> length ids = length xs \<and>
    sent s' = sent s @ map2 (request_text J rpc) xs ids \<and> follows J [] s s'"
  using assms
proof (induction xs arbitrary: acc s)
  case Nil
  then show ?case by (simp add: follows_refl)
next
  case (Cons x xs)
  from Cons.prems obtain acc1 s1 where one: "send_one J rpc x acc s = (Inr acc1, s1)"
    and rest: "foldE (send_one J rpc) xs acc1 s1 = (Inr ids', s')"
    by (auto simp: exec_simps)
  from send_one_Inr [OF one] obtain n where n: "acc1 = acc @ [n]"
    "sent s1 = sent s @ [request_text J rpc x n]" "follows J [] s s1" by blast
  from Cons.IH [OF rest] obtain ids where "ids' = acc1 @ ids" "length ids = length xs"
    "sent s' = sent s1 @ map2 (request_text J rpc) xs ids" "follows J [] s1 s'" by blast
  with n follows_trans [OF n(3), of "[]" s'] show ?case by (intro exI [where x = "n # ids"]) simp
qed

lemma send_all_Inr:
  assumes "send_all J rpc xs s = (Inr ids, s')"
  shows "length ids = length xs \<and> sent s' = sent s @ map2 (request_text J rpc) xs ids \<and> follows J [] s s'"
  using send_all_acc assms unfolding send_all_def by fastforce

lemma receive_response_bulk_Inr:
  assumes "receive_response_bulk J ids s = (Inr rs, s')"
  shows "\<exists>ms. rs = map msg_json ms \<and> length ms \<le> length ids \<and>
    list_all2 matches_id (take (length ms) ids) ms \<and> sent s' = sent s \<and>
    (\<exists>es. follows J es s s' \<and> set ms \<subseteq> set (queue (network J es s)))"
proof -
  let ?s1 = "pump J True (contains_msg_with_id_bulk ids) (events s) s"
  obtain ms q where pop: "pop_reply_bulk ids (queue ?s1) = (ms, q)" by fastforce
  with assms have "rs = map msg_json ms" "s' = ?s1\<lparr>queue := q\<rparr>"
    by (auto simp: receive_response_bulk_def queue_pop_reply_bulk_def wait_for_def bindE_def Let_def split: if_splits)
  moreover obtain es rest where es: "events s = es @ rest" "?s1 = (network J es s)\<lparr>events := rest\<rparr>"
    using pump_network by blast
  moreover from pop_reply_bulk_spec [OF pop] have spec: "length ms \<le> length ids"
    "list_all2 matches_id (take (length ms) ids) ms" "mset (queue ?s1) = mset ms + mset q" by simp_all
  moreover from arg_cong [OF spec(3), of set_mset] have "set (queue ?s1) = set ms \<union> set q" by simp
  ultimately show ?thesis
    by (intro exI [where x = ms] conjI exI [where x = es]) (auto simp: follows_def same_link_def)
qed

lemma read_all_Inr:
  "read_all J rpc parse rs acc = Inr acc' \<Longrightarrow>
     \<exists>vs. acc' = acc @ vs \<and> list_all2 (\<lambda>r v. fst (parse r) = Inr v) rs vs"
proof (induction rs arbitrary: acc)
  case Nil
  then show ?case by (simp add: read_all_def)
next
  case (Cons r rs)
  obtain p r' where p: "parse r = (p, r')" by fastforce
  show ?case
  proof (cases p)
    case (Inl e)
    with Cons.prems p show ?thesis by (simp add: read_all_def)
  next
    case (Inr v)
    with Cons.prems p have "read_all J rpc parse rs (acc @ [v]) = Inr acc'" by (simp add: read_all_def)
    from Cons.IH [OF this] obtain vs where "acc' = (acc @ [v]) @ vs"
      "list_all2 (\<lambda>r v. fst (parse r) = Inr v) rs vs" by blast
    with Inr p show ?thesis by (intro exI [where x = "v # vs"]) simp
  qed
qed

text \<open>
  One bulk step: it appends the values read from the replies to a prefix of its requests, each
  reply carrying the id under which that element was requested.
\<close>

lemma do_bulk_Inr:
  assumes "do_bulk J rpc parse xs acc s = (Inr acc', s')"
  shows "\<exists>ids ms vs. acc' = acc @ vs \<and> length ids = length xs \<and> length vs \<le> length xs \<and>
    sent s' = sent s @ map2 (request_text J rpc) xs ids \<and>
    list_all2 matches_id (take (length ms) ids) ms \<and>
    list_all2 (\<lambda>m v. fst (parse (msg_json m)) = Inr v) ms vs \<and>
    (\<exists>es. follows J es s s' \<and> set ms \<subseteq> set (queue (network J es s)))"
proof -
  from assms obtain ids s1 rs s2 where send: "send_all J rpc xs s = (Inr ids, s1)"
    and recv: "receive_response_bulk J ids s1 = (Inr rs, s2)"
    and read: "read_all J rpc parse rs acc = Inr acc'" and s': "s' = s2"
    by (auto simp: do_bulk_def exec_simps with_client_eval split: if_splits)
  from receive_response_bulk_Inr [OF recv] obtain ms where ms: "rs = map msg_json ms"
    "length ms \<le> length ids" "list_all2 matches_id (take (length ms) ids) ms" "sent s2 = sent s1"
    "\<exists>es. follows J es s1 s2 \<and> set ms \<subseteq> set (queue (network J es s1))" by blast
  from ms(5) obtain es where es: "follows J es s1 s2" "set ms \<subseteq> set (queue (network J es s1))" by blast
  from read_all_Inr [OF read] obtain vs where vs: "acc' = acc @ vs"
    "list_all2 (\<lambda>r v. fst (parse r) = Inr v) rs vs" by blast
  with ms have "length vs = length ms" by (auto dest: list_all2_lengthD)
  moreover have "follows J es s s2 \<and> set ms \<subseteq> set (queue (network J es s))"
    using follows_trans [OF _ es(1), of "[]" s] send_all_Inr [OF send] es(2) by auto
  ultimately show ?thesis using ms(1-4) vs send_all_Inr [OF send] s'
    by (intro exI [where x = ids] exI [where x = ms] exI [where x = vs] conjI exI [where x = es])
       (simp_all add: list_all2_map1)
qed

section \<open>The loop\<close>

text \<open>An invariant of the steps holds at the end, and then nothing is missing.\<close>

lemma bulk_loop_invariant:
  assumes run: "bulk_loop step k xs acc s = Some (Inr ys, s')" and inv: "I acc s"
    and keep: "\<And>acc s acc' s'. I acc s \<Longrightarrow> length acc < length xs \<Longrightarrow>
           step (take k (drop (length acc) xs)) acc s = (Inr acc', s') \<Longrightarrow> I acc' s'"
  shows "I ys s' \<and> length xs \<le> length ys"
proof -
  let ?P = "\<lambda>st k' zs acc s (y :: _ list result \<times> _). st = step \<longrightarrow> k' = k \<longrightarrow> zs = xs \<longrightarrow> I acc s \<longrightarrow>
    (case y of (Inr ys, s') \<Rightarrow> I ys s' \<and> length xs \<le> length ys | (Inl e, s') \<Rightarrow> True)"
  have "?P step k xs acc s (Inr ys, s')"
    using run
  proof (rule bulk_loop.raw_induct [where P = ?P, rotated])
    fix rec st k' zs acc s y
    assume IH: "\<And>st k' zs acc s y. rec st k' zs acc s = Some y \<Longrightarrow> ?P st k' zs acc s y"
      and eq: "(if length acc < length zs
          then case st (take k' (drop (length acc) zs)) acc s of
                 (Inl e, s') \<Rightarrow> Some (Inl e, s') | (Inr acc', s') \<Rightarrow> rec st k' zs acc' s'
          else Some (Inr acc, s)) = Some y"
    obtain r s1 where one: "st (take k' (drop (length acc) zs)) acc s = (r, s1)" by fastforce
    show "?P st k' zs acc s y"
      using eq one IH keep [of acc s _ s1]
      by (cases "length acc < length zs"; cases r) auto
  qed
  with inv show ?thesis by simp
qed

text \<open>If every step leaves something missing, the loop runs forever.\<close>

lemma bulk_loop_diverges:
  assumes inv: "I acc s"
    and missing: "\<And>acc s. I acc s \<Longrightarrow> length acc < length xs"
    and keep: "\<And>acc s. I acc s \<Longrightarrow>
      \<exists>acc' s'. step (take k (drop (length acc) xs)) acc s = (Inr acc', s') \<and> I acc' s'"
  shows "bulk_loop step k xs acc s = None"
proof (rule ccontr)
  assume "bulk_loop step k xs acc s \<noteq> None"
  then obtain y where run: "bulk_loop step k xs acc s = Some y" by blast
  let ?P = "\<lambda>st k' zs acc s (y :: _). st = step \<longrightarrow> k' = k \<longrightarrow> zs = xs \<longrightarrow> \<not> I acc s"
  have "?P step k xs acc s y"
    using run
  proof (rule bulk_loop.raw_induct [where P = ?P, rotated])
    fix rec st k' zs acc s y
    assume IH: "\<And>st k' zs acc s y. rec st k' zs acc s = Some y \<Longrightarrow> ?P st k' zs acc s y"
      and eq: "(if length acc < length zs
          then case st (take k' (drop (length acc) zs)) acc s of
                 (Inl e, s') \<Rightarrow> Some (Inl e, s') | (Inr acc', s') \<Rightarrow> rec st k' zs acc' s'
          else Some (Inr acc, s)) = Some y"
    show "?P st k' zs acc s y"
    proof (intro impI notI)
      assume here: "st = step" "k' = k" "zs = xs" and "I acc s"
      from keep [OF this(4)] obtain acc' s' where one:
        "step (take k (drop (length acc) xs)) acc s = (Inr acc', s')" "I acc' s'" by blast
      with eq missing [OF \<open>I acc s\<close>] here have "rec step k xs acc' s' = Some y" by simp
      from IH [OF this] one(2) show False by simp
    qed
  qed
  with inv show False by simp
qed

section \<open>Bulk answers\<close>

text \<open>
  What a bulk operation has established since the state \<^verbatim>\<open>s0\<close>: the values so far answer the first
  elements, each read from a message that has arrived and matches the number of a request for that
  element sent since \<^verbatim>\<open>s0\<close>.
\<close>

definition answered ::
    "'j json_api \<Rightarrow> string \<Rightarrow> ('j \<Rightarrow> 'a result \<times> 'j) \<Rightarrow> string list \<Rightarrow> 'j RonghuaClient \<Rightarrow> 'a list \<Rightarrow>
     'j RonghuaClient \<Rightarrow> bool" where
  "answered J rpc parse xs s0 acc s \<longleftrightarrow> length acc \<le> length xs \<and>
     (\<exists>new es. sent s = sent s0 @ new \<and> follows J es s0 s \<and>
       (\<forall>i < length acc. \<exists>n. \<exists>m \<in> set (queue (network J es s0)).
          request_text J rpc (xs ! i) n \<in> set new \<and> matches_id n m \<and>
          fst (parse (msg_json m)) = Inr (acc ! i)))"

lemma answered_step:
  assumes ans: "answered J rpc parse xs s0 acc s" and more: "length acc < length xs"
    and run: "do_bulk J rpc parse (take k (drop (length acc) xs)) acc s = (Inr acc', s')"
  shows "answered J rpc parse xs s0 acc' s'"
proof -
  let ?ys = "take k (drop (length acc) xs)"
  from do_bulk_Inr [OF run] obtain ids ms vs es1 where
    acc': "acc' = acc @ vs" and len: "length ids = length ?ys" "length vs \<le> length ?ys" and
    log: "sent s' = sent s @ map2 (request_text J rpc) ?ys ids" and
    ids: "list_all2 matches_id (take (length ms) ids) ms" and
    vals: "list_all2 (\<lambda>m v. fst (parse (msg_json m)) = Inr v) ms vs" and
    es1: "follows J es1 s s'" "set ms \<subseteq> set (queue (network J es1 s))" by blast
  have ms: "length ms = length vs" using vals by (rule list_all2_lengthD)
  from ans obtain new es where new: "sent s = sent s0 @ new" "follows J es s0 s"
    "\<forall>i < length acc. \<exists>n. \<exists>m \<in> set (queue (network J es s0)). request_text J rpc (xs ! i) n \<in> set new \<and>
       matches_id n m \<and> fst (parse (msg_json m)) = Inr (acc ! i)" by (auto simp: answered_def)
  let ?new = "new @ map2 (request_text J rpc) ?ys ids" and ?q = "set (queue (network J (es @ es1) s0))"
  from follows_trans [OF new(2) es1(1)] have q: "follows J (es @ es1) s0 s'"
    "set (queue (network J es s0)) \<subseteq> ?q" "set (queue (network J es1 s)) \<subseteq> ?q" by simp_all
  have "\<exists>n. \<exists>m \<in> ?q. request_text J rpc (xs ! i) n \<in> set ?new \<and> matches_id n m \<and>
      fst (parse (msg_json m)) = Inr (acc' ! i)" if i: "i < length acc'" for i
  proof (cases "i < length acc")
    case True
    with new(3) obtain n m where "m \<in> set (queue (network J es s0))" "request_text J rpc (xs ! i) n \<in> set new"
      "matches_id n m" "fst (parse (msg_json m)) = Inr (acc ! i)" by blast
    with True acc' q(2) show ?thesis by (intro exI [where x = n] bexI [where x = m]) (auto simp: nth_append)
  next
    case False
    let ?j = "i - length acc"
    from False i acc' have j: "?j < length vs" by simp
    then have y: "?ys ! ?j = xs ! i" "?j < length ?ys" using False len more by simp_all
    have "matches_id (ids ! ?j) (ms ! ?j)"
      using list_all2_nthD [OF ids, of ?j] j ms len by simp
    moreover have "ms ! ?j \<in> ?q" using j ms es1(2) q(3) by (metis nth_mem subsetD)
    moreover have "fst (parse (msg_json (ms ! ?j))) = Inr (acc' ! i)"
      using list_all2_nthD2 [OF vals j] False acc' by (simp add: nth_append)
    moreover have "map2 (request_text J rpc) ?ys ids ! ?j = request_text J rpc (xs ! i) (ids ! ?j)"
      using y len by simp
    then have "request_text J rpc (xs ! i) (ids ! ?j) \<in> set (map2 (request_text J rpc) ?ys ids)"
      using y(2) len by (metis length_map length_zip min.idem nth_mem)
    ultimately show ?thesis
      by (intro exI [where x = "ids ! ?j"] bexI [where x = "ms ! ?j"]) simp_all
  qed
  moreover have "length acc' \<le> length xs" using acc' len(2) more by auto
  moreover have "sent s' = sent s0 @ ?new" using new(1) log by simp
  ultimately show ?thesis unfolding answered_def using q(1) by blast
qed

lemma run_bulk_answered:
  assumes "run_bulk (do_bulk J rpc parse) k xs s = (Inr ys, s')"
  shows "answered J rpc parse xs s ys s' \<and> length ys = length xs"
proof -
  from assms have run: "bulk_loop (do_bulk J rpc parse) k xs [] s = Some (Inr ys, s')"
    by (simp add: run_bulk_def split: option.splits)
  have start: "answered J rpc parse xs s [] s" using follows_refl by (fastforce simp: answered_def)
  from bulk_loop_invariant [where I = "answered J rpc parse xs s", OF run start] answered_step
  have "answered J rpc parse xs s ys s' \<and> length xs \<le> length ys" by blast
  then show ?thesis by (auto simp: answered_def)
qed

interpretation ronghua: bulk_service "getHistoryBulk J ahi0" "getTransactionBulk J" for J ahi0
  by unfold_locales
     (auto simp: getHistoryBulk_def getTransactionBulk_def doGetHistoryBulk_def doGetTransactionBulk_def
        dest: run_bulk_answered)

lemma world_step_client [simp]:
  "client_set (world_step J e s) = client_set s" "id_counter (world_step J e s) = id_counter s"
  by (cases e; simp add: interrupt_client_state do_read_def async_read_def push_error_def Let_def
      split: option.splits sum.splits)+

text \<open>A server that has nothing more to say.\<close>

definition silent :: "'j RonghuaClient \<Rightarrow> bool" where
  "silent s \<longleftrightarrow> client_set s \<and> socket_open s \<and> write_faults s = [] \<and> queue s = [] \<and> events s = [] \<and>
     \<not> terminated s"

text \<open>A client that will hear nothing: the server is silent, or what it says is lost behind a hopeless
  buffer.\<close>

definition deaf :: "'j json_api \<Rightarrow> 'j RonghuaClient \<Rightarrow> bool" where
  "deaf J s \<longleftrightarrow> client_set s \<and> socket_open s \<and> write_faults s = [] \<and> queue s = [] \<and> \<not> terminated s \<and>
     (events s = [] \<or> hopeless_text J (oss s) \<and> parse_errors_only J \<and> Interrupt \<notin> set (events s))"

lemma deaf_world_step:
  assumes "hopeless_text J (oss s)" "parse_errors_only J" "\<not> terminated s" "e \<noteq> Interrupt"
  shows "hopeless_text J (oss (world_step J e s)) \<and> \<not> terminated (world_step J e s) \<and>
    queue (world_step J e s) = queue s"
proof (cases e)
  case (ReadSome error bytes)
  have "hopeless_text J (oss s @ bytes)" using assms(1) unfolding hopeless_text_def by (metis append_assoc)
  moreover from this obtain err where "js_parse J (oss s @ bytes) = Inl err" unfolding hopeless_text_def by (metis append_Nil2)
  ultimately show ?thesis using assms ReadSome by (simp add: do_read_link parse_errors_only_def)
qed (use assms in simp_all)

lemma deaf_pump: "deaf J s \<Longrightarrow> deaf J (pump J timed ready (events s) s)"
proof -
  assume deaf: "deaf J s"
  have network: "hopeless_text J (oss (network J es t)) \<and> \<not> terminated (network J es t) \<and> queue (network J es t) = queue t \<and>
      client_set (network J es t) = client_set t \<and> socket_open (network J es t) = socket_open t \<and>
      write_faults (network J es t) = write_faults t"
    if "hopeless_text J (oss t)" "parse_errors_only J" "\<not> terminated t" "Interrupt \<notin> set es" for es and t :: "'a RonghuaClient"
    using that
  proof (induction es arbitrary: t)
    case (Cons e es)
    then have "e \<noteq> Interrupt" by auto
    from deaf_world_step [OF Cons.prems(1-3) this] Cons show ?case by (simp del: world_step.simps)
  qed simp
  obtain seen rest where "events s = seen @ rest" "pump J timed ready (events s) s = (network J seen s)\<lparr>events := rest\<rparr>"
    using pump_network by blast
  with deaf network [of s seen] show ?thesis by (auto simp: deaf_def)
qed

lemma send_all_deaf:
  assumes "deaf J s"
    and "list_all (\<lambda>x. \<forall>n. - (2 ^ 31) \<le> n \<and> n < 2 ^ 31 \<longrightarrow> request_fits J rpc x n) xs"
  shows "\<exists>ids s'. foldE (send_one J rpc) xs acc s = (Inr (acc @ ids), s') \<and> deaf J s'"
  using assms
proof (induction xs arbitrary: acc s)
  case Nil
  then show ?case by auto
next
  case (Cons x xs)
  let ?n = "wrap_int (id_counter s + 1)"
  let ?s1 = "s\<lparr>id_counter := ?n, sent := sent s @ [request_text J rpc x ?n]\<rparr>"
  from Cons.prems(2) have "request_fits J rpc x ?n" using wrap_int_range [of "id_counter s + 1"] by simp
  with Cons.prems(1) have one: "send_one J rpc x acc s = (Inr (acc @ [?n]), ?s1)"
    by (simp add: send_one_def bindE_def next_id_def Let_def send_request_no_response_def with_client_eval
        socket_send_fits deaf_def)
  have "deaf J ?s1" using Cons.prems(1) by (simp add: deaf_def)
  from Cons.IH [OF this, of "acc @ [?n]"] Cons.prems(2) one show ?case
    by (simp add: exec_simps) (metis append_Cons append_Nil append_assoc)
qed

lemma pop_reply_bulk_Nil: "pop_reply_bulk ids [] = ([], [])"
  by (cases ids) (simp_all add: pop_reply_bulk.simps(2) find_msg_with_id_def)

lemma do_bulk_deaf:
  assumes "deaf J s"
    and "list_all (\<lambda>x. \<forall>n. - (2 ^ 31) \<le> n \<and> n < 2 ^ 31 \<longrightarrow> request_fits J rpc x n) xs"
  shows "\<exists>s'. do_bulk J rpc parse xs acc s = (Inr acc, s') \<and> deaf J s'"
proof -
  from send_all_deaf [OF assms, of "[]"] obtain ids s1 where
    send: "send_all J rpc xs s = (Inr ids, s1)" "deaf J s1" by (auto simp: send_all_def)
  let ?s2 = "pump J True (contains_msg_with_id_bulk ids) (events s1) s1"
  have s2: "deaf J ?s2" by (rule deaf_pump [OF send(2)])
  then have recv: "receive_response_bulk J ids s1 = (Inr [], ?s2\<lparr>queue := []\<rparr>)"
    by (simp add: receive_response_bulk_def queue_pop_reply_bulk_def wait_for_def bindE_def deaf_def Let_def
        pop_reply_bulk_Nil)
  have "deaf J (?s2\<lparr>queue := []\<rparr>)" using s2 by (simp add: deaf_def)
  moreover have "do_bulk J rpc parse xs acc s = (Inr acc, ?s2\<lparr>queue := []\<rparr>)"
    using send recv by (simp add: do_bulk_def bindE_def with_client_eval deaf_def read_all_def)
  ultimately show ?thesis by blast
qed

text \<open>A bulk request of a client that hears nothing goes on forever.\<close>

lemma deaf_bulk_never_returns:
  assumes "deaf J s" "txids \<noteq> []"
    and "list_all (\<lambda>x. \<forall>n. - (2 ^ 31) \<le> n \<and> n < 2 ^ 31 \<longrightarrow>
      request_fits J ''blockchain.transaction.get'' x n) txids"
  shows "fst (getTransactionBulk J txids cbs s) = Inl NeverReturns"
proof -
  have "bulk_loop (doGetTransactionBulk J) 100 txids [] s = None"
  proof (rule bulk_loop_diverges [where I = "\<lambda>acc s. acc = [] \<and> deaf J s"])
    fix acc :: "string list" and t :: "'a RonghuaClient"
    assume I: "acc = [] \<and> deaf J t"
    then show "length acc < length txids" using assms(2) by simp
    have "list_all (\<lambda>x. \<forall>n. - (2 ^ 31) \<le> n \<and> n < 2 ^ 31 \<longrightarrow> request_fits J ''blockchain.transaction.get'' x n)
        (take 100 txids)" using assms(3) by (auto simp: list_all_iff dest: in_set_takeD)
    from do_bulk_deaf [OF conjunct2 [OF I] this, of "at_result J (js_get_string J)" "[]"] I
    show "\<exists>acc' s'. doGetTransactionBulk J (take 100 (drop (length acc) txids)) acc t = (Inr acc', s') \<and>
        acc' = [] \<and> deaf J s'" by (auto simp: doGetTransactionBulk_def)
  qed (use assms(1) in simp)
  then show ?thesis by (simp add: getTransactionBulk_def run_bulk_def)
qed

section \<open>Single requests\<close>

lemma request_result_eval:
  "request_result J rpc av parse s =
     (let n = wrap_int (id_counter s + 1);
          req = electrum_request_to_json J \<lparr>rq_method = rpc, rq_id = n, rq_params = av\<rparr>
      in case send_request J req n (s\<lparr>id_counter := n\<rparr>) of
           (Inl e, s') \<Rightarrow> (handle_exception J rpc e (js_null J), s')
         | (Inr r, s') \<Rightarrow> (case parse r of (Inr x, _) \<Rightarrow> (Inr x, s')
                          | (Inl e, r') \<Rightarrow> (handle_exception J rpc e r', s')))"
  by (simp add: request_result_def next_id_def bindE_def try_request_def Let_def)

text \<open>The receiver takes the reads of one message and wakes the waiting thread.\<close>

lemma pump_reads:
  assumes "assembles J (oss s) chunks j" "receiving s" "\<not> ready (queue s)"
  shows "pump J timed ready (map (ReadSome None) chunks @ es) s = pump J timed ready es (receive_chunks J chunks s)"
  using assms
proof (induction chunks arbitrary: s)
  case Nil
  then show ?case by simp
next
  case (Cons c cs)
  let ?s1 = "world_step J (ReadSome None c) s"
  have rec: "receive_chunks J (c # cs) s = receive_chunks J cs ?s1" by (simp add: receive_chunks_def)
  show ?case
  proof (cases "cs = []")
    case True
    with Cons.prems(3) rec show ?thesis by (simp add: receive_chunks_def del: world_step.simps)
  next
    case False
    with Cons.prems receive_part [of s c J]
    have s1: "receiving ?s1" "queue ?s1 = queue s" "oss ?s1 = oss s @ c" by simp_all
    with Cons.IH [of ?s1] Cons.prems False rec show ?thesis by (simp del: world_step.simps)
  qed
qed

lemma pump_message:
  assumes "assembles J (oss s) chunks j" "receiving s" "\<not> ready (queue s)" "ready (from_json J j # queue s)"
  shows "pump J timed ready (map (ReadSome None) chunks @ es) s = (receive_chunks J chunks s)\<lparr>events := es\<rparr>"
  using pump_reads [where ready = ready, OF assms(1-3)] receive_chunks_message [OF assms(1,2)] assms(4) by simp

lemma receive_chunks_frame:
  "sent (receive_chunks J chunks s) = sent s" "write_faults (receive_chunks J chunks s) = write_faults s"
  "socket_open (receive_chunks J chunks s) = socket_open s"
  by (induction chunks arbitrary: s) (simp_all add: receive_chunks_def del: world_step.simps)

lemma receive_chunks_client:
  "client_set (receive_chunks J chunks s) = client_set s" "id_counter (receive_chunks J chunks s) = id_counter s"
  by (induction chunks arbitrary: s) (simp_all add: receive_chunks_def del: world_step.simps)

text \<open>A request whose reply arrives next, in any number of reads.\<close>

lemma send_request_answered:
  assumes "client_set s" "socket_open s" "write_faults s = []" "receiving s" "oss s = []"
    and "request_fits J rpc x n"
    and "\<not> contains_msg_with_id n (queue s)"
    and "events s = map (ReadSome None) chunks @ es" "message_reads J chunks j" "matches_id n (from_json J j)"
  shows "\<exists>s'. send_request J (electrum_request_to_json J \<lparr>rq_method = rpc, rq_id = n, rq_params = [x]\<rparr>) n s
      = (Inr j, s') \<and> sent s' = sent s @ [request_text J rpc x n] \<and> queue s' = queue s \<and> events s' = es \<and>
    receiving s' \<and> oss s' = [] \<and> id_counter s' = id_counter s \<and> client_set s' \<and> socket_open s' \<and> write_faults s' = []"
proof -
  let ?s1 = "s\<lparr>sent := sent s @ [request_text J rpc x n]\<rparr>"
  let ?s2 = "(receive_chunks J chunks ?s1)\<lparr>events := es\<rparr>"
  have recv: "receiving ?s1" using assms(4) by (simp add: receiving_def)
  have ready: "contains_msg_with_id n (from_json J j # queue s)"
    using assms(10) by (simp add: contains_msg_with_id_def find_msg_push)
  have reads: "assembles J (oss ?s1) chunks j" using assms(5,9) by (simp add: message_reads_def)
  have pump: "pump J False (contains_msg_with_id n) (events s) ?s1 = ?s2"
    unfolding assms(8) by (rule pump_message [OF reads recv]) (use assms(7) ready in simp_all)
  have q: "queue ?s2 = from_json J j # queue s"
    using receive_chunks_message [OF reads recv] by simp
  have wait: "wait_until J (contains_msg_with_id n) ?s1 = (Inr (), ?s2)"
    using ready q by (simp add: wait_until_def Let_def pump)
  have pop: "pop_reply n (queue ?s2) = Some (from_json J j, queue s)"
    using ready q assms(10) by (simp add: pop_reply_def find_msg_push erase_at_def)
  have "receive_response J n ?s1 = (Inr j, ?s2\<lparr>queue := queue s\<rparr>)"
    using wait pop by (simp add: receive_response_def queue_pop_reply_def bindE_def from_json_def)
  moreover have "socket_send_request J (electrum_request_to_json J \<lparr>rq_method = rpc, rq_id = n, rq_params = [x]\<rparr>) s
      = (Inr (), ?s1)"
    by (rule socket_send_fits [OF assms(6,2,3)])
  moreover have "receiving ?s2" "oss ?s2 = []"
    using receive_chunks_message [OF reads recv] by (simp_all add: receiving_def)
  ultimately show ?thesis using assms(1-3)
    by (simp add: send_request_def with_client_eval bindE_def receive_chunks_frame receive_chunks_client receiving_def)
qed

text \<open>A single request to a server that answers it returns what \<^verbatim>\<open>parse\<close> reads from the reply.\<close>

lemma request_answered:
  assumes "json_documented J" "client_set s" "socket_open s" "write_faults s = []" "receiving s" "oss s = []"
    and "0 \<le> id_counter s" "id_counter s < 2 ^ 31 - 1"
    and "request_fits J rpc x (id_counter s + 1)"
    and "\<not> contains_msg_with_id (id_counter s + 1) (queue s)"
    and "events s = map (ReadSome None) chunks @ es" "message_reads J chunks (js_object J reply)"
    and "map_of reply ''id'' = Some (js_int J (id_counter s + 1))"
    and "fst (parse (js_object J reply)) = Inr v"
  shows "\<exists>s'. request_result J rpc [x] parse s = (Inr v, s') \<and>
    sent s' = sent s @ [request_text J rpc x (id_counter s + 1)] \<and> queue s' = queue s \<and> events s' = es \<and>
    receiving s' \<and> oss s' = [] \<and> id_counter s' = id_counter s + 1 \<and> client_set s' \<and> socket_open s' \<and>
    write_faults s' = []"
proof -
  let ?n = "id_counter s + 1"
  let ?s1 = "s\<lparr>id_counter := ?n\<rparr>"
  have n: "wrap_int ?n = ?n" using assms(7,8) by (intro wrap_int_id) simp_all
  have "at_get J (js_get_int J) (js_object J reply) ''id'' = Inr ?n"
    using assms(1,7,8,13) by (simp add: at_get_member json_facts)
  then have "matches_id ?n (from_json J (js_object J reply))"
    using assms(7) by (simp add: matches_id_def from_json_def)
  then obtain s' where "send_request J (electrum_request_to_json J
      \<lparr>rq_method = rpc, rq_id = ?n, rq_params = [x]\<rparr>) ?n ?s1 = (Inr (js_object J reply), s')"
    "sent s' = sent s @ [request_text J rpc x ?n]" "queue s' = queue s" "events s' = es"
    "receiving s'" "oss s' = []" "id_counter s' = ?n" "client_set s'" "socket_open s'" "write_faults s' = []"
    using send_request_answered [of ?s1 J rpc x ?n chunks es "js_object J reply"] assms(2-6,9-12)
    by (auto simp: receiving_def)
  moreover obtain r where "parse (js_object J reply) = (Inr v, r)" using assms(14) by (metis prod.collapse)
  ultimately show ?thesis using n
    by (intro exI [where x = s']) (simp add: request_result_eval Let_def)
qed

text \<open>
  A bulk request for transactions that returns, returns one text per transaction id, in the
  order of the ids, and each text was read from a message that arrived, matching the number of a
  request for that very transaction sent by this call, however the replies were split over the chunks
  of 100 and over the repeated timed waits.
\<close>

lemma getTransactionBulk_answers:
  assumes "getTransactionBulk J txids cbs s = (Inr ts, s')"
  shows "length ts = length txids \<and> (\<exists>new es. sent s' = sent s @ new \<and> events s = es @ events s' \<and>
    (\<forall>i < length txids. \<exists>n. \<exists>m \<in> set (queue (network J es s)).
       request_text J ''blockchain.transaction.get'' (txids ! i) n \<in> set new \<and>
       matches_id n m \<and> at_get J (js_get_string J) (msg_json m) ''result'' = Inr (ts ! i)))"
proof -
  from assms have "run_bulk (do_bulk J ''blockchain.transaction.get'' (at_result J (js_get_string J))) 100 txids s
      = (Inr ts, s')" by (simp add: getTransactionBulk_def doGetTransactionBulk_def)
  from run_bulk_answered [OF this] obtain new es where "length ts = length txids" "sent s' = sent s @ new"
    "follows J es s s'" "\<forall>i < length ts. \<exists>n. \<exists>m \<in> set (queue (network J es s)).
       request_text J ''blockchain.transaction.get'' (txids ! i) n \<in> set new \<and> matches_id n m \<and>
       fst (at_result J (js_get_string J) (msg_json m)) = Inr (ts ! i)" by (auto simp: answered_def)
  then show ?thesis
    by (intro conjI exI [where x = new] exI [where x = es]) (simp_all add: follows_def at_result_def)
qed

section \<open>Properties\<close>

text \<open>A client whose server answers two requests, in the opposite order.\<close>

definition sample_ronghua :: "json RonghuaClient" where
  "sample_ronghua = (RonghuaClient_new [] [ReadSome None ''{2}'', ReadSome None ''{1}''])
     \<lparr>client_set := True, socket_open := True, reading := True\<rparr>"

text \<open>
  C35. There is no way out of a bulk request to a server that stays silent: every timed wait
  returns no replies, and the loop sends the same requests again, forever. (The requests are
  assumed to be sendable at all: short enough under every 32-bit number, on an open socket.)
\<close>

theorem bulk_retries_forever:
  assumes "silent s" "txids \<noteq> []"
    and "list_all (\<lambda>x. \<forall>n. - (2 ^ 31) \<le> n \<and> n < 2 ^ 31 \<longrightarrow>
      request_fits J ''blockchain.transaction.get'' x n) txids"
  shows "fst (getTransactionBulk J txids cbs s) = Inl NeverReturns"
  using assms by (intro deaf_bulk_never_returns) (simp_all add: silent_def deaf_def)

text \<open>The decimal form of a 32-bit number is short.\<close>

lemma dec_nat_length:
  "n < 10 ^ k \<Longrightarrow> 0 < k \<Longrightarrow> length (dec_nat n) \<le> k"
proof (induction n arbitrary: k rule: dec_nat.induct)
  case (1 n)
  show ?case
  proof (cases "n < 10")
    case True
    with "1.prems" show ?thesis by (subst dec_nat.simps) simp
  next
    case False
    with "1.prems" obtain k' where k: "k = Suc k'" "0 < k'" by (cases k; cases "k - 1") auto
    with "1.prems"(1) have "n div 10 < 10 ^ k'" by (simp add: div_less_iff_less_mult mult.commute)
    with "1.IH" [OF False this k(2)] k(1) show ?thesis using False by (subst dec_nat.simps) simp
  qed
qed

lemma dec_int_length:
  assumes "- (2 ^ 31) \<le> n" "n < 2 ^ 31" shows "length (dec_int n) \<le> 11"
  using assms dec_nat_length [of "nat n" 10] dec_nat_length [of "nat (- n)" 10]
  by (auto simp: dec_int_def nat_less_iff)

lemma sample_request_fits:
  assumes "- (2 ^ 31) \<le> n" "n < 2 ^ 31"
  shows "request_fits sample_json ''blockchain.transaction.get'' ''a'' n"
proof -
  let ?j = "electrum_request_to_json sample_json \<lparr>rq_method = ''blockchain.transaction.get'', rq_id = n, rq_params = [''a'']\<rparr>"
  have "length (js_dump sample_json ?j) \<le> 60"
    using dec_int_length [OF assms] by (simp add: electrum_request_to_json_def sample_json_def)
  moreover have "length (request_text sample_json ''blockchain.transaction.get'' ''a'' n)
      \<le> length (js_dump sample_json ?j @ [CHR 0x0A])"
    unfolding request_text_def by (rule length_takeWhile_le)
  ultimately have "length (request_text sample_json ''blockchain.transaction.get'' ''a'' n) \<le> 61" by simp
  then show ?thesis by (simp add: request_fits_def max_length_def) (simp add: sample_json_def)
qed

theorem bulk_retries_forever_witness:
  "fst (getTransactionBulk sample_json [''a''] [] (sample_ronghua\<lparr>events := []\<rparr>)) = Inl NeverReturns"
  by (rule bulk_retries_forever)
     (simp_all add: silent_def sample_ronghua_def RonghuaClient_new_def sample_request_fits)

text \<open>
  The same happens when one read brought parts of two replies: whatever the server sends from then on,
  the bulk request is repeated forever.
\<close>

lemma coalesced_bulk_never_returns:
  assumes "client_set s" "socket_open s" "write_faults s = []" "queue s = []" "\<not> terminated s"
    and "hopeless_text J (oss s)" "parse_errors_only J" "Interrupt \<notin> set (events s)" "txids \<noteq> []"
    and "list_all (\<lambda>x. \<forall>n. - (2 ^ 31) \<le> n \<and> n < 2 ^ 31 \<longrightarrow>
      request_fits J ''blockchain.transaction.get'' x n) txids"
  shows "fst (getTransactionBulk J txids cbs s) = Inl NeverReturns"
  using assms by (intro deaf_bulk_never_returns) (simp_all add: deaf_def)

text \<open>
  C21. The complete exchange of a history request: the request goes out under the next number,
  the reply to that number, cut into reads anywhere before it is complete, is taken from the queue
  (which is otherwise unchanged), and the entries come back in order. Their \<^verbatim>\<open>fresh\<close> flag is whatever
  the uninitialised item \<^verbatim>\<open>ahi0\<close> held.
\<close>

theorem getHistory_roundtrip:
  assumes "json_documented J" "client_set s" "socket_open s" "write_faults s = []" "receiving s" "oss s = []"
    and "0 \<le> id_counter s" "id_counter s < 2 ^ 31 - 1"
    and "request_fits J ''blockchain.scripthash.get_history'' address (id_counter s + 1)"
    and "\<not> contains_msg_with_id (id_counter s + 1) (queue s)"
    and "events s = map (ReadSome None) chunks @ es" "message_reads J chunks (js_object J reply)"
    and "map_of reply ''id'' = Some (js_int J (id_counter s + 1))"
    and "map_of reply ''result'' = Some (js_array J entries)"
    and "list_all2 (\<lambda>j (t, h). \<exists>kvs. j = js_object J kvs \<and> map_of kvs ''tx_hash'' = Some (js_string J t) \<and>
           map_of kvs ''height'' = Some (js_int J h) \<and> - (2 ^ 31) \<le> h \<and> h < 2 ^ 31) entries items"
  shows "\<exists>s'. getHistory J ahi0 address s =
      (Inr (map (\<lambda>(t, h). ahi0\<lparr>ahi_txid := t, ahi_height := h\<rparr>) items), s') \<and>
    sent s' = sent s @ [request_text J ''blockchain.scripthash.get_history'' address (id_counter s + 1)] \<and>
    queue s' = queue s \<and> events s' = es"
proof -
  have "index_result J (\<lambda>v. address_history_from_json J ahi0 v []) (js_object J reply) =
      (Inr (map (\<lambda>(t, h). ahi0\<lparr>ahi_txid := t, ahi_height := h\<rparr>) items), js_object J reply)"
    using assms(1,14) address_history_items [OF assms(1,15), of ahi0] by (simp add: index_result_def json_facts)
  then show ?thesis
    unfolding getHistory_def
    using request_answered [OF assms(1-13), where parse = "index_result J (\<lambda>v. address_history_from_json J ahi0 v [])"]
    by fastforce
qed

text \<open>A library whose parser knows the one text \<^verbatim>\<open>HH\<close>, the reply to request 1.\<close>

definition sample_history_json :: "json json_api" where
  "sample_history_json = sample_json\<lparr>js_parse := \<lambda>t. if t = ''HH'' then
       Inr (JObject [(''id'', JInt 1), (''result'', JArray [JObject
         [(''height'', JInt 7), (''tx_hash'', JString ''ab'')]])])
     else Inl (ParseError ''parse_error'')\<rparr>"

lemma sample_history_json_documented: "json_documented sample_history_json"
  using sample_json_documented unfolding json_documented_def by (simp add: sample_history_json_def)

theorem getHistory_roundtrip_witness:
  "\<exists>s'. getHistory sample_history_json \<lparr>ahi_txid = [], ahi_height = 0, ahi_fresh = True\<rparr> ''spkh''
     (sample_ronghua\<lparr>events := [ReadSome None ''H'', ReadSome None ''H'']\<rparr>) =
     (Inr [\<lparr>ahi_txid = ''ab'', ahi_height = 7, ahi_fresh = True\<rparr>], s')"
proof -
  let ?s = "sample_ronghua\<lparr>events := [ReadSome None ''H'', ReadSome None ''H'']\<rparr>"
  let ?entry = "JObject [(''height'', JInt 7), (''tx_hash'', JString ''ab'')]"
  have len: "request_fits sample_history_json ''blockchain.scripthash.get_history'' ''spkh'' 1"
    by code_simp
  have complete: "message_reads sample_history_json [''H'', ''H'']
      (js_object sample_history_json [(''id'', JInt 1), (''result'', JArray [?entry])])"
    by (simp add: message_reads_def unfinished_def sample_history_json_def sample_json_def)
  have "\<exists>s'. getHistory sample_history_json \<lparr>ahi_txid = [], ahi_height = 0, ahi_fresh = True\<rparr> ''spkh'' ?s =
      (Inr (map (\<lambda>(t, h). \<lparr>ahi_txid = [], ahi_height = 0, ahi_fresh = True\<rparr>\<lparr>ahi_txid := t, ahi_height := h\<rparr>)
         [(''ab'', 7)]), s') \<and>
    sent s' = sent ?s @ [request_text sample_history_json ''blockchain.scripthash.get_history'' ''spkh''
      (id_counter ?s + 1)] \<and> queue s' = queue ?s \<and> events s' = []"
    by (rule getHistory_roundtrip [where chunks = "[''H'', ''H'']" and entries = "[?entry]"
          and reply = "[(''id'', JInt 1), (''result'', JArray [?entry])]", OF sample_history_json_documented])
       (use len complete in \<open>simp_all add: sample_ronghua_def RonghuaClient_new_def receiving_def
          contains_msg_with_id_def find_msg_with_id_def\<close>,
        simp_all add: sample_history_json_def sample_json_def)
  then show ?thesis by auto
qed

text \<open>
  C37. A server's error reply (an object without \<^verbatim>\<open>result\<close>) to a history or an unspent-outputs
  request is read as an address that was never used: \<^verbatim>\<open>operator[]\<close> inserts a null result, and
  the callers cannot tell the failure from an empty history or an empty balance.
\<close>

theorem error_reply_means_unused:
  assumes "json_documented J" "map_of reply ''result'' = None" "n = wrap_int (id_counter s + 1)"
    and "send_request J (electrum_request_to_json J \<lparr>rq_method = ''blockchain.scripthash.get_history'',
           rq_id = n, rq_params = [address]\<rparr>) n (s\<lparr>id_counter := n\<rparr>) = (Inr (js_object J reply), s1)"
    and "send_request J (electrum_request_to_json J \<lparr>rq_method = ''blockchain.scripthash.listunspent'',
           rq_id = n, rq_params = [address]\<rparr>) n (s\<lparr>id_counter := n\<rparr>) = (Inr (js_object J reply), s2)"
  shows "getHistory J ahi0 address s = (Inr [], s1) \<and> getUtxos J address s = (Inr [], s2)"
  using assms
  by (simp add: getHistory_def getUtxos_def request_result_eval Let_def index_result_def json_facts
      address_history_from_json_def)

definition sample_error_json :: "json json_api" where
  "sample_error_json = sample_json\<lparr>js_parse := \<lambda>t. if t = ''E'' then
       Inr (JObject [(''id'', JInt 1), (''error'', JObject [(''message'', JString ''history too large'')])])
     else Inl (ParseError ''parse_error'')\<rparr>"

lemma sample_error_json_documented: "json_documented sample_error_json"
  using sample_json_documented unfolding json_documented_def by (simp add: sample_error_json_def)

abbreviation sample_error_client :: "json RonghuaClient" where
  "sample_error_client \<equiv> sample_ronghua\<lparr>events := [ReadSome None ''E'']\<rparr>"

abbreviation sample_error_reply :: "(string \<times> json) list" where
  "sample_error_reply \<equiv> [(''id'', JInt 1), (''error'', JObject [(''message'', JString ''history too large'')])]"

lemma sample_error_sent:
  assumes "rpc \<in> {''blockchain.scripthash.get_history'', ''blockchain.scripthash.listunspent'',
    ''blockchain.transaction.get''}"
  shows "\<exists>s'. send_request sample_error_json (electrum_request_to_json sample_error_json
      \<lparr>rq_method = rpc, rq_id = 1, rq_params = [''a'']\<rparr>) 1 (sample_error_client\<lparr>id_counter := 1\<rparr>)
    = (Inr (js_object sample_error_json sample_error_reply), s')"
proof -
  have "\<forall>rpc \<in> {''blockchain.scripthash.get_history'', ''blockchain.scripthash.listunspent'',
      ''blockchain.transaction.get''}.
    fst (send_request sample_error_json (electrum_request_to_json sample_error_json
      \<lparr>rq_method = rpc, rq_id = 1, rq_params = [''a'']\<rparr>) 1 (sample_error_client\<lparr>id_counter := 1\<rparr>))
    = Inr (js_object sample_error_json sample_error_reply)"
    by code_simp
  with assms show ?thesis by (metis prod.collapse)
qed

theorem error_reply_means_unused_witness:
  "fst (getHistory sample_error_json \<lparr>ahi_txid = [], ahi_height = 0, ahi_fresh = True\<rparr> ''a'' sample_error_client) = Inr [] \<and>
   fst (getUtxos sample_error_json ''a'' sample_error_client) = Inr []"
proof -
  have n: "(1 :: int) = wrap_int (id_counter sample_error_client + 1)"
    by (simp add: sample_ronghua_def RonghuaClient_new_def wrap_int_def)
  have none: "map_of sample_error_reply ''result'' = None" by simp
  from sample_error_sent [of "''blockchain.scripthash.get_history''"]
    sample_error_sent [of "''blockchain.scripthash.listunspent''"]
  obtain s1 s2 where
    "send_request sample_error_json (electrum_request_to_json sample_error_json
      \<lparr>rq_method = ''blockchain.scripthash.get_history'', rq_id = 1, rq_params = [''a'']\<rparr>) 1
      (sample_error_client\<lparr>id_counter := 1\<rparr>) = (Inr (js_object sample_error_json sample_error_reply), s1)"
    "send_request sample_error_json (electrum_request_to_json sample_error_json
      \<lparr>rq_method = ''blockchain.scripthash.listunspent'', rq_id = 1, rq_params = [''a'']\<rparr>) 1
      (sample_error_client\<lparr>id_counter := 1\<rparr>) = (Inr (js_object sample_error_json sample_error_reply), s2)"
    by blast
  from error_reply_means_unused [OF sample_error_json_documented none n this] show ?thesis by simp
qed

text \<open>
  The requests that read the result with \<^verbatim>\<open>at\<close> do report a server's error: the exception
  carries the message of the error object.
\<close>

theorem error_reply_reported:
  assumes "json_documented J" "map_of reply ''result'' = None" "txid \<noteq> []"
    and "map_of reply ''error'' = Some (js_object J err)" "map_of err ''message'' = Some (js_string J m)"
    and "n = wrap_int (id_counter s + 1)"
    and "send_request J (electrum_request_to_json J \<lparr>rq_method = ''blockchain.transaction.get'',
           rq_id = n, rq_params = [txid]\<rparr>) n (s\<lparr>id_counter := n\<rparr>) = (Inr (js_object J reply), s')"
  shows "getTransaction J txid s = (Inl (InvalidArgument m), s')"
proof -
  obtain msg where miss: "at_get J (js_get_string J) (js_object J reply) ''result'' = Inl (LibraryException msg)"
    using at_get_missing [OF assms(1,2)] by blast
  from assms(4) have "reply \<noteq> []" by auto
  then have "\<not> js_is_empty J (js_object J reply)" using assms(1) by (simp add: json_facts)
  with assms miss show ?thesis
    by (simp add: getTransaction_def request_result_eval Let_def at_result_def handle_exception_def
        process_exception_def at_get_member json_facts)
qed

theorem error_reply_reported_witness:
  "fst (getTransaction sample_error_json ''a'' sample_error_client) =
     Inl (InvalidArgument ''history too large'')"
proof -
  have n: "(1 :: int) = wrap_int (id_counter sample_error_client + 1)"
    by (simp add: sample_ronghua_def RonghuaClient_new_def wrap_int_def)
  from sample_error_sent [of "''blockchain.transaction.get''"] obtain s' where
    "send_request sample_error_json (electrum_request_to_json sample_error_json
      \<lparr>rq_method = ''blockchain.transaction.get'', rq_id = 1, rq_params = [''a'']\<rparr>) 1
      (sample_error_client\<lparr>id_counter := 1\<rparr>) = (Inr (js_object sample_error_json sample_error_reply), s')"
    by blast
  from error_reply_reported [OF sample_error_json_documented _ _ _ _ n this,
      where err = "[(''message'', JString ''history too large'')]" and m = "''history too large''"]
  show ?thesis by (simp add: sample_error_json_def sample_json_def)
qed

text \<open>
  A transaction of 1535 or more (ASCII) hex digits cannot be broadcast: the text of the request is
  copied past the end of the buffer of 1536 bytes on the stack, whatever the connection does.
\<close>

theorem broadcast_overflows_buffer:
  assumes "dump_documented J" "client_set s" "1535 \<le> length tx_hex" "ascii tx_hex"
  shows "fst (broadcastTransaction J tx_hex s) = Inl UndefinedBehaviour"
proof -
  let ?n = "wrap_int (id_counter s + 1)"
  let ?r = "\<lparr>rq_method = ''blockchain.transaction.broadcast'', rq_id = ?n, rq_params = [tx_hex]\<rparr>"
  let ?d = "js_dump J (electrum_request_to_json J ?r)"
  have "length tx_hex \<le> length ?d" by (rule request_dump_length [OF assms(1)]) simp
  moreover have "js_dump_error J (electrum_request_to_json J ?r) = None"
    using assms(4) by (intro dump_facts(5) [OF assms(1)]) (simp add: ascii_def)
  moreover have "takeWhile (\<lambda>c. c \<noteq> CHR 0x00) (?d @ [CHR 0x0A]) = ?d @ [CHR 0x0A]"
    using dump_facts(1) [OF assms(1), of "electrum_request_to_json J ?r"]
    by (subst takeWhile_eq_all_conv) auto
  ultimately show ?thesis
    using assms(2,3)
    by (simp add: broadcastTransaction_def request_result_eval Let_def send_request_def with_client_eval
        socket_send_request_def dump_json_def max_length_def bindE_def handle_exception_def)
qed

theorem broadcast_overflows_buffer_witness:
  "fst (broadcastTransaction sample_json (replicate 1600 CHR ''a'') sample_ronghua) = Inl UndefinedBehaviour"
  by (rule broadcast_overflows_buffer [OF sample_dump_documented])
     (simp_all add: sample_ronghua_def RonghuaClient_new_def ascii_def list_all_iff)

text \<open>
  When the socket refuses a request, the caller gets an exception that names the request
  and the cause -- except that a failed \<^verbatim>\<open>server.version\<close> request is reported as a failed
  broadcast.
\<close>

theorem write_failure_reported:
  assumes "json_documented J" "client_set s" "socket_open s" "write_faults s = Some m # fs"
    and "\<forall>j. js_dump_error J j = None"
    and "length (js_dump J (electrum_request_to_json J \<lparr>rq_method = ''blockchain.block.header'',
           rq_id = wrap_int (id_counter s + 1), rq_params = [dec_int h, ''0'']\<rparr>)) < 1535"
    and "length (js_dump J (electrum_version_request_to_json J \<lparr>vr_method = ''server.version'',
           vr_id = wrap_int (id_counter s + 1), vr_param1 = name, vr_param2 = protocols\<rparr>)) < 1535"
  shows "fst (getBlockHeader J h s) = Inl (InvalidArgument (''blockchain.block.header failed: '' @ m)) \<and>
    fst (getVersion J name protocols s) =
      Inl (InvalidArgument (''blockchain.transaction.broadcast failed: '' @ m))"
proof -
  have c_str: "\<not> max_length < Suc (length (takeWhile P (t @ [c])))" if "length t < 1535" for P and t :: string and c
    using that length_takeWhile_le [of P "t @ [c]"] by (simp add: max_length_def)
  have fail: "send_request J j n (s\<lparr>id_counter := n\<rparr>) = (Inl (LibraryException m), s\<lparr>id_counter := n, write_faults := fs\<rparr>)"
    if "length (js_dump J j) < 1535" for j n
    using assms(2-5) c_str [OF that]
    by (simp add: send_request_def with_client_eval bindE_def socket_send_request_def dump_json_def
        socket_write_def Let_def)
  show ?thesis
    using assms(1) fail [OF assms(6)] fail [OF assms(7)]
    by (simp add: getBlockHeader_def getVersion_def request_result_eval Let_def try_request_def next_id_def
        bindE_def handle_exception_def process_exception_def json_facts)
qed

theorem write_failure_reported_witness:
  "fst (getVersion sample_json ''b'' [''1.4'', ''1.4''] (sample_ronghua\<lparr>write_faults := [Some ''broken pipe'']\<rparr>)) =
     Inl (InvalidArgument (''blockchain.transaction.broadcast failed: '' @ ''broken pipe''))"
proof (rule write_failure_reported [OF sample_json_documented, THEN conjunct2])
  show "length (js_dump sample_json (electrum_request_to_json sample_json \<lparr>rq_method = ''blockchain.block.header'',
      rq_id = wrap_int (id_counter (sample_ronghua\<lparr>write_faults := [Some ''broken pipe'']\<rparr>) + 1),
      rq_params = [dec_int 5, ''0'']\<rparr>)) < 1535" by code_simp
  show "length (js_dump sample_json (electrum_version_request_to_json sample_json \<lparr>vr_method = ''server.version'',
      vr_id = wrap_int (id_counter (sample_ronghua\<lparr>write_faults := [Some ''broken pipe'']\<rparr>) + 1),
      vr_param1 = ''b'', vr_param2 = [''1.4'', ''1.4'']\<rparr>)) < 1535" by code_simp
  show "\<forall>j. js_dump_error sample_json j = None" by (simp add: sample_json_def)
qed (simp_all add: sample_ronghua_def RonghuaClient_new_def)

end
