(* ===== verification/PromptServer.thy ===== *)
theory PromptServer
  imports RonghuaClient
begin

text \<open>
  The bulk requests of \<^verbatim>\<open>RonghuaClient\<close> against a server that answers every request, in any
  order: the call returns, with the answers in the order of the requests.
\<close>

section \<open>Sending\<close>

text \<open>The numbers given to \<^verbatim>\<open>n\<close> requests after \<^verbatim>\<open>c\<close>.\<close>

abbreviation numbers :: "int \<Rightarrow> nat \<Rightarrow> int list" where
  "numbers c n \<equiv> map (\<lambda>i. c + 1 + int i) [0..<n]"

lemma numbers_Suc: "numbers c (Suc n) = (c + 1) # numbers (c + 1) n"
  by (simp add: upt_conv_Cons map_Suc_upt [symmetric] comp_def del: upt_Suc)

lemma send_all_numbered:
  assumes "client_set s" "socket_open s" "write_faults s = []" "0 \<le> id_counter s"
    and "id_counter s + int (length xs) < 2 ^ 31"
    and "list_all2 (request_fits J rpc) xs (numbers (id_counter s) (length xs))"
  shows "foldE (send_one J rpc) xs acc s = (Inr (acc @ numbers (id_counter s) (length xs)),
    s\<lparr>id_counter := id_counter s + int (length xs),
      sent := sent s @ map2 (request_text J rpc) xs (numbers (id_counter s) (length xs))\<rparr>)"
  using assms
proof (induction xs arbitrary: acc s)
  case Nil
  then show ?case by simp
next
  case (Cons x xs)
  let ?n = "id_counter s + 1"
  let ?s1 = "s\<lparr>id_counter := ?n, sent := sent s @ [request_text J rpc x ?n]\<rparr>"
  have len: "request_fits J rpc x ?n"
    and rest: "list_all2 (request_fits J rpc) xs (numbers ?n (length xs))"
    using Cons.prems(6) unfolding length_Cons numbers_Suc by simp_all
  have n: "wrap_int ?n = ?n" using Cons.prems(4,5) by (intro wrap_int_id) simp_all
  from Cons.prems(1-3) len n have one: "send_one J rpc x acc s = (Inr (acc @ [?n]), ?s1)"
    by (simp add: send_one_def bindE_def next_id_def Let_def send_request_no_response_def with_client_eval
        socket_send_fits)
  have ih: "foldE (send_one J rpc) xs (acc @ [?n]) ?s1 = (Inr ((acc @ [?n]) @ numbers ?n (length xs)),
    ?s1\<lparr>id_counter := ?n + int (length xs),
      sent := sent ?s1 @ map2 (request_text J rpc) xs (numbers ?n (length xs))\<rparr>)"
    using Cons.IH [of ?s1 "acc @ [?n]"] Cons.prems(1-5) rest by (simp add: add.assoc)
  show ?case
    unfolding foldE.simps bindE_Inr [of "send_one J rpc x acc", OF one] ih length_Cons numbers_Suc by simp
qed

section \<open>Receiving\<close>

text \<open>A client between two requests: connected, receiving, nothing pending.\<close>

definition idle :: "'j RonghuaClient \<Rightarrow> bool" where
  "idle s \<longleftrightarrow> client_set s \<and> socket_open s \<and> write_faults s = [] \<and> receiving s \<and> oss s = [] \<and> queue s = []"

text \<open>Messages are taken from the script until the condition holds.\<close>

lemma pump_messages:
  fixes s :: "'j RonghuaClient"
  assumes "list_all2 (message_reads J) readss js" "receiving s" "oss s = []"
    and "\<forall>k < length js. \<not> ready (rev (map (from_json J) (take k js)) @ queue s)"
    and "ready (rev (map (from_json J) js) @ queue s)"
  shows "\<exists>s'. pump J timed ready (map (ReadSome None) (concat readss) @ es) s = s' \<and>
    queue s' = rev (map (from_json J) js) @ queue s \<and> events s' = es \<and> receiving s' \<and> oss s' = [] \<and>
    sent s' = sent s \<and> write_faults s' = write_faults s \<and> socket_open s' = socket_open s \<and>
    client_set s' = client_set s \<and> id_counter s' = id_counter s"
  using assms
proof (induction readss js arbitrary: s rule: list_all2_induct)
  case Nil
  then show ?case by (simp add: receiving_def)
next
  case (Cons reads readss j js)
  let ?s1 = "receive_chunks J reads s"
  from Cons.hyps(1) have r: "assembles J (oss s) reads j" using Cons.prems(2) by (simp add: message_reads_def)
  from receive_chunks_message [OF r Cons.prems(1)] have
    s1: "receiving ?s1" "oss ?s1 = []" "queue ?s1 = from_json J j # queue s" by simp_all
  have wait: "\<not> ready (queue s)" using Cons.prems(3) by fastforce
  have "\<forall>k < length js. \<not> ready (rev (map (from_json J) (take k js)) @ queue ?s1)"
    using Cons.prems(3) s1(3) by (metis Suc_less_eq append_Cons append_Nil append_assoc length_Cons
        list.simps(9) rev.simps(2) take_Suc_Cons)
  with Cons.IH [OF s1(1,2)] Cons.prems(4) s1(3) pump_reads [where ready = ready, OF r Cons.prems(1) wait]
  show ?case by (simp add: receive_chunks_frame receive_chunks_client)
qed

section \<open>The replies\<close>

text \<open>The reads of a reply to request \<^verbatim>\<open>n\<close> from which \<^verbatim>\<open>parse\<close> gives \<^verbatim>\<open>v\<close>.\<close>

definition reply_reads :: "'j json_api \<Rightarrow> ('j \<Rightarrow> 'a result \<times> 'j) \<Rightarrow> string list \<Rightarrow> int \<times> 'a \<Rightarrow> bool" where
  "reply_reads J parse reads = (\<lambda>(n, v). \<exists>reply. message_reads J reads (js_object J reply) \<and>
     map_of reply ''id'' = Some (js_int J n) \<and> fst (parse (js_object J reply)) = Inr v)"

definition reply_message :: "'j json_api \<Rightarrow> ('j \<Rightarrow> 'a result \<times> 'j) \<Rightarrow> 'j \<Rightarrow> int \<times> 'a \<Rightarrow> bool" where
  "reply_message J parse j = (\<lambda>(n, v). (\<forall>cid. matches_id cid (from_json J j) \<longleftrightarrow> cid = n) \<and>
     fst (parse j) = Inr v)"

lemma reply_reads_parsed:
  assumes "json_documented J" "reply_reads J parse reads (n, v)" "0 \<le> n" "n < 2 ^ 31"
  shows "\<exists>j. message_reads J reads j \<and> reply_message J parse j (n, v)"
proof -
  from assms(2) obtain reply where r: "message_reads J reads (js_object J reply)"
    "map_of reply ''id'' = Some (js_int J n)" "fst (parse (js_object J reply)) = Inr v"
    by (auto simp: reply_reads_def)
  have "at_get J (js_get_int J) (js_object J reply) ''id'' = Inr n"
    using assms r by (simp add: at_get_member json_facts)
  with r assms(3) show ?thesis
    by (intro exI [where x = "js_object J reply"]) (auto simp: reply_message_def matches_id_def from_json_def)
qed

lemma all_replies_parsed:
  assumes "json_documented J" "list_all2 (reply_reads J parse) readss answers"
    and "\<forall>n \<in> fst ` set answers. 0 \<le> n \<and> n < 2 ^ 31"
  shows "\<exists>js. list_all2 (message_reads J) readss js \<and> list_all2 (reply_message J parse) js answers"
  using assms(2,3)
proof (induction readss answers rule: list_all2_induct)
  case (Cons reads readss a answers)
  then obtain js where "list_all2 (message_reads J) readss js" "list_all2 (reply_message J parse) js answers" by auto
  moreover obtain j where "message_reads J reads j" "reply_message J parse j a"
    using reply_reads_parsed [OF assms(1), of parse reads "fst a" "snd a"] Cons by fastforce
  ultimately show ?case by (intro exI [where x = "j # js"]) simp
qed simp

lemma reply_messages_in:
  assumes "list_all2 (reply_message J parse) js answers" "distinct (map fst answers)"
    and "m \<in> set (map (from_json J) js)" "matches_id n m"
  shows "\<exists>v. map_of answers n = Some v \<and> fst (parse (msg_json m)) = Inr v"
  using assms
proof (induction js answers rule: list_all2_induct)
  case (Cons j js a answers)
  obtain k v where a: "a = (k, v)" by fastforce
  show ?case
  proof (cases "m = from_json J j")
    case True
    with Cons a show ?thesis by (auto simp: reply_message_def from_json_def)
  next
    case False
    with Cons obtain v' where v': "map_of answers n = Some v'" "fst (parse (msg_json m)) = Inr v'" by auto
    then have "n \<in> fst ` set answers" by (metis map_of_eq_None_iff option.distinct(1))
    with Cons.prems(1) a v' show ?thesis by auto
  qed
qed simp

lemma reply_messages_contain:
  assumes "list_all2 (reply_message J parse) js answers"
  shows "(\<exists>m \<in> set (map (from_json J) js). matches_id n m) \<longleftrightarrow> n \<in> fst ` set answers"
  using assms by (induction js answers rule: list_all2_induct) (auto simp: reply_message_def)

lemma read_all_values:
  "list_all2 (\<lambda>r v. fst (parse r) = Inr v) rs vs \<Longrightarrow> read_all J rpc parse rs acc = Inr (acc @ vs)"
proof (induction rs vs arbitrary: acc rule: list_all2_induct)
  case Nil
  then show ?case by (simp add: read_all_def)
next
  case (Cons r rs v vs)
  then show ?case by (cases "parse r") (simp add: read_all_def)
qed

lemma numbers_distinct: "distinct (numbers c n)"
  by (auto simp: distinct_map inj_on_def)

section \<open>A whole chunk\<close>

text \<open>All replies of a chunk are in the queue: they are taken in the order of the numbers.\<close>

lemma pop_all_replies:
  assumes "list_all2 (reply_message J parse) js answers" "mset (map fst answers) = mset ids" "distinct ids"
    and "\<forall>n \<in> set ids. 0 \<le> n" "pop_reply_bulk ids (rev (map (from_json J) js)) = (ms, q)"
  shows "q = [] \<and> list_all2 (\<lambda>r v. fst (parse r) = Inr v) (map msg_json ms) (map (\<lambda>n. the (map_of answers n)) ids)"
proof -
  let ?q = "rev (map (from_json J) js)"
  have keys: "set (map fst answers) = set ids" "distinct (map fst answers)" "length js = length ids"
    using mset_eq_setD [OF assms(2)] mset_eq_imp_distinct_iff [OF assms(2)] mset_eq_length [OF assms(2)] assms(3)
      list_all2_lengthD [OF assms(1)] by auto
  have "contains_msg_with_id_bulk ids ?q"
    using reply_messages_contain [OF assms(1)] keys(1) by (simp add: bulk_ready_iff)
  from pop_reply_bulk_all [OF assms(3,4) this assms(5)] pop_reply_bulk_spec [OF assms(5)]
  have ms: "length ms = length ids" "list_all2 matches_id ids ms" "mset ?q = mset ms + mset q" by simp_all
  from arg_cong [OF ms(3), of size] ms(1) keys(3) have "q = []" by simp
  moreover have "fst (parse (msg_json (ms ! i))) = Inr (the (map_of answers (ids ! i)))"
    if "i < length ids" for i
  proof -
    have "set ms \<subseteq> set (map (from_json J) js)" using arg_cong [OF ms(3), of set_mset] by auto
    with that ms(1) have "ms ! i \<in> set (map (from_json J) js)" by (metis nth_mem subsetD)
    from reply_messages_in [OF assms(1) keys(2) this, of "ids ! i"] ms(2) that show ?thesis
      by (auto simp: list_all2_conv_all_nth)
  qed
  ultimately show ?thesis using ms(1) by (simp add: list_all2_conv_all_nth)
qed

text \<open>As long as a reply of the chunk is missing the wait goes on.\<close>

lemma chunk_incomplete:
  assumes "list_all2 (reply_message J parse) js answers" "mset (map fst answers) = mset ids" "distinct ids" "k < length js"
  shows "\<not> contains_msg_with_id_bulk ids (rev (map (from_json J) (take k js)))"
proof
  assume "contains_msg_with_id_bulk ids (rev (map (from_json J) (take k js)))"
  then have "set ids \<subseteq> fst ` set (take k answers)"
    using reply_messages_contain [OF list_all2_takeI [OF assms(1)], of k]
    by (auto simp: bulk_ready_iff simp del: set_map)
  then have "card (set ids) \<le> card (fst ` set (take k answers))" by (intro card_mono) simp_all
  also have "\<dots> \<le> length (map fst (take k answers))"
    using card_length [of "map fst (take k answers)"] by (simp only: set_map)
  also have "\<dots> < length ids"
    using assms(4) list_all2_lengthD [OF assms(1)] mset_eq_length [OF assms(2)] by simp
  finally show False unfolding distinct_card [OF assms(3)] by simp
qed

lemma do_bulk_prompt:
  assumes "json_documented J" "idle s" "0 \<le> id_counter s" "id_counter s + int (length xs) < 2 ^ 31"
    and "list_all2 (request_fits J rpc) xs (numbers (id_counter s) (length xs))"
    and "events s = map (ReadSome None) (concat readss) @ es" "list_all2 (reply_reads J parse) readss answers"
    and "mset (map fst answers) = mset (numbers (id_counter s) (length xs))"
  shows "\<exists>s'. do_bulk J rpc parse xs acc s =
      (Inr (acc @ map (\<lambda>n. the (map_of answers n)) (numbers (id_counter s) (length xs))), s') \<and>
    sent s' = sent s @ map2 (request_text J rpc) xs (numbers (id_counter s) (length xs)) \<and>
    idle s' \<and> id_counter s' = id_counter s + int (length xs) \<and> events s' = es"
proof -
  let ?ids = "numbers (id_counter s) (length xs)"
  let ?s1 = "s\<lparr>id_counter := id_counter s + int (length xs), sent := sent s @ map2 (request_text J rpc) xs ?ids\<rparr>"
  from assms(2) have idle: "client_set s" "socket_open s" "write_faults s = []" "receiving s" "oss s = []" "queue s = []"
    by (simp_all add: idle_def)
  have send: "send_all J rpc xs s = (Inr ?ids, ?s1)"
    using send_all_numbered [OF idle(1-3) assms(3-5), of "[]"] by (simp add: send_all_def)
  have keys: "fst ` set answers = set ?ids"
    using mset_eq_setD [OF assms(8)] by simp
  have range: "\<forall>n \<in> set ?ids. 0 \<le> n \<and> n < 2 ^ 31" using assms(3,4) by auto
  from all_replies_parsed [OF assms(1,7)] keys range obtain js where
    js: "list_all2 (message_reads J) readss js" "list_all2 (reply_message J parse) js answers" by auto
  have contains: "contains_msg_with_id_bulk ?ids (rev (map (from_json J) js))"
    using reply_messages_contain [OF js(2)] keys by (simp add: bulk_ready_iff del: set_map)
  note missing = chunk_incomplete [OF js(2) assms(8) numbers_distinct]
  have s1: "receiving ?s1" "oss ?s1 = []" "queue ?s1 = []" "events ?s1 = map (ReadSome None) (concat readss) @ es"
    using idle assms(6) by (simp_all add: receiving_def)
  from pump_messages [OF js(1) s1(1,2), of "contains_msg_with_id_bulk ?ids" True es] contains missing obtain s2 where
    pump: "pump J True (contains_msg_with_id_bulk ?ids) (events ?s1) ?s1 = s2" and
    s2: "queue s2 = rev (map (from_json J) js)" "events s2 = es" "receiving s2" "oss s2 = []" "sent s2 = sent ?s1"
      "write_faults s2 = []" "socket_open s2" "client_set s2" "id_counter s2 = id_counter ?s1"
    unfolding s1(3,4) append_Nil2 using idle by auto
  obtain ms q where pop: "pop_reply_bulk ?ids (rev (map (from_json J) js)) = (ms, q)" by fastforce
  from pop_all_replies [OF js(2) assms(8) numbers_distinct _ pop] range have
    q: "q = []" and vals: "list_all2 (\<lambda>r v. fst (parse r) = Inr v) (map msg_json ms)
      (map (\<lambda>n. the (map_of answers n)) ?ids)" by auto
  have "receive_response_bulk J ?ids ?s1 = (Inr (map msg_json ms), s2\<lparr>queue := []\<rparr>)"
    using pop pump s2(1,3) q contains by (simp add: receive_response_bulk_def queue_pop_reply_bulk_def wait_for_def bindE_def
        Let_def)
  with send idle(1) s2 read_all_values [OF vals, of J rpc acc] show ?thesis
    by (simp add: do_bulk_def bindE_def with_client_eval idle_def receiving_def)
qed

section \<open>All chunks\<close>

text \<open>The replies come in any order within a chunk: those to the requests of a chunk all come
  before those to the next one, whose requests are not sent before.\<close>

definition chunkwise :: "nat \<Rightarrow> int list \<Rightarrow> (int \<times> 'a) list \<Rightarrow> bool" where
  "chunkwise k ns answers \<longleftrightarrow> length answers = length ns \<and>
     (\<forall>i. mset (map fst (take k (drop (k * i) answers))) = mset (take k (drop (k * i) ns)))"

lemma chunkwise_first: "chunkwise k ns answers \<Longrightarrow> mset (map fst (take k answers)) = mset (take k ns)"
  unfolding chunkwise_def by (metis drop0 mult_0_right)

lemma chunkwise_rest:
  fixes answers :: "(int \<times> 'a) list"
  assumes "chunkwise k ns answers"
  shows "chunkwise k (drop k ns) (drop k answers)"
proof -
  have drop: "drop (k * i) (drop k xs) = drop (k * Suc i) xs" for i and xs :: "(int \<times> 'a) list"
    by (simp add: add.commute)
  have drop': "drop (k * i) (drop k xs) = drop (k * Suc i) xs" for i and xs :: "int list"
    by (simp add: add.commute)
  from assms have "mset (map fst (take k (drop (k * Suc i) answers))) = mset (take k (drop (k * Suc i) ns))" for i
    unfolding chunkwise_def by blast
  with assms show ?thesis unfolding chunkwise_def drop [symmetric] drop' [symmetric] by simp
qed

text \<open>A single chunk.\<close>

lemma chunkwise_one:
  assumes "mset (map fst answers) = mset ns" "length ns \<le> k"
  shows "chunkwise k ns answers"
proof -
  have len: "length answers = length ns" using mset_eq_length [OF assms(1)] by simp
  have "mset (map fst (take k (drop (k * i) answers))) = mset (take k (drop (k * i) ns))" for i
    using assms len by (cases i) simp_all
  with len show ?thesis by (simp add: chunkwise_def)
qed

lemma take_numbers: "take k (numbers c n) = numbers c (min k n)"
  by (rule nth_equalityI) simp_all

lemma drop_numbers: "drop k (numbers c n) = numbers (c + int (min k n)) (n - k)"
proof (rule nth_equalityI)
  show "length (drop k (numbers c n)) = length (numbers (c + int (min k n)) (n - k))" by simp
next
  fix i assume "i < length (drop k (numbers c n))"
  then have "k + i < n" "min k n = k" by simp_all
  then show "drop k (numbers c n) ! i = numbers (c + int (min k n)) (n - k) ! i" by simp
qed

text \<open>Looking up the answers chunk by chunk.\<close>

lemma answers_split:
  assumes "chunkwise k ns answers" "distinct ns"
  shows "map (\<lambda>n. the (map_of answers n)) ns =
    map (\<lambda>n. the (map_of (take k answers) n)) (take k ns) @ map (\<lambda>n. the (map_of (drop k answers) n)) (drop k ns)"
proof -
  have keys: "fst ` set (take k answers) = set (take k ns)"
    using mset_eq_setD [OF chunkwise_first [OF assms(1)]] by simp
  have split: "map_of answers = map_of (drop k answers) ++ map_of (take k answers)"
    by (metis append_take_drop_id map_of_append)
  have "map_of answers n = map_of (take k answers) n" if "n \<in> set (take k ns)" for n
    using that keys unfolding split by (metis map_add_find_right map_of_eq_None_iff not_None_eq)
  moreover have "map_of answers n = map_of (drop k answers) n" if "n \<in> set (drop k ns)" for n
  proof -
    have "n \<notin> set (take k ns)" using that set_take_disj_set_drop_if_distinct [OF assms(2), of k k] by auto
    with keys show ?thesis unfolding split by (metis map_add_dom_app_simps(3) dom_map_of_conv_image_fst)
  qed
  ultimately have "map (\<lambda>n. the (map_of answers n)) (take k ns @ drop k ns) =
      map (\<lambda>n. the (map_of (take k answers) n)) (take k ns) @ map (\<lambda>n. the (map_of (drop k answers) n)) (drop k ns)"
    unfolding map_append by (intro arg_cong2 [where f = append] map_cong) simp_all
  then show ?thesis by simp
qed

lemma bulk_loop_prompt:
  assumes "json_documented J" "0 < k" "idle s" "0 \<le> id_counter s" "id_counter s + int (length xs) < 2 ^ 31"
    and "list_all2 (request_fits J rpc) xs (numbers (id_counter s) (length xs))"
    and "events s = map (ReadSome None) (concat readss) @ es" "list_all2 (reply_reads J parse) readss answers"
    and "chunkwise k (numbers (id_counter s) (length xs)) answers" "length acc = length before"
  shows "\<exists>s'. bulk_loop (do_bulk J rpc parse) k (before @ xs) acc s =
      Some (Inr (acc @ map (\<lambda>n. the (map_of answers n)) (numbers (id_counter s) (length xs))), s') \<and>
    sent s' = sent s @ map2 (request_text J rpc) xs (numbers (id_counter s) (length xs)) \<and> idle s' \<and>
    id_counter s' = id_counter s + int (length xs) \<and> events s' = es"
  using assms(3-)
proof (induction "length xs" arbitrary: xs acc before s readss answers rule: less_induct)
  case less
  let ?f = "request_text J rpc"
  let ?c = "id_counter s"
  let ?ns = "numbers ?c (length xs)"
  show ?case
  proof (cases "xs = []")
    case True
    with less.prems show ?thesis by (simp add: bulk_loop.simps chunkwise_def)
  next
    case False
    let ?n = "min k (length xs)"
    let ?vs = "map (\<lambda>n. the (map_of (take k answers) n)) (take k ?ns)"
    have first: "take k ?ns = numbers ?c (length (take k xs))" by (simp add: take_numbers min.commute)
    have rest: "drop k ?ns = numbers (?c + int ?n) (length (drop k xs))" by (simp add: drop_numbers)
    have ev: "events s = map (ReadSome None) (concat (take k readss)) @ (map (ReadSome None) (concat (drop k readss)) @ es)"
      unfolding append_assoc [symmetric] map_append [symmetric] concat_append [symmetric] append_take_drop_id
      by (rule less.prems(5))
    have "\<exists>s'. do_bulk J rpc parse (take k xs) acc s = (Inr (acc @ ?vs), s') \<and>
      sent s' = sent s @ map2 ?f (take k xs) (take k ?ns) \<and> idle s' \<and> id_counter s' = ?c + int ?n \<and>
      events s' = map (ReadSome None) (concat (drop k readss)) @ es"
      unfolding first
      using do_bulk_prompt [OF assms(1) less.prems(1,2) _ _ ev, of "take k xs" rpc parse "take k answers" acc]
        less.prems(3) list_all2_takeI [OF less.prems(4), of k] list_all2_takeI [OF less.prems(6), of k]
        chunkwise_first [OF less.prems(7)] by (simp add: first min.commute)
    then obtain s1 where step: "do_bulk J rpc parse (take k xs) acc s = (Inr (acc @ ?vs), s1)"
      and s1: "sent s1 = sent s @ map2 ?f (take k xs) (take k ?ns)" "idle s1" "id_counter s1 = ?c + int ?n"
      "events s1 = map (ReadSome None) (concat (drop k readss)) @ es" by blast
    have smaller: "length (drop k xs) < length xs" using False assms(2) by simp
    let ?rest = "drop k xs" and ?ns' = "numbers (id_counter s1) (length (drop k xs))"
    have rest: "drop k ?ns = ?ns'" using s1(3) by (simp add: drop_numbers)
    have prems: "id_counter s1 + int (length ?rest) < 2 ^ 31" "0 \<le> id_counter s1"
      "list_all2 (request_fits J rpc) ?rest ?ns'"
      "list_all2 (reply_reads J parse) (drop k readss) (drop k answers)" "chunkwise k ?ns' (drop k answers)"
      "length (acc @ ?vs) = length (before @ take k xs)"
      using less.prems s1(3) chunkwise_rest [OF less.prems(7)] list_all2_dropI [OF less.prems(6), of k]
        list_all2_dropI [OF less.prems(4), of k] by (simp_all add: rest)
    from less.hyps [OF smaller s1(2) prems(2,1,3) s1(4) prems(4-6)] obtain s' where
      loop: "bulk_loop (do_bulk J rpc parse) k ((before @ take k xs) @ ?rest) (acc @ ?vs) s1 =
        Some (Inr ((acc @ ?vs) @ map (\<lambda>n. the (map_of (drop k answers) n)) ?ns'), s')"
      and s': "sent s' = sent s1 @ map2 ?f ?rest ?ns'" "idle s'"
        "id_counter s' = id_counter s1 + int (length ?rest)" "events s' = es" by blast
    have "bulk_loop (do_bulk J rpc parse) k (before @ xs) acc s =
        bulk_loop (do_bulk J rpc parse) k (before @ xs) (acc @ ?vs) s1"
      using False step less.prems(8) by (subst bulk_loop.simps) simp
    moreover have "map2 ?f xs ?ns = map2 ?f (take k xs) (take k ?ns) @ map2 ?f ?rest (drop k ?ns)"
      by (metis append_take_drop_id drop_map drop_zip take_map take_zip)
    ultimately show ?thesis
      using loop s' s1(1,3) answers_split [OF less.prems(7) numbers_distinct] by (simp add: rest)
  qed
qed

text \<open>
  The replies to the requests \<^verbatim>\<open>xs\<close> numbered after \<^verbatim>\<open>c\<close>: each is a message in the reads, those of a
  chunk of \<^verbatim>\<open>k\<close> in any order, and \<^verbatim>\<open>vs\<close> are the values \<^verbatim>\<open>parse\<close> finds in them, in the order of the
  requests. The requests fit the buffer they are sent from.
\<close>

definition prompt_replies ::
    "'j json_api \<Rightarrow> string \<Rightarrow> nat \<Rightarrow> ('j \<Rightarrow> 'a result \<times> 'j) \<Rightarrow> int \<Rightarrow> string list \<Rightarrow> string list list \<Rightarrow> 'a list \<Rightarrow> bool" where
  "prompt_replies J rpc k parse c xs readss vs \<longleftrightarrow>
     list_all2 (request_fits J rpc) xs (numbers c (length xs)) \<and>
     (\<exists>answers. list_all2 (reply_reads J parse) readss answers \<and> chunkwise k (numbers c (length xs)) answers \<and>
        vs = map (\<lambda>n. the (map_of answers n)) (numbers c (length xs)))"

lemma prompt_replies_length: "prompt_replies J rpc k parse c xs readss vs \<Longrightarrow> length vs = length xs"
  by (auto simp: prompt_replies_def)

text \<open>A single chunk.\<close>

lemma prompt_replies_one:
  assumes "list_all2 (reply_reads J parse) readss replies" "length xs \<le> k"
    and "list_all2 (request_fits J rpc) xs (numbers c (length xs))"
    and "mset (map fst replies) = mset (numbers c (length xs))"
    and "map (\<lambda>n. the (map_of replies n)) (numbers c (length xs)) = vs"
  shows "prompt_replies J rpc k parse c xs readss vs"
  unfolding prompt_replies_def using assms by (intro conjI exI [where x = replies]) (auto intro: chunkwise_one)

lemma run_bulk_prompt:
  assumes "json_documented J" "0 < k" "idle s" "0 \<le> id_counter s" "id_counter s + int (length xs) < 2 ^ 31"
    and "prompt_replies J rpc k parse (id_counter s) xs readss vs" "events s = map (ReadSome None) (concat readss) @ es"
  shows "\<exists>s'. run_bulk (do_bulk J rpc parse) k xs s = (Inr vs, s') \<and>
    sent s' = sent s @ map2 (request_text J rpc) xs (numbers (id_counter s) (length xs)) \<and> idle s' \<and>
    id_counter s' = id_counter s + int (length xs) \<and> events s' = es"
proof -
  from assms(6) obtain answers where
    r: "list_all2 (request_fits J rpc) xs (numbers (id_counter s) (length xs))"
    "list_all2 (reply_reads J parse) readss answers" "chunkwise k (numbers (id_counter s) (length xs)) answers"
    "vs = map (\<lambda>n. the (map_of answers n)) (numbers (id_counter s) (length xs))" by (auto simp: prompt_replies_def)
  from bulk_loop_prompt [OF assms(1-5) r(1) assms(7) r(2,3), of "[]" "[]"] r(4) show ?thesis
    by (auto simp: run_bulk_def)
qed

text \<open>The two bulk operations. History requests go out in chunks of 25.\<close>

lemma history_bulk_returns:
  assumes "json_documented J" "idle s" "0 \<le> id_counter s" "id_counter s + int (length xs) < 2 ^ 31"
    and "prompt_replies J ''blockchain.scripthash.get_history'' 25
           (index_result J (\<lambda>v. address_history_from_json J ahi0 v [])) (id_counter s) xs readss hists"
    and "events s = map (ReadSome None) (concat readss) @ es"
  shows "\<exists>s'. getHistoryBulk J ahi0 xs cbs s = (Inr hists, s') \<and>
    sent s' = sent s @ map2 (request_text J ''blockchain.scripthash.get_history'') xs
      (numbers (id_counter s) (length xs)) \<and> idle s' \<and>
    id_counter s' = id_counter s + int (length xs) \<and> events s' = es"
  unfolding getHistoryBulk_def doGetHistoryBulk_def by (rule run_bulk_prompt) (use assms in simp_all)

lemma transaction_bulk_returns:
  assumes "json_documented J" "idle s" "0 \<le> id_counter s" "id_counter s + int (length ids) < 2 ^ 31"
    and "prompt_replies J ''blockchain.transaction.get'' 100 (at_result J (js_get_string J)) (id_counter s)
           ids readss texts"
    and "events s = map (ReadSome None) (concat readss) @ es"
  shows "\<exists>s'. getTransactionBulk J ids cbs s = (Inr texts, s') \<and>
    sent s' = sent s @ map2 (request_text J ''blockchain.transaction.get'') ids (numbers (id_counter s) (length ids)) \<and>
    idle s' \<and> id_counter s' = id_counter s + int (length ids) \<and> events s' = es"
  unfolding getTransactionBulk_def doGetTransactionBulk_def by (rule run_bulk_prompt) (use assms in simp_all)

section \<open>A server for closed examples\<close>

text \<open>A JSON library whose parser knows the texts of a table, each of them a reply.\<close>

definition table_json :: "(string \<times> (string \<times> json) list) list \<Rightarrow> json json_api" where
  "table_json replies = sample_json\<lparr>js_parse := \<lambda>t. case map_of replies t of
       Some reply \<Rightarrow> Inr (JObject reply) | None \<Rightarrow> Inl (ParseError ''parse_error'')\<rparr>"

lemma table_json_documented: "json_documented (table_json replies)" "dump_documented (table_json replies)"
  using sample_json_documented sample_dump_documented
  unfolding json_documented_def dump_documented_def
  by (simp_all add: table_json_def electrum_request_to_json_def)

lemma table_json_simps [simp]:
  "js_object (table_json replies) = JObject" "js_array (table_json replies) = JArray"
  "js_int (table_json replies) = JInt" "js_string (table_json replies) = JString"
  by (simp_all add: table_json_def sample_json_def)

lemma table_message_reads:
  assumes "map_of replies (concat reads) = Some reply" "\<forall>n < length (concat reads). map_of replies (take n (concat reads)) = None"
    and "reads \<noteq> []" "[] \<notin> set reads"
  shows "message_reads (table_json replies) reads (JObject reply)"
  using assms(3,4)
  by (intro complete_message_reads)
     (use assms(1,2) in \<open>simp_all add: complete_text_def unfinished_def table_json_def\<close>)

lemma table_reply_reads:
  assumes "map_of replies [c] = Some reply" "map_of replies [] = None" "map_of reply ''id'' = Some (JInt n)"
    and "fst (parse (JObject reply)) = Inr v"
  shows "reply_reads (table_json replies) parse [[c]] (n, v)"
  using assms table_message_reads [of replies "[[c]]" reply] by (auto simp: reply_reads_def)

lemma table_request_text: "request_text (table_json replies) = request_text sample_json"
  by (simp add: fun_eq_iff request_text_def electrum_request_to_json_def table_json_def)

lemma table_request_fits: "request_fits (table_json replies) = request_fits sample_json"
  by (simp add: fun_eq_iff request_fits_def table_request_text)
     (simp add: electrum_request_to_json_def table_json_def sample_json_def)

section \<open>Properties\<close>


lemma sample_reply_reads:
  assumes "message_reads sample_json reads (JObject [(''id'', JInt n), (''result'', JString v)])"
  shows "reply_reads sample_json (at_result sample_json (js_get_string sample_json)) reads (n, v)"
  unfolding reply_reads_def split
  by (intro exI [where x = "[(''id'', JInt n), (''result'', JString v)]"] conjI)
     (use assms in \<open>simp_all add: sample_json_def at_result_def at_get_def\<close>)


end
