(* ===== verification/ClientPayment.thy ===== *)
theory ClientPayment
  imports OnlineP2pkhTxCreator PromptServer
begin

text \<open>
  The payment creator of \<^verbatim>\<open>p2pkhtx\<close> over the Ronghua client of \<^verbatim>\<open>ronghuaclient\<close>: the coins come
  from a reply of the server, and the transaction goes back to it.
\<close>

section \<open>The coins of an address\<close>

lemma getUtxos_answered:
  assumes "json_documented J" "idle w" "0 \<le> id_counter w" "id_counter w < 2 ^ 31 - 1"
    and "request_fits J ''blockchain.scripthash.listunspent'' spkh (id_counter w + 1)"
    and "message_reads J reads (js_object J reply)" "events w = map (ReadSome None) reads @ es"
    and "map_of reply ''id'' = Some (js_int J (id_counter w + 1))"
    and "map_of reply ''result'' = Some (js_array J entries)" "list_all2 (utxo_object J) entries utxos"
  shows "\<exists>w'. getUtxos J spkh w = (Inr utxos, w') \<and>
    sent w' = sent w @ [request_text J ''blockchain.scripthash.listunspent'' spkh (id_counter w + 1)] \<and>
    idle w' \<and> events w' = es"
proof -
  let ?parse = "\<lambda>r. case js_index J r ''result'' of
      (Inl e, r') \<Rightarrow> (Inl e, r')
    | (Inr v, r') \<Rightarrow> if js_is_null J v then (Inr [], r')
        else at_result J (\<lambda>v. utxos_from_json J v []) r'"
  have "utxos_from_json J (js_array J entries) [] = Inr utxos"
    using utxos_items_acc [OF assms(1,10), of "[]" "[]"] assms(1) by (simp add: utxos_from_json_def json_facts)
  then have parse: "fst (?parse (js_object J reply)) = Inr utxos"
    using assms(1,9) by (simp add: json_facts at_result_def at_get_member)
  have quiet: "client_set w" "socket_open w" "write_faults w = []" "receiving w" "oss w = []"
    "\<not> contains_msg_with_id (id_counter w + 1) (queue w)"
    using assms(2) by (simp_all add: idle_def contains_msg_with_id_def find_msg_with_id_def)
  from request_answered [where parse = ?parse, OF assms(1) quiet(1-5) assms(3-5) quiet(6) assms(7,6,8) parse]
  show ?thesis using assms(2) unfolding getUtxos_def idle_def by auto
qed

section \<open>The payment\<close>

text \<open>What is left of the coins after amount and fee.\<close>

abbreviation payment_change :: "Utxo list \<Rightarrow> u64 \<Rightarrow> u64 \<Rightarrow> u64" where
  "payment_change utxos amount fee \<equiv> of_nat (utxos_total utxos) - (amount + fee)"

abbreviation spendable :: "Utxo list \<Rightarrow> Utxo list" where
  "spendable utxos \<equiv> filter (\<lambda>u. 0 < utxo_value u) utxos"

lemma payment_change_value:
  assumes "utxos_total utxos < 2 ^ 64" "unat amount + unat fee \<le> utxos_total utxos"
  shows "unat (payment_change utxos amount fee) = utxos_total utxos - (unat amount + unat fee)"
proof -
  have "unat (amount + fee) = unat amount + unat fee" using assms by (simp add: unat_plus_bound)
  moreover have "unat (of_nat (utxos_total utxos) :: u64) = utxos_total utxos"
    using assms(1) by (simp add: unat_of_nat take_bit_nat_eq_self)
  ultimately show ?thesis using assms(2) by (simp add: unat_minus_le word_le_nat_alt)
qed

lemma payment_from_coins:
  assumes "base58_to_spkh_hex L src_addr = Inr spkh" "ei_getUtxos E spkh w = (Inr utxos, w')"
    and "pa_version (lb_payment_address L target_addr) \<notin> {lb_mainnet_p2sh L, lb_testnet_p2sh L}"
    and "pa_valid (lb_payment_address L target_addr)" "pa_valid (lb_payment_address L src_addr)"
    and "utxos_total utxos < 2 ^ 64" "unat amount + unat fee \<le> utxos_total utxos" "0 < utxos_total utxos"
  shows "construct_p2pkh_tx_from_address_electrum L junk E src_addr key amount fee target_addr w =
    (Inr (lb_encode_base16 L (lb_tx_to_data L (p2pkh_transaction L (map (point_of_utxo L junk) (spendable utxos))
       (lb_payment_address L target_addr) (lb_payment_address L src_addr) key amount
       (payment_change utxos amount fee)))), w')"
proof -
  have needed: "unat (amount + fee) = unat amount + unat fee"
    using assms(6,7) by (simp add: unat_plus_bound)
  have "spendable utxos \<noteq> []"
  proof
    assume "spendable utxos = []"
    with utxos_total_positive [of utxos, symmetric] assms(8) show False by (simp only: list.map sum_list.Nil)
  qed
  with assms needed show ?thesis
    by (simp add: construct_p2pkh_tx_from_address_electrum_def bindE_def find_funds_utxos_value Let_def
        do_construct_p2pkh_Inr not_less)
qed

lemma payment_spends_all:
  assumes "construct_p2pkh_tx_from_address_electrum L junk E src_addr key amount fee target_addr w = (Inr hex, w')"
    and "base58_to_spkh_hex L src_addr = Inr spkh" "ei_getUtxos E spkh w = (Inr utxos, w1)"
  shows "\<exists>refund. hex = lb_encode_base16 L (lb_tx_to_data L
    (p2pkh_transaction L (map (point_of_utxo L junk) (spendable utxos)) (lb_payment_address L target_addr)
       (lb_payment_address L src_addr) key amount refund))"
  using assms
  by (auto simp: construct_p2pkh_tx_from_address_electrum_def bindE_def find_funds_utxos_eq Let_def
      do_construct_p2pkh_Inr split: if_splits)

section \<open>The size of a transaction\<close>

text \<open>
  Documented sizes: the serialised form of a transaction has at least 41 bytes for every input
  (the point of 36, the length of its script, the sequence of 4), and base 16 has two digits for a byte, which are ASCII characters.
\<close>

definition transaction_size_documented :: "libbitcoin \<Rightarrow> bool" where
  "transaction_size_documented L \<longleftrightarrow>
     (\<forall>tx. 41 * length (tx_inputs tx) \<le> length (lb_tx_to_data L tx)) \<and>
     (\<forall>d. length (lb_encode_base16 L d) = 2 * length d \<and> ascii (lb_encode_base16 L d))"

lemma payment_length:
  assumes "new_transaction_documented L" "transaction_size_documented L"
  shows "82 * length utxos \<le> length (lb_encode_base16 L (lb_tx_to_data L
    (p2pkh_transaction L utxos target src key amount refund)))"
proof -
  let ?tx = "p2pkh_transaction L utxos target src key amount refund"
  have "length (tx_inputs ?tx) = length utxos" using p2pkh_transaction_simps(2) [OF assms(1)] by (metis length_map)
  moreover have "41 * length (tx_inputs ?tx) \<le> length (lb_tx_to_data L ?tx)"
    using assms(2) unfolding transaction_size_documented_def by blast
  ultimately show ?thesis using assms(2) by (simp add: transaction_size_documented_def)
qed

section \<open>Closed examples\<close>

text \<open>The reply to request 1, with the given coins; its text is \<^verbatim>\<open>UU\<close>.\<close>

definition coin_object :: "Utxo \<Rightarrow> json" where
  "coin_object u = JObject [(''height'', JInt (utxo_height u)), (''tx_hash'', JString (tx_id u)),
     (''tx_pos'', JInt (uint (tx_pos u))), (''value'', JInt (uint (utxo_value u)))]"

definition coins_reply :: "Utxo list \<Rightarrow> (string \<times> json) list" where
  "coins_reply us = [(''id'', JInt 1), (''result'', JArray (map coin_object us))]"

abbreviation coins_json :: "Utxo list \<Rightarrow> json json_api" where
  "coins_json us \<equiv> table_json [(''UU'', coins_reply us)]"

lemma coins_json_objects:
  "list_all (\<lambda>u. - (2 ^ 31) \<le> utxo_height u \<and> utxo_height u < 2 ^ 31) us \<Longrightarrow>
   list_all2 (utxo_object (coins_json vs)) (map coin_object us) us"
  by (induction us) (auto simp: utxo_object_def coin_object_def)

lemma coins_json_reads: "message_reads (coins_json us) [''U'', ''U''] (js_object (coins_json us) (coins_reply us))"
  unfolding table_json_simps by (rule table_message_reads) (auto simp: take_Cons split: nat.splits)

abbreviation coins_client :: "json RonghuaClient" where
  "coins_client \<equiv> sample_ronghua\<lparr>events := [ReadSome None ''U'', ReadSome None ''U'']\<rparr>"

lemma coins_client_idle: "idle coins_client" "id_counter coins_client = 0"
  by (simp_all add: idle_def receiving_def sample_ronghua_def RonghuaClient_new_def)

definition sample_spkh :: string where
  "sample_spkh = sample_hex (rev ([0x76, 0xa9, 0x14] @ replicate 20 83 @ [0x88, 0xac]))"

lemma sample_source_spkh:
  "base58_to_spkh_hex sample_libbitcoin sample_source = Inr sample_spkh"
  "base58_to_spkh_hex (sample_libbitcoin\<lparr>lb_tx_to_data := f\<rparr>) sample_source = Inr sample_spkh"
  by (simp_all add: base58_to_spkh_hex_def sample_source_def sample_spkh_def sample_lb numeral_eq_Suc)

lemma coins_request_short:
  "request_fits (coins_json us) ''blockchain.scripthash.listunspent'' sample_spkh (0 + 1)"
  unfolding table_request_fits by code_simp

lemma coins_exchange:
  assumes "list_all (\<lambda>u. - (2 ^ 31) \<le> utxo_height u \<and> utxo_height u < 2 ^ 31) us"
  shows "\<exists>w'. getUtxos (coins_json us) sample_spkh coins_client = (Inr us, w') \<and> idle w'"
proof -
  let ?J = "coins_json us"
  have "0 \<le> id_counter coins_client" "id_counter coins_client < 2 ^ 31 - 1"
    "request_fits ?J ''blockchain.scripthash.listunspent'' sample_spkh (id_counter coins_client + 1)"
    unfolding coins_client_idle by (simp, simp, rule coins_request_short)
  moreover have "map_of (coins_reply us) ''id'' = Some (js_int ?J (id_counter coins_client + 1))"
    "map_of (coins_reply us) ''result'' = Some (js_array ?J (map coin_object us))"
    unfolding coins_client_idle by (simp_all add: coins_reply_def)
  moreover have "events coins_client = map (ReadSome None) [''U'', ''U''] @ []" by simp
  ultimately show ?thesis
    using getUtxos_answered [OF table_json_documented(1) coins_client_idle(1) _ _ _ coins_json_reads _ _ _
        coins_json_objects [OF assms], where es = "[]"] by blast
qed

text \<open>A library whose transactions have the documented size.\<close>

definition sized_libbitcoin :: libbitcoin where
  "sized_libbitcoin = sample_libbitcoin\<lparr>lb_tx_to_data := \<lambda>tx. replicate (41 * length (tx_inputs tx)) 0\<rparr>"

lemma sized_libbitcoin_documented:
  "new_transaction_documented sized_libbitcoin" "transaction_size_documented sized_libbitcoin"
proof -
  show "new_transaction_documented sized_libbitcoin"
    using sample_new_transaction_documented by (simp add: new_transaction_documented_def sized_libbitcoin_def)
  have "length (sample_hex d) = 2 * length d" for d by (induction d) (simp_all add: sample_hex_def)
  moreover have "ascii (sample_hex d)" for d
  proof (induction d)
    case (Cons b d)
    have "unat b < 256" using unsigned_less [of b] by simp
    then have "unat b div 16 < 80" "unat b mod 16 < 80" by presburger+
    with Cons show ?case by (simp add: sample_hex_def ascii_def of_char_of)
  qed (simp add: sample_hex_def ascii_def)
  ultimately show "transaction_size_documented sized_libbitcoin"
    by (simp add: transaction_size_documented_def sized_libbitcoin_def sample_lb)
qed

abbreviation blank_item :: AddressHistoryItem where
  "blank_item \<equiv> \<lparr>ahi_txid = [], ahi_height = 0, ahi_fresh = True\<rparr>"

definition many_coins :: "Utxo list" where
  "many_coins = replicate 19 \<lparr>tx_pos = 0, tx_id = ''A'', utxo_value = 9, utxo_height = 7\<rparr>"

section \<open>Properties\<close>

text \<open>
  C8. A payment over the client. When the client is idle, the server answers the one request for the
  coins of the source (in any number of reads), these cover amount and fee with a total below $2^{64}$,
  and the addresses are valid, the call returns a payment that
  spends every coin of positive value, in the order of the reply, each input signed for the
  finished transaction; it pays the amount to the target and what is left after the fee back to the
  source; nothing is lost, and the client is ready for the next request.
\<close>

theorem payment_over_client:
  assumes "json_documented J" "new_transaction_documented L" "endorsement_documented L"
    and "idle w" "0 \<le> id_counter w" "id_counter w < 2 ^ 31 - 1"
    and "base58_to_spkh_hex L src_addr = Inr spkh"
    and "request_fits J ''blockchain.scripthash.listunspent'' spkh (id_counter w + 1)"
    and "message_reads J reads (js_object J reply)" "events w = map (ReadSome None) reads @ es"
    and "map_of reply ''id'' = Some (js_int J (id_counter w + 1))"
    and "map_of reply ''result'' = Some (js_array J entries)" "list_all2 (utxo_object J) entries utxos"
    and "pa_version (lb_payment_address L target_addr) \<notin> {lb_mainnet_p2sh L, lb_testnet_p2sh L}"
    and "pa_valid (lb_payment_address L target_addr)" "pa_valid (lb_payment_address L src_addr)"
    and "utxos_total utxos < 2 ^ 64" "unat amount + unat fee \<le> utxos_total utxos" "0 < utxos_total utxos"
  shows "\<exists>tx w'. construct_p2pkh_tx_from_address_electrum L junk (ronghua_interface J ahi0) src_addr key
        amount fee target_addr w = (Inr (lb_encode_base16 L (lb_tx_to_data L tx)), w') \<and>
    map previous_output (tx_inputs tx) = map (point_of_utxo L junk) (spendable utxos) \<and>
    (\<forall>i < length (tx_inputs tx). in_script (tx_inputs tx ! i) = key_spend_script L key tx i) \<and>
    tx_outputs tx = \<lparr>out_value = amount,
        out_script = lb_to_pay_key_hash_pattern L (pa_hash (lb_payment_address L target_addr))\<rparr> #
      (if unat amount + unat fee = utxos_total utxos then []
       else [\<lparr>out_value = payment_change utxos amount fee,
              out_script = lb_to_pay_key_hash_pattern L (pa_hash (lb_payment_address L src_addr))\<rparr>]) \<and>
    outputs_total tx + unat fee = utxos_total utxos \<and>
    sent w' = sent w @ [request_text J ''blockchain.scripthash.listunspent'' spkh (id_counter w + 1)] \<and>
    idle w' \<and> events w' = es"
proof -
  let ?tx = "p2pkh_transaction L (map (point_of_utxo L junk) (spendable utxos)) (lb_payment_address L target_addr)
    (lb_payment_address L src_addr) key amount (payment_change utxos amount fee)"
  note tx = p2pkh_transaction_simps [OF assms(2), of "map (point_of_utxo L junk) (spendable utxos)"
      "lb_payment_address L target_addr" "lb_payment_address L src_addr" key amount "payment_change utxos amount fee"]
  from getUtxos_answered [OF assms(1,4-6,8-13)] obtain w' where
    w': "getUtxos J spkh w = (Inr utxos, w')" "idle w'" "events w' = es"
    "sent w' = sent w @ [request_text J ''blockchain.scripthash.listunspent'' spkh (id_counter w + 1)]" by blast
  have "ei_getUtxos (ronghua_interface J ahi0) spkh w = (Inr utxos, w')"
    using w'(1) by (simp add: ronghua_interface_def)
  note run = payment_from_coins [OF assms(7) this assms(14-19), of junk key]
  note change = payment_change_value [OF assms(17,18)]
  then have "0 < payment_change utxos amount fee \<longleftrightarrow> unat amount + unat fee \<noteq> utxos_total utxos"
    using assms(18) by (auto simp: word_less_nat_alt)
  moreover have "outputs_total ?tx + unat fee = utxos_total utxos"
    using p2pkh_transaction_total [OF assms(2)] change assms(18) by simp
  moreover have "length (tx_inputs ?tx) = length (map (point_of_utxo L junk) (spendable utxos))"
    using tx(2) by (metis length_map)
  ultimately show ?thesis
    using run tx w' p2pkh_transaction_scripts [OF assms(2,3), of _ "map (point_of_utxo L junk) (spendable utxos)"]
    by (intro exI [where x = ?tx] exI [where x = w']) simp
qed

theorem payment_over_client_witness:
  "\<exists>(tx :: transaction) w'. construct_p2pkh_tx_from_address_electrum sample_libbitcoin [] (ronghua_interface
        (coins_json sample_utxos) blank_item) sample_source \<lparr>ec_secret = [5], ec_version = 128\<rparr> 3 1 ''T'' coins_client =
      (Inr (lb_encode_base16 sample_libbitcoin (lb_tx_to_data sample_libbitcoin tx)), w') \<and>
    map (op_index \<circ> previous_output) (tx_inputs tx) = [0, 2] \<and> map out_value (tx_outputs tx) = [3, 8] \<and>
    sent w' \<noteq> [] \<and> idle w' \<and> events w' = []"
proof -
  let ?L = sample_libbitcoin and ?J = "coins_json sample_utxos"
  have fits: "list_all (\<lambda>u. - (2 ^ 31) \<le> utxo_height u \<and> utxo_height u < 2 ^ 31) sample_utxos"
    "utxos_total sample_utxos = 12" by (simp_all add: sample_utxos_def)
  have reply: "map_of (coins_reply sample_utxos) ''id'' = Some (js_int ?J (id_counter coins_client + 1))"
    "map_of (coins_reply sample_utxos) ''result'' = Some (js_array ?J (map coin_object sample_utxos))"
    unfolding coins_client_idle by (simp_all add: coins_reply_def)
  have "0 \<le> id_counter coins_client" "id_counter coins_client < 2 ^ 31 - 1"
    "request_fits ?J ''blockchain.scripthash.listunspent'' sample_spkh (id_counter coins_client + 1)"
    unfolding coins_client_idle by (simp, simp, rule coins_request_short)
  moreover have "events coins_client = map (ReadSome None) [''U'', ''U''] @ []" by simp
  moreover have "pa_version (lb_payment_address ?L ''T'') \<notin> {lb_mainnet_p2sh ?L, lb_testnet_p2sh ?L}"
    "pa_valid (lb_payment_address ?L ''T'')" "pa_valid (lb_payment_address ?L sample_source)"
    "unat (3 :: u64) + unat (1 :: u64) \<le> utxos_total sample_utxos" "0 < utxos_total sample_utxos"
    "utxos_total sample_utxos < 2 ^ 64"
    by (simp_all add: fits(2) sample_lb sample_source_def)
  ultimately obtain tx :: transaction and w' where
    "construct_p2pkh_tx_from_address_electrum ?L [] (ronghua_interface ?J blank_item) sample_source
       \<lparr>ec_secret = [5], ec_version = 128\<rparr> 3 1 ''T'' coins_client =
     (Inr (lb_encode_base16 ?L (lb_tx_to_data ?L tx)), w')" and
    tx: "map previous_output (tx_inputs tx) = map (point_of_utxo ?L []) (spendable sample_utxos)"
    "tx_outputs tx = \<lparr>out_value = 3, out_script = lb_to_pay_key_hash_pattern ?L (pa_hash (lb_payment_address ?L ''T''))\<rparr> #
      (if unat (3 :: u64) + unat (1 :: u64) = utxos_total sample_utxos then []
       else [\<lparr>out_value = payment_change sample_utxos 3 1,
              out_script = lb_to_pay_key_hash_pattern ?L (pa_hash (lb_payment_address ?L sample_source))\<rparr>])" and
    "sent w' = sent coins_client @ [request_text ?J ''blockchain.scripthash.listunspent'' sample_spkh
       (id_counter coins_client + 1)]" "idle w'" "events w' = []"
    using payment_over_client [OF table_json_documented(1) sample_new_transaction_documented
        sample_endorsement_documented coins_client_idle(1) _ _ sample_source_spkh(1) _ coins_json_reads _
        reply coins_json_objects [OF fits(1)], where target_addr = "''T''" and
        amount = 3 and fee = 1 and es = "[]" and junk = "[]" and key = "\<lparr>ec_secret = [5], ec_version = 128\<rparr>" and ?ahi0.0 = blank_item]
    by blast
  moreover have "map (op_index \<circ> previous_output) (tx_inputs tx) = [0, 2]"
    using arg_cong [OF tx(1), of "map op_index"] by (simp add: sample_utxos_def point_of_utxo_def)
  moreover have "map out_value (tx_outputs tx) = [3, 8]" by (simp add: tx(2) fits(2))
  ultimately show ?thesis by (intro exI [where x = tx] exI [where x = w']) simp
qed

text \<open>
  C39. Payments from an address with many coins cannot be broadcast. The creator spends every coin the
  server reports, so that from nineteen coins on the text of the payment exceeds the buffer of the
  client that is to send it: the call for which the payment was made is undefined behaviour, on every
  connected client, although the payment itself is constructed without complaint.
\<close>

theorem large_payment_cannot_be_broadcast:
  assumes "dump_documented J" "new_transaction_documented L" "transaction_size_documented L"
    and "base58_to_spkh_hex L src_addr = Inr spkh" "getUtxos J spkh w = (Inr utxos, w1)"
    and "construct_p2pkh_tx_from_address_electrum L junk (ronghua_interface J ahi0) src_addr key amount fee
           target_addr w = (Inr hex, w')"
    and "19 \<le> length (spendable utxos)" "client_set s"
  shows "fst (broadcastTransaction J hex s) = Inl UndefinedBehaviour"
proof -
  have "ei_getUtxos (ronghua_interface J ahi0) spkh w = (Inr utxos, w1)"
    using assms(5) by (simp add: ronghua_interface_def)
  from payment_spends_all [OF assms(6,4) this]
    payment_length [OF assms(2,3), of "map (point_of_utxo L junk) (spendable utxos)"]
  have "82 * length (spendable utxos) \<le> length hex" "ascii hex"
    using assms(3) by (fastforce simp: transaction_size_documented_def)+
  with assms(7) show ?thesis by (intro broadcast_overflows_buffer [OF assms(1,8)]) simp_all
qed

theorem large_payment_cannot_be_broadcast_witness:
  "\<exists>hex w'. construct_p2pkh_tx_from_address_electrum sized_libbitcoin [] (ronghua_interface (coins_json many_coins) blank_item)
      sample_source \<lparr>ec_secret = [5], ec_version = 128\<rparr> 3 1 ''T'' coins_client = (Inr hex, w') \<and>
    fst (broadcastTransaction (coins_json many_coins) hex w') = Inl UndefinedBehaviour"
proof -
  let ?L = sized_libbitcoin and ?J = "coins_json many_coins"
  have coins: "list_all (\<lambda>u. - (2 ^ 31) \<le> utxo_height u \<and> utxo_height u < 2 ^ 31) many_coins"
    "utxos_total many_coins = 171" "length (spendable many_coins) = 19"
    by (simp_all add: many_coins_def list_all_iff sum_list_replicate)
  have spkh: "base58_to_spkh_hex ?L sample_source = Inr sample_spkh"
    unfolding sized_libbitcoin_def by (rule sample_source_spkh(2))
  obtain w' where get: "getUtxos ?J sample_spkh coins_client = (Inr many_coins, w')" and "idle w'"
    using coins_exchange [OF coins(1)] by blast
  then have connected: "client_set w'" by (simp add: idle_def)
  have "ei_getUtxos (ronghua_interface ?J blank_item) sample_spkh coins_client = (Inr many_coins, w')"
    using get by (simp add: ronghua_interface_def)
  note run = payment_from_coins [OF spkh this, of "''T''" 3 1 "[]" "\<lparr>ec_secret = [5], ec_version = 128\<rparr>"]
  have "pa_version (lb_payment_address ?L ''T'') \<notin> {lb_mainnet_p2sh ?L, lb_testnet_p2sh ?L}"
    "pa_valid (lb_payment_address ?L ''T'')" "pa_valid (lb_payment_address ?L sample_source)"
    by (simp_all add: sized_libbitcoin_def sample_lb sample_source_def)
  then obtain hex where run: "construct_p2pkh_tx_from_address_electrum ?L [] (ronghua_interface ?J blank_item)
      sample_source \<lparr>ec_secret = [5], ec_version = 128\<rparr> 3 1 ''T'' coins_client = (Inr hex, w')"
    using run coins(2) by simp
  from large_payment_cannot_be_broadcast [OF table_json_documented(2) sized_libbitcoin_documented spkh get run _ connected]
    coins(3) run show ?thesis by auto
qed

end
