(* ===== verification/TimeLock.thy ===== *)
theory TimeLock
  imports OnlineLockTxCreator OfflineUnlockTxCreator ClientPayment
begin

text \<open>
  Time locks from end to end: what \<^verbatim>\<open>locktx\<close> locks (with coins from anywhere, and over the Ronghua
  client) \<^verbatim>\<open>unlocktx\<close> can spend, and nobody earlier.
\<close>

section \<open>Locking and unlocking\<close>

text \<open>
  Documented behaviour of \<^verbatim>\<open>encode_hash\<close> and \<^verbatim>\<open>decode_hash\<close>: the text of a digest reads back
  as the digest.
\<close>

definition hash_text_documented :: "libbitcoin \<Rightarrow> bool" where
  "hash_text_documented L \<longleftrightarrow> (\<forall>junk h. lb_decode_hash L junk (lb_encode_hash L h) = h)"

lemma sample_hash_text_documented: "hash_text_documented sample_libbitcoin"
proof -
  have "of_nat (of_char (char_of (unat b) :: char)) = b" for b :: u8
    using unsigned_less [of b, where 'a = nat] by (simp add: of_char_of)
  then show ?thesis by (simp add: hash_text_documented_def sample_lb comp_def)
qed

text \<open>The funding transaction id can be read back from the information text.\<close>

lemma unlocking_text_id:
  "unlocking_text lt n a v x = unlocking_text lt n a v y \<longleftrightarrow> x = y"
  by (simp add: unlocking_text_def)

lemma do_construct_lock_txid:
  assumes "do_construct_p2sh_time_locking_tx_from_address L local_time utxos available src_addr key amount fee
      lock_until = Inr info"
    and "unlocking_info info = unlocking_text local_time lock_until src_addr amount txid"
  shows "\<exists>refund. let tx = lock_transaction L utxos (lb_payment_address L src_addr) key amount refund lock_until
    in locking_tx info = lb_encode_base16 L (lb_tx_to_data L tx) \<and> txid = lb_encode_hash L (lb_tx_hash L tx)"
  using assms by (auto simp: do_construct_lock_Inr Let_def unlocking_text_id)

lemma construct_unlock_Inr:
  "construct_unlock_tx L junk key txid amount lock_until target = Inr hex \<Longrightarrow>
   hex = lb_encode_base16 L (lb_tx_to_data L (unlock_transaction L key (lb_decode_hash L junk txid)
     (lb_payment_address L target) amount lock_until))"
  by (auto simp: construct_unlock_tx_def Let_def split: if_splits)

text \<open>The unlocking transaction made for the hash of the locking transaction.\<close>

lemma unlock_spends_lock:
  assumes "new_transaction_documented L" "le32_documented L" "lock_until < 2 ^ 31"
    and redeem: "redeem = to_pay_key_hash_pattern_with_lock L (lb_public_key_data L key) lock_until"
    and tx1: "tx1 = lock_transaction L utxos src key amount refund lock_until"
    and tx2: "tx2 = unlock_transaction L key (lb_tx_hash L tx1) target amount' lock_until"
  shows "\<exists>spend sig.
    tx_outputs tx1 ! 0 = \<lparr>out_value = amount, out_script = lb_to_pay_script_hash_pattern L
      (lb_bitcoin_short_hash L (lb_script_to_data L redeem))\<rparr> \<and>
    tx_inputs tx2 = [spend] \<and> previous_output spend = \<lparr>op_hash = lb_tx_hash L tx1, op_index = 0\<rparr> \<and>
    in_script spend = [Push sig, Push (lb_script_to_data L redeem)] \<and>
    (\<forall>ok. ok (lb_public_key_data L key) sig \<longrightarrow>
       accepts \<lparr>ctx_locktime = tx_locktime tx2, ctx_sequence = in_sequence spend, ctx_signature_ok = ok\<rparr>
         redeem [sig]) \<and>
    (\<forall>c sig'. ctx_locktime c < lock_until \<longrightarrow> \<not> accepts c redeem [sig'])"
proof -
  have out: "tx_outputs tx1 ! 0 = \<lparr>out_value = amount, out_script = lb_to_pay_script_hash_pattern L
      (lb_bitcoin_short_hash L (lb_script_to_data L redeem))\<rparr>"
    using assms(1) by (simp add: tx1 redeem lock_transaction_simps lock_output_def Let_def)
  note fields = unlock_transaction_fields [of L key "lb_tx_hash L tx1" target amount' lock_until,
      folded tx2 redeem]
  obtain sig spend where spend: "tx_inputs tx2 = [spend]"
    "previous_output spend = \<lparr>op_hash = lb_tx_hash L tx1, op_index = 0\<rparr>"
    "in_sequence spend = 0" "in_script spend = [Push sig, Push (lb_script_to_data L redeem)]"
    using fields(1) assms(1) by (simp add: new_transaction_documented_def)
  have lt: "tx_locktime tx2 = lock_until"
    using fields(3) assms(1) by (simp add: new_transaction_documented_def)
  have acc: "accepts c redeem [sig'] \<longleftrightarrow>
      cltv_satisfied c (uint lock_until) \<and> ctx_signature_ok c (lb_public_key_data L key) sig'" for c sig'
    using accepts_redeem_script [OF assms(2)] assms(3) by (simp add: redeem script_num_le_bytes)
  have early: "\<not> cltv_satisfied c (uint lock_until)" if "ctx_locktime c < lock_until" for c
    using that by (simp add: cltv_satisfied_def word_less_def)
  have timely: "cltv_satisfied \<lparr>ctx_locktime = lock_until, ctx_sequence = 0, ctx_signature_ok = ok\<rparr> (uint lock_until)" for ok
    by (simp add: cltv_satisfied_def)
  show ?thesis
    using out spend lt acc early timely by (intro exI [where x = spend] exI [where x = sig]) simp
qed

section \<open>Properties\<close>

text \<open>
  C1. Funds that were locked until a time below $2^{31}$ can be unlocked, and not before that time
  (above $2^{31}$ they can never be unlocked, C40). From the transaction id that the information text of the locking call quotes, the unlocking call (same key, same
  lock time) builds a transaction whose only input spends output 0 of the locking transaction;
  the script bytes it reveals are those whose hash that output pays to, the script accepts it
  with a good signature, and it rejects every spend with an earlier lock time, whoever signs.
\<close>

theorem locked_funds_can_be_unlocked:
  assumes "new_transaction_documented L" "le32_documented L" "hash_text_documented L"
    and "lock_until < 2 ^ 31"
    and "do_construct_p2sh_time_locking_tx_from_address L local_time utxos available src_addr key amount fee
           lock_until = Inr info"
    and "unlocking_info info = unlocking_text local_time lock_until src_addr amount txid"
    and "construct_unlock_tx L junk key txid amount' lock_until target = Inr hex"
  shows "\<exists>tx1 tx2 spend sig redeem.
    locking_tx info = lb_encode_base16 L (lb_tx_to_data L tx1) \<and>
    hex = lb_encode_base16 L (lb_tx_to_data L tx2) \<and>
    tx_outputs tx1 ! 0 = \<lparr>out_value = amount, out_script = lb_to_pay_script_hash_pattern L
      (lb_bitcoin_short_hash L (lb_script_to_data L redeem))\<rparr> \<and>
    tx_inputs tx2 = [spend] \<and> previous_output spend = \<lparr>op_hash = lb_tx_hash L tx1, op_index = 0\<rparr> \<and>
    in_script spend = [Push sig, Push (lb_script_to_data L redeem)] \<and>
    (\<forall>ok. ok (lb_public_key_data L key) sig \<longrightarrow>
       accepts \<lparr>ctx_locktime = tx_locktime tx2, ctx_sequence = in_sequence spend, ctx_signature_ok = ok\<rparr>
         redeem [sig]) \<and>
    (\<forall>c sig'. ctx_locktime c < lock_until \<longrightarrow> \<not> accepts c redeem [sig'])"
proof -
  from do_construct_lock_txid [OF assms(5,6)] obtain refund where
    lock: "locking_tx info = lb_encode_base16 L (lb_tx_to_data L
      (lock_transaction L utxos (lb_payment_address L src_addr) key amount refund lock_until))"
    and id: "txid = lb_encode_hash L (lb_tx_hash L
      (lock_transaction L utxos (lb_payment_address L src_addr) key amount refund lock_until))"
    unfolding Let_def by blast
  let ?tx1 = "lock_transaction L utxos (lb_payment_address L src_addr) key amount refund lock_until"
  let ?tx2 = "unlock_transaction L key (lb_tx_hash L ?tx1) (lb_payment_address L target) amount' lock_until"
  have "hex = lb_encode_base16 L (lb_tx_to_data L ?tx2)"
    using construct_unlock_Inr [OF assms(7)] assms(3) id by (simp add: hash_text_documented_def)
  with lock unlock_spends_lock [OF assms(1,2,4) refl refl refl, of utxos "lb_payment_address L src_addr" key amount refund
      "lb_payment_address L target" amount'] show ?thesis by blast
qed

theorem locked_funds_can_be_unlocked_witness:
  "\<exists>info txid hex tx1 (tx2 :: transaction) (spend :: txin).
    do_construct_p2sh_time_locking_tx_from_address sample_libbitcoin (\<lambda>_. []) [\<lparr>op_hash = [7], op_index = 1\<rparr>] 900
      ''S'' \<lparr>ec_secret = [5], ec_version = 128\<rparr> 700 50 1500000000 = Inr info \<and>
    construct_unlock_tx sample_libbitcoin [] \<lparr>ec_secret = [5], ec_version = 128\<rparr> txid 650 1500000000 ''T''
      = Inr hex \<and>
    locking_tx info = lb_encode_base16 sample_libbitcoin (lb_tx_to_data sample_libbitcoin tx1) \<and>
    tx_inputs tx2 = [spend] \<and>
    previous_output spend = \<lparr>op_hash = lb_tx_hash sample_libbitcoin tx1, op_index = 0\<rparr>"
proof -
  let ?key = "\<lparr>ec_secret = [5], ec_version = 128\<rparr>"
  let ?lock = "do_construct_p2sh_time_locking_tx_from_address sample_libbitcoin (\<lambda>_. [])
    [\<lparr>op_hash = [7], op_index = 1\<rparr>] 900 ''S'' ?key 700 50 1500000000"
  have le32: "le32_documented sample_libbitcoin"
    by (simp add: le32_documented_def sample_lb le_bytes_def)
  have "?lock \<noteq> Inl e" for e
    by (simp add: do_construct_p2sh_time_locking_tx_from_address_def Let_def sample_lb
        to_pay_key_hash_pattern_with_lock_def)
  then obtain info where lock: "?lock = Inr info" by (cases ?lock) auto
  then obtain txid where quoted: "unlocking_info info = unlocking_text (\<lambda>_. []) 1500000000 ''S'' 700 txid"
    by (auto simp: do_construct_lock_Inr Let_def)
  let ?unlock = "construct_unlock_tx sample_libbitcoin [] ?key txid 650 1500000000 ''T''"
  have "?unlock \<noteq> Inl e" for e
    by (simp add: construct_unlock_tx_def Let_def sample_lb to_pay_key_hash_pattern_with_lock_def)
  then obtain hex where unlock: "?unlock = Inr hex" by (cases ?unlock) auto
  have "(1500000000 :: u32) < 2 ^ 31" by simp
  from locked_funds_can_be_unlocked [OF sample_new_transaction_documented le32 sample_hash_text_documented
      this lock quoted unlock] lock unlock show ?thesis
    by (elim exE conjE) (intro exI conjI, assumption+)
qed

text \<open>The lock over an Electrum client that has the coins.\<close>

lemma lock_from_coins:
  assumes "base58_to_spkh_hex L src_addr = Inr spkh" "ei_getUtxos E spkh w = (Inr utxos, w')"
    and "lb_script_is_valid L (to_pay_key_hash_pattern_with_lock L (lb_public_key_data L key) lock_until)"
    and "pa_valid (lb_payment_address L src_addr)"
    and "utxos_total utxos < 2 ^ 64" "unat amount + unat fee \<le> utxos_total utxos" "0 < utxos_total utxos"
  shows "construct_p2sh_time_locking_tx_from_address_electrum L local_time junk E src_addr key amount fee lock_until w =
    (let tx = lock_transaction L (map (point_of_utxo L junk) (spendable utxos)) (lb_payment_address L src_addr) key amount
       (payment_change utxos amount fee) lock_until
     in (Inr \<lparr>locking_tx = lb_encode_base16 L (lb_tx_to_data L tx), unlocking_info = unlocking_text local_time
           lock_until src_addr amount (lb_encode_hash L (lb_tx_hash L tx))\<rparr>, w'))"
proof -
  have needed: "unat (amount + fee) = unat amount + unat fee"
    using assms(5,6) by (simp add: unat_plus_bound)
  have "spendable utxos \<noteq> []"
  proof
    assume "spendable utxos = []"
    with utxos_total_positive [of utxos, symmetric] assms(7) show False by (simp only: list.map sum_list.Nil)
  qed
  with assms needed show ?thesis
    by (simp add: construct_p2sh_time_locking_tx_from_address_electrum_def bindE_def find_funds_utxos_value Let_def
        do_construct_lock_Inr not_less)
qed

text \<open>
  C2. A time lock over the client, from the coins to the unlocked funds, for a lock time below $2^{31}$
  (above it the locked funds can never be unlocked, C40). When the client is idle, the server answers the
  one request for the coins of the source (in any number of reads), these cover amount and fee with a
  total below $2^{64}$, and the redeem script and the addresses are valid, the locking call returns; its transaction spends every coin of positive value, each input signed for the
  finished transaction, locks the amount to the hash of the redeem script, and loses nothing; the
  client is ready for the next request. Given the key and the transaction id quoted in the information
  text the unlocking call returns too, with a transaction that pays the target and whose one
  input spends the locked output: it reveals the redeem script, which accepts it with a good
  signature, and which nobody satisfies before the lock time.
\<close>

theorem time_lock_over_client:
  assumes "json_documented J" "new_transaction_documented L" "endorsement_documented L" "le32_documented L"
    and "hash_text_documented L" "idle w" "0 \<le> id_counter w" "id_counter w < 2 ^ 31 - 1"
    and "base58_to_spkh_hex L src_addr = Inr spkh"
    and "request_fits J ''blockchain.scripthash.listunspent'' spkh (id_counter w + 1)"
    and "message_reads J reads (js_object J reply)" "events w = map (ReadSome None) reads @ es"
    and "map_of reply ''id'' = Some (js_int J (id_counter w + 1))"
    and "map_of reply ''result'' = Some (js_array J entries)" "list_all2 (utxo_object J) entries utxos"
    and "redeem = to_pay_key_hash_pattern_with_lock L (lb_public_key_data L key) lock_until"
    and "lb_script_is_valid L redeem" "pa_valid (lb_payment_address L src_addr)" "lock_until < 2 ^ 31"
    and "utxos_total utxos < 2 ^ 64" "unat amount + unat fee \<le> utxos_total utxos" "0 < utxos_total utxos"
    and "pa_version (lb_payment_address L target) \<notin> {lb_mainnet_p2sh L, lb_testnet_p2sh L}"
    and "pa_valid (lb_payment_address L target)"
  shows "\<exists>tx1 txid w' tx2 spend sig.
    construct_p2sh_time_locking_tx_from_address_electrum L local_time junk (ronghua_interface J ahi0) src_addr key
        amount fee lock_until w =
      (Inr \<lparr>locking_tx = lb_encode_base16 L (lb_tx_to_data L tx1),
            unlocking_info = unlocking_text local_time lock_until src_addr amount txid\<rparr>, w') \<and>
    sent w' = sent w @ [request_text J ''blockchain.scripthash.listunspent'' spkh (id_counter w + 1)] \<and>
    idle w' \<and> events w' = es \<and>
    map previous_output (tx_inputs tx1) = map (point_of_utxo L junk) (spendable utxos) \<and>
    (\<forall>i < length (tx_inputs tx1). in_script (tx_inputs tx1 ! i) = key_spend_script L key tx1 i) \<and>
    outputs_total tx1 + unat fee = utxos_total utxos \<and>
    tx_outputs tx1 ! 0 = \<lparr>out_value = amount, out_script = lb_to_pay_script_hash_pattern L
      (lb_bitcoin_short_hash L (lb_script_to_data L redeem))\<rparr> \<and>
    construct_unlock_tx L junk' key txid amount' lock_until target = Inr (lb_encode_base16 L (lb_tx_to_data L tx2)) \<and>
    tx_outputs tx2 = [\<lparr>out_value = amount', out_script = lb_to_pay_key_hash_pattern L (pa_hash (lb_payment_address L target))\<rparr>] \<and>
    tx_inputs tx2 = [spend] \<and> previous_output spend = \<lparr>op_hash = lb_tx_hash L tx1, op_index = 0\<rparr> \<and>
    in_script spend = [Push sig, Push (lb_script_to_data L redeem)] \<and>
    (\<forall>ok. ok (lb_public_key_data L key) sig \<longrightarrow>
       accepts \<lparr>ctx_locktime = tx_locktime tx2, ctx_sequence = in_sequence spend, ctx_signature_ok = ok\<rparr> redeem [sig]) \<and>
    (\<forall>c sig'. ctx_locktime c < lock_until \<longrightarrow> \<not> accepts c redeem [sig'])"
proof -
  let ?coins = "map (point_of_utxo L junk) (spendable utxos)"
  let ?tx1 = "lock_transaction L ?coins (lb_payment_address L src_addr) key amount (payment_change utxos amount fee) lock_until"
  let ?tx2 = "unlock_transaction L key (lb_tx_hash L ?tx1) (lb_payment_address L target) amount' lock_until"
  from getUtxos_answered [OF assms(1,6-8,10-15)] obtain w' where
    w': "getUtxos J spkh w = (Inr utxos, w')" "idle w'" "events w' = es"
    "sent w' = sent w @ [request_text J ''blockchain.scripthash.listunspent'' spkh (id_counter w + 1)]" by blast
  have "ei_getUtxos (ronghua_interface J ahi0) spkh w = (Inr utxos, w')"
    using w'(1) by (simp add: ronghua_interface_def)
  note lock = lock_from_coins [OF assms(9) this assms(17) [unfolded assms(16)] assms(18,20-22), of local_time junk, unfolded Let_def]
  note payment_change_value [OF assms(20,21)]
  then have total: "outputs_total ?tx1 + unat fee = utxos_total utxos"
    using lock_transaction_total [OF assms(2)] assms(21) by simp
  have prev: "map previous_output (tx_inputs ?tx1) = ?coins" by (rule lock_transaction_simps(2) [OF assms(2)])
  then have "length (tx_inputs ?tx1) = length ?coins" by (metis length_map)
  then have signed: "\<forall>i < length (tx_inputs ?tx1). in_script (tx_inputs ?tx1 ! i) = key_spend_script L key ?tx1 i"
    using lock_transaction_scripts [OF assms(2,3)] by simp
  have "construct_unlock_tx L junk' key (lb_encode_hash L (lb_tx_hash L ?tx1)) amount' lock_until target =
      Inr (lb_encode_base16 L (lb_tx_to_data L ?tx2))"
    using assms(5,16,17,23,24) by (simp add: construct_unlock_tx_def Let_def hash_text_documented_def)
  moreover have "tx_outputs ?tx2 = [\<lparr>out_value = amount', out_script = lb_to_pay_key_hash_pattern L (pa_hash (lb_payment_address L target))\<rparr>]"
    using assms(2) by (simp add: unlock_transaction_fields new_transaction_documented_def)
  ultimately show ?thesis
    using lock w'(2-4) prev signed total unlock_spends_lock [OF assms(2,4,19,16) refl refl, of ?coins "lb_payment_address L src_addr"
        amount "payment_change utxos amount fee" "lb_payment_address L target" amount']
    by (elim exE conjE) (intro exI conjI, (assumption | rule refl)+)
qed

theorem time_lock_over_client_witness:
  "\<exists>(tx1 :: transaction) txid w' (tx2 :: transaction) (spend :: txin).
    construct_p2sh_time_locking_tx_from_address_electrum sample_libbitcoin (\<lambda>_. []) [] (ronghua_interface
        (coins_json sample_utxos) blank_item) sample_source \<lparr>ec_secret = [5], ec_version = 128\<rparr> 3 1 1500000000 coins_client =
      (Inr \<lparr>locking_tx = lb_encode_base16 sample_libbitcoin (lb_tx_to_data sample_libbitcoin tx1),
            unlocking_info = unlocking_text (\<lambda>_. []) 1500000000 sample_source 3 txid\<rparr>, w') \<and>
    map (op_index \<circ> previous_output) (tx_inputs tx1) = [0, 2] \<and> outputs_total tx1 = 11 \<and> idle w' \<and>
    construct_unlock_tx sample_libbitcoin [] \<lparr>ec_secret = [5], ec_version = 128\<rparr> txid 2 1500000000 ''T'' =
      Inr (lb_encode_base16 sample_libbitcoin (lb_tx_to_data sample_libbitcoin tx2)) \<and>
    tx_inputs tx2 = [spend] \<and>
    previous_output spend = \<lparr>op_hash = lb_tx_hash sample_libbitcoin tx1, op_index = 0\<rparr>"
proof -
  let ?L = sample_libbitcoin and ?J = "coins_json sample_utxos" and ?key = "\<lparr>ec_secret = [5], ec_version = 128\<rparr>"
  let ?redeem = "to_pay_key_hash_pattern_with_lock ?L (lb_public_key_data ?L ?key) 1500000000"
  have fits: "list_all (\<lambda>u. - (2 ^ 31) \<le> utxo_height u \<and> utxo_height u < 2 ^ 31) sample_utxos"
    "utxos_total sample_utxos = 12" by (simp_all add: sample_utxos_def)
  have reply: "map_of (coins_reply sample_utxos) ''id'' = Some (js_int ?J (id_counter coins_client + 1))"
    "map_of (coins_reply sample_utxos) ''result'' = Some (js_array ?J (map coin_object sample_utxos))"
    unfolding coins_client_idle by (simp_all add: coins_reply_def)
  have request: "0 \<le> id_counter coins_client" "id_counter coins_client < 2 ^ 31 - 1"
    "request_fits ?J ''blockchain.scripthash.listunspent'' sample_spkh (id_counter coins_client + 1)"
    unfolding coins_client_idle by (simp, simp, rule coins_request_short)
  have events: "events coins_client = map (ReadSome None) [''U'', ''U''] @ []" by simp
  have docs: "le32_documented ?L" "lb_script_is_valid ?L ?redeem" "pa_valid (lb_payment_address ?L sample_source)"
    by (simp_all add: le32_documented_def sample_lb le_bytes_def sample_source_def to_pay_key_hash_pattern_with_lock_def)
  have total: "utxos_total sample_utxos < 2 ^ 64" "unat (3 :: u64) + unat (1 :: u64) \<le> utxos_total sample_utxos"
    "0 < utxos_total sample_utxos" unfolding fits(2) by simp_all
  have target: "pa_version (lb_payment_address ?L ''T'') \<notin> {lb_mainnet_p2sh ?L, lb_testnet_p2sh ?L}"
    "pa_valid (lb_payment_address ?L ''T'')" by (simp_all add: sample_lb)
  have until: "(1500000000 :: u32) < 2 ^ 31" by simp
  note run = time_lock_over_client [OF table_json_documented(1) sample_new_transaction_documented sample_endorsement_documented
      docs(1) sample_hash_text_documented coins_client_idle(1) request(1,2) sample_source_spkh(1) request(3) coins_json_reads
      events reply coins_json_objects [OF fits(1)] refl docs(2,3) until total target, of "\<lambda>_. []" "[]" blank_item "[]" 2]
  have index: "map (op_index \<circ> previous_output) (tx_inputs tx) = [0, 2]"
    if "map previous_output (tx_inputs tx) = map (point_of_utxo ?L []) (spendable sample_utxos)" for tx :: transaction
    using arg_cong [OF that, of "map op_index"] by (simp add: sample_utxos_def point_of_utxo_def)
  have sum: "outputs_total tx = 11" if "outputs_total tx + unat (1 :: u64) = utxos_total sample_utxos" for tx :: transaction
    using that fits(2) by simp
  from run show ?thesis
    by (elim exE conjE) (intro exI conjI, (assumption | erule index | erule sum)+)
qed

end
