(* ===== verification/PurseAccessor.thy ===== *)
theory PurseAccessor
  imports FundsFinder LibbClient AddressConverter ElectrumInterface
begin

text \<open>
  \<^verbatim>\<open>src/libbfunds/purse_accessor.cpp\<close>: looking through the addresses of a purse for one that
  can pay an amount. The operations act on the Electrum client's world, the Libbitcoin client
  and its world, and the maps the caller passes by reference.
\<close>

section \<open>Data\<close>

record AddressFundsInfo =
  afi_address :: string
  afi_requested_funds :: u64
  afi_actual_funds :: u64

record AddressFunds =
  af_address :: string
  af_requested_funds :: u64
  af_actual_funds :: u64
  af_points :: "output_point list"

record UtxoInfo =
  ui_address :: string
  ui_tx :: string
  ui_output_index :: u32
  ui_value :: u64
  ui_script :: string

record HistoryItem =
  hi_address :: string
  hi_txid :: string
  hi_txhex :: string
  hi_height :: int

type_synonym 'o libb_state = "LibbClient \<times> 'o"
type_synonym balances = "string \<rightharpoonup> u64"

section \<open>Looking for funds\<close>

definition obtain_funds ::
    "libbitcoin \<Rightarrow> ('o, 'h, 'hd) obelisk \<Rightarrow> u64 \<Rightarrow> string \<Rightarrow> ('o libb_state, AddressFunds) exec" where
  "obtain_funds L ob requested_funds a =
     bindE (fetch_utxo ob (lb_payment_address L a) requested_funds individual []) (\<lambda>points_value.
     let utxos_funds = find_funds L requested_funds points_value in
     ret \<lparr>af_address = a, af_requested_funds = requested_funds,
          af_actual_funds = snd utxos_funds, af_points = fst utxos_funds\<rparr>)"

definition no_funds :: AddressFunds where
  "no_funds = \<lparr>af_address = [], af_requested_funds = 0, af_actual_funds = 0, af_points = []\<rparr>"

fun look_for_funds_loop ::
    "libbitcoin \<Rightarrow> ('o, 'h, 'hd) obelisk \<Rightarrow> u64 \<Rightarrow> string list \<Rightarrow> AddressFunds \<Rightarrow>
     ('o libb_state, AddressFunds) exec" where
  "look_for_funds_loop L ob requested_funds [] maxFunds = ret maxFunds"
| "look_for_funds_loop L ob requested_funds (a # as) maxFunds =
     bindE (obtain_funds L ob requested_funds a) (\<lambda>funds.
       if requested_funds \<le> af_actual_funds funds then ret funds
       else look_for_funds_loop L ob requested_funds as
              (if af_actual_funds maxFunds \<le> af_actual_funds funds then funds else maxFunds))"

definition look_for_funds ::
    "libbitcoin \<Rightarrow> ('o, 'h, 'hd) obelisk \<Rightarrow> u64 \<Rightarrow> string list \<Rightarrow> ('o libb_state, AddressFunds) exec" where
  "look_for_funds L ob requested_funds addresses =
     look_for_funds_loop L ob requested_funds addresses no_funds"

text \<open>
  With a balance first: the Libbitcoin server is asked only about an address whose confirmed
  balance suffices, and every balance read is noted in the caller's map. The state is the map,
  the Electrum client and the Libbitcoin client.
\<close>

definition read_balance ::
    "libbitcoin \<Rightarrow> ('j, 'w) ElectrumInterface \<Rightarrow> string \<Rightarrow> (balances \<times> 'w \<times> 'o, u64) exec" where
  "read_balance L E a =
     bindE (liftR (base58_to_spkh_hex L a)) (\<lambda>address_spkh.
     bindE (on_snd (on_fst (ei_getBalance E address_spkh))) (\<lambda>balance.
     bindE (modifyS (\<lambda>(address_to_balance, w). (address_to_balance(a \<mapsto> confirmed balance), w))) (\<lambda>_.
     ret (confirmed balance))))"

fun look_for_funds_by_balance_loop ::
    "libbitcoin \<Rightarrow> ('j, 'w) ElectrumInterface \<Rightarrow> ('o, 'h, 'hd) obelisk \<Rightarrow> u64 \<Rightarrow> string list \<Rightarrow>
     AddressFunds \<Rightarrow> (balances \<times> 'w \<times> 'o libb_state, AddressFunds) exec" where
  "look_for_funds_by_balance_loop L E ob requested_funds [] maxFunds = ret maxFunds"
| "look_for_funds_by_balance_loop L E ob requested_funds (a # as) maxFunds =
     bindE (read_balance L E a) (\<lambda>balance.
       if requested_funds \<le> balance then
         bindE (on_snd (on_snd (obtain_funds L ob requested_funds a))) (\<lambda>funds.
           if requested_funds \<le> af_actual_funds funds then ret funds
           else look_for_funds_by_balance_loop L E ob requested_funds as
                  (if af_actual_funds maxFunds \<le> af_actual_funds funds then funds else maxFunds))
       else look_for_funds_by_balance_loop L E ob requested_funds as
              (if af_actual_funds maxFunds \<le> balance
               then \<lparr>af_address = a, af_requested_funds = requested_funds,
                     af_actual_funds = balance, af_points = []\<rparr>
               else maxFunds))"

definition look_for_funds_by_balance ::
    "libbitcoin \<Rightarrow> ('j, 'w) ElectrumInterface \<Rightarrow> ('o, 'h, 'hd) obelisk \<Rightarrow> u64 \<Rightarrow> string list \<Rightarrow>
     (balances \<times> 'w \<times> 'o libb_state, AddressFunds) exec" where
  "look_for_funds_by_balance L E ob requested_funds addresses =
     look_for_funds_by_balance_loop L E ob requested_funds addresses no_funds"

section \<open>Balances\<close>

definition scan_purse_balances ::
    "libbitcoin \<Rightarrow> ('j, 'w) ElectrumInterface \<Rightarrow> string list \<Rightarrow> (balances \<times> 'w \<times> 'o, unit) exec" where
  "scan_purse_balances L E addresses =
     forE (\<lambda>a. bindE (read_balance L E a) (\<lambda>_. ret ())) addresses"

fun look_for_address_loop ::
    "u64 \<Rightarrow> string list \<Rightarrow> balances \<Rightarrow> AddressFundsInfo \<Rightarrow> AddressFundsInfo result" where
  "look_for_address_loop requested_funds [] address_to_balance maxFunds = Inr maxFunds"
| "look_for_address_loop requested_funds (a # as) address_to_balance maxFunds =
     bindR (map_at address_to_balance a) (\<lambda>balance.
       let found = \<lparr>afi_address = a, afi_requested_funds = requested_funds, afi_actual_funds = balance\<rparr> in
       if requested_funds \<le> balance then Inr found
       else look_for_address_loop requested_funds as address_to_balance
              (if afi_actual_funds maxFunds \<le> balance then found else maxFunds))"

definition look_for_address_with_balance ::
    "u64 \<Rightarrow> string list \<Rightarrow> balances \<Rightarrow> AddressFundsInfo result" where
  "look_for_address_with_balance requested_funds addresses address_to_balance =
     look_for_address_loop requested_funds addresses address_to_balance
       \<lparr>afi_address = [], afi_requested_funds = 0, afi_actual_funds = 0\<rparr>"

section \<open>Unspent outputs and history\<close>

text \<open>Both maps are read with \<^verbatim>\<open>operator[]\<close>, which inserts what is missing.\<close>

definition find_utxos_of ::
    "libbitcoin \<Rightarrow> ('o, 'h, 'hd) obelisk \<Rightarrow> string \<Rightarrow>
     ((balances \<times> (string \<rightharpoonup> UtxoInfo list)) \<times> 'o libb_state, unit) exec" where
  "find_utxos_of L ob a = (\<lambda>((b, u), lc).
     case map_index 0 b a of (balance, b') \<Rightarrow>
       if 0 < balance then
         (case map_index [] u a of (known, u') \<Rightarrow>
            if known = [] then
              bindE (on_snd (fetch_utxo ob (lb_payment_address L a) 1 individual [])) (\<lambda>points_value.
                modifyS (\<lambda>((b, u), lc). ((b, u(a \<mapsto> map (\<lambda>p.
                  \<lparr>ui_address = a, ui_tx = lb_encode_hash L (pv_hash p), ui_output_index = pv_index p,
                   ui_value = pv_value p, ui_script = []\<rparr>) points_value)), lc)))
                ((b', u'), lc)
            else (Inr (), ((b', u'), lc)))
       else (Inr (), ((b', u), lc)))"

definition find_utxos ::
    "libbitcoin \<Rightarrow> ('o, 'h, 'hd) obelisk \<Rightarrow> string list \<Rightarrow>
     ((balances \<times> (string \<rightharpoonup> UtxoInfo list)) \<times> 'o libb_state, unit) exec" where
  "find_utxos L ob addresses = forE (find_utxos_of L ob) addresses"

definition find_history ::
    "libbitcoin \<Rightarrow> ('j, 'w) ElectrumInterface \<Rightarrow> string list \<Rightarrow> (HistoryItem list \<times> 'w, unit) exec" where
  "find_history L E addresses =
     forE (\<lambda>a.
       bindE (liftR (base58_to_spkh_hex L a)) (\<lambda>address_spkh.
       bindE (on_snd (ei_getHistory E address_spkh)) (\<lambda>history.
       forE (\<lambda>h. bindE (on_snd (ei_getTransaction E (ahi_txid h))) (\<lambda>txhex.
                  modifyS (\<lambda>(history_items, w). (history_items @
                    [\<lparr>hi_address = a, hi_txid = ahi_txid h, hi_txhex = txhex, hi_height = ahi_height h\<rparr>], w))))
            history))) addresses"

section \<open>The choice the three searches share\<close>

text \<open>
  The contract of the searches, over the candidates they have seen: the first one worth
  enough, or else the last of those worth most.
\<close>

fun pick :: "('a \<Rightarrow> u64) \<Rightarrow> u64 \<Rightarrow> 'a list \<Rightarrow> 'a \<Rightarrow> 'a" where
  "pick f n [] best = best"
| "pick f n (x # xs) best =
     (if n \<le> f x then x else pick f n xs (if f best \<le> f x then x else best))"

definition first_or_best :: "('a \<Rightarrow> u64) \<Rightarrow> u64 \<Rightarrow> 'a list \<Rightarrow> 'a \<Rightarrow> bool" where
  "first_or_best f n xs r \<longleftrightarrow>
     (\<exists>us vs. xs = us @ r # vs \<and>
       (if \<exists>x \<in> set xs. n \<le> f x then n \<le> f r \<and> (\<forall>y \<in> set us. f y < n)
        else (\<forall>y \<in> set us. f y \<le> f r) \<and> (\<forall>y \<in> set vs. f y < f r)))"

lemma pick_sufficient:
  "\<exists>x \<in> set xs. n \<le> f x \<Longrightarrow>
   \<exists>us vs. xs = us @ pick f n xs best # vs \<and> n \<le> f (pick f n xs best) \<and> (\<forall>y \<in> set us. f y < n)"
proof (induction xs arbitrary: best)
  case Nil
  then show ?case by simp
next
  case (Cons x xs)
  show ?case
  proof (cases "n \<le> f x")
    case True
    then show ?thesis by (intro exI [where x = "[]"] exI [where x = xs]) simp
  next
    case False
    with Cons.prems have "\<exists>x \<in> set xs. n \<le> f x" by simp
    from Cons.IH [OF this, of "if f best \<le> f x then x else best"] obtain us vs where
      "xs = us @ pick f n xs (if f best \<le> f x then x else best) # vs"
      "n \<le> f (pick f n xs (if f best \<le> f x then x else best))" "\<forall>y \<in> set us. f y < n" by blast
    with False show ?thesis by (intro exI [where x = "x # us"] exI [where x = vs]) (auto simp: not_le)
  qed
qed

lemma pick_best:
  "\<forall>x \<in> set xs. f x < n \<Longrightarrow>
   \<exists>us vs. best # xs = us @ pick f n xs best # vs \<and>
     (\<forall>y \<in> set us. f y \<le> f (pick f n xs best)) \<and> (\<forall>y \<in> set vs. f y < f (pick f n xs best))"
proof (induction xs arbitrary: best)
  case Nil
  show ?case by (intro exI [where x = "[]"]) simp
next
  case (Cons x xs)
  define b where "b = (if f best \<le> f x then x else best)"
  let ?r = "pick f n xs b"
  from Cons.prems have r: "pick f n (x # xs) best = ?r" by (auto simp: b_def dest: leD)
  from Cons obtain us vs where split: "b # xs = us @ ?r # vs"
    and us: "\<forall>y \<in> set us. f y \<le> f ?r" and vs: "\<forall>y \<in> set vs. f y < f ?r" by fastforce
  have b: "f best \<le> f b" "f x \<le> f b" "f b = f best \<and> b = best \<and> f x < f best \<or> b = x"
    by (auto simp: b_def)
  show ?case
  proof (cases us)
    case Nil
    with split have eq: "?r = b" "vs = xs" by auto
    show ?thesis
    proof (cases "b = x")
      case True
      with eq vs b show ?thesis
        unfolding r by (intro exI [where x = "[best]"] exI [where x = xs]) simp
    next
      case False
      with eq vs b show ?thesis
        unfolding r by (intro exI [where x = "[]"] exI [where x = "x # xs"]) (auto dest: leD)
    qed
  next
    case (Cons b' us2)
    with split us have "b' = b" "xs = us2 @ ?r # vs" "f b \<le> f ?r" by auto
    with us vs b Cons show ?thesis
      unfolding r by (intro exI [where x = "best # x # us2"] exI [where x = vs]) auto
  qed
qed

lemma pick_first_or_best:
  assumes "xs \<noteq> []" "f best \<le> f (hd xs)"
  shows "first_or_best f n xs (pick f n xs best)"
proof (cases "\<exists>x \<in> set xs. n \<le> f x")
  case True
  from pick_sufficient [OF this, of best] True show ?thesis
    unfolding first_or_best_def by auto
next
  case False
  obtain x ys where xs: "xs = x # ys" using assms(1) by (cases xs) auto
  with False assms have "pick f n xs best = pick f n ys x" "\<forall>y \<in> set ys. f y < n"
    by (auto simp: not_le)
  with pick_best [OF this(2), of x] False xs show ?thesis
    unfolding first_or_best_def by simp
qed

section \<open>What the operations do\<close>

text \<open>The candidate an address stands for in the noted balances.\<close>

definition candidate :: "u64 \<Rightarrow> balances \<Rightarrow> string \<Rightarrow> AddressFundsInfo" where
  "candidate n m a = \<lparr>afi_address = a, afi_requested_funds = n, afi_actual_funds = the (m a)\<rparr>"

lemma look_for_address_loop_pick:
  "\<forall>a \<in> set as. m a \<noteq> None \<Longrightarrow>
   look_for_address_loop n as m best = Inr (pick afi_actual_funds n (map (candidate n m) as) best)"
  by (induction as arbitrary: best) (auto simp: map_at_def candidate_def Let_def)

lemma look_for_address_known:
  "\<forall>a \<in> set as. m a \<noteq> None \<Longrightarrow> as \<noteq> [] \<Longrightarrow>
   \<exists>r. look_for_address_with_balance n as m = Inr r \<and>
     first_or_best afi_actual_funds n (map (candidate n m) as) r"
  by (auto simp: look_for_address_with_balance_def look_for_address_loop_pick intro!: pick_first_or_best)

lemma look_for_address_unknown:
  "\<forall>b \<in> set us. m b \<noteq> None \<and> the (m b) < n \<Longrightarrow> m a = None \<Longrightarrow>
   look_for_address_with_balance n (us @ a # vs) m = Inl (OutOfRange ''map::at'')"
proof -
  assume "\<forall>b \<in> set us. m b \<noteq> None \<and> the (m b) < n" "m a = None"
  then have "look_for_address_loop n (us @ a # vs) m best = Inl (OutOfRange ''map::at'')" for best
    by (induction us arbitrary: best) (auto simp: map_at_def Let_def dest: leD)
  then show ?thesis by (simp add: look_for_address_with_balance_def)
qed

lemma read_balance_Inr:
  "read_balance L E a (m, w, lc) = (Inr v, (m', w', lc')) \<Longrightarrow> m' = m(a \<mapsto> v) \<and> lc' = lc"
  by (auto simp: read_balance_def exec_simps split: prod.splits)

lemma scan_purse_balances_Inr:
  "scan_purse_balances L E as (m, w, lc) = (Inr (), (m', w', lc')) \<Longrightarrow>
     lc' = lc \<and> (\<forall>a \<in> set as. m' a \<noteq> None) \<and> (\<forall>a. m a \<noteq> None \<longrightarrow> m' a \<noteq> None)"
proof (induction as arbitrary: m w lc)
  case Nil
  then show ?case by (simp add: scan_purse_balances_def)
next
  case (Cons a as)
  then obtain v m1 w1 lc1 where r: "read_balance L E a (m, w, lc) = (Inr v, (m1, w1, lc1))"
    and s: "scan_purse_balances L E as (m1, w1, lc1) = (Inr (), (m', w', lc'))"
    by (auto simp: scan_purse_balances_def exec_simps)
  from read_balance_Inr [OF r] Cons.IH [OF s] show ?case by auto
qed

lemma find_funds_all_or_nothing: "snd (find_funds L n points) < n \<Longrightarrow> fst (find_funds L n points) = []"
  by (auto simp: find_funds_def split: prod.splits if_splits)

lemma obtain_funds_Inr:
  "obtain_funds L ob n a s = (Inr f, s') \<Longrightarrow>
     af_address f = a \<and> af_requested_funds f = n \<and> (af_actual_funds f < n \<longrightarrow> af_points f = [])"
  by (auto simp: obtain_funds_def exec_simps Let_def intro: find_funds_all_or_nothing)

text \<open>What the server offers when every address of a list is asked about in turn.\<close>

fun offers ::
    "libbitcoin \<Rightarrow> ('o, 'h, 'hd) obelisk \<Rightarrow> u64 \<Rightarrow> string list \<Rightarrow> ('o libb_state, AddressFunds list) exec" where
  "offers L ob n [] = ret []"
| "offers L ob n (a # as) =
     bindE (obtain_funds L ob n a) (\<lambda>f. bindE (offers L ob n as) (\<lambda>fs. ret (f # fs)))"

lemma offers_facts:
  "offers L ob n as s = (Inr fs, s') \<Longrightarrow>
     map af_address fs = as \<and> (\<forall>f \<in> set fs. af_actual_funds f < n \<longrightarrow> af_points f = [])"
  by (induction as arbitrary: s fs) (auto simp: exec_simps dest: obtain_funds_Inr)

lemma look_for_funds_loop_offers:
  "look_for_funds_loop L ob n as best s = (Inr r, s') \<Longrightarrow>
   \<exists>k fs. k \<le> length as \<and> offers L ob n (take k as) s = (Inr fs, s') \<and>
     r = pick af_actual_funds n fs best \<and> (\<forall>f \<in> set (butlast fs). af_actual_funds f < n) \<and>
     (k = length as \<or> (\<exists>f \<in> set fs. n \<le> af_actual_funds f)) \<and> (as \<noteq> [] \<longrightarrow> fs \<noteq> [])"
proof (induction as arbitrary: best s)
  case Nil
  then show ?case by simp
next
  case (Cons a as)
  then obtain f s1 where f: "obtain_funds L ob n a s = (Inr f, s1)"
    and rest: "(if n \<le> af_actual_funds f then ret f else look_for_funds_loop L ob n as
       (if af_actual_funds best \<le> af_actual_funds f then f else best)) s1 = (Inr r, s')"
    by (auto simp: exec_simps)
  show ?case
  proof (cases "n \<le> af_actual_funds f")
    case True
    with f rest show ?thesis by (intro exI [where x = "1"] exI [where x = "[f]"]) auto
  next
    case False
    with rest have "look_for_funds_loop L ob n as
      (if af_actual_funds best \<le> af_actual_funds f then f else best) s1 = (Inr r, s')" by simp
    from Cons.IH [OF this] obtain k fs where "k \<le> length as" "offers L ob n (take k as) s1 = (Inr fs, s')"
      "r = pick af_actual_funds n fs (if af_actual_funds best \<le> af_actual_funds f then f else best)"
      "k = length as \<or> (\<exists>f \<in> set fs. n \<le> af_actual_funds f)"
      "\<forall>f \<in> set (butlast fs). af_actual_funds f < n" by blast
    with f False show ?thesis by (intro exI [where x = "Suc k"] exI [where x = "f # fs"]) auto
  qed
qed

lemma find_utxos_of_keeps:
  "keeps (\<lambda>((b, u), lc). b a = Some v \<and> (u a = u0 \<or> v \<noteq> 0 \<and> u0 \<in> {None, Some []})) (find_utxos_of L ob a')"
  by (auto simp: keeps_def find_utxos_of_def map_index_def bindE_def on_snd_def word_gt_0
      split: option.splits prod.splits sum.splits if_splits)

text \<open>
  Whatever way the search ends, no balance already noted changes, and the outputs noted for
  an address are only replaced when there were none and the balance is positive.
\<close>

lemma find_utxos_keeps:
  assumes "find_utxos L ob addresses ((b, u), lc) = (x, ((b', u'), lc'))" "b a = Some v"
  shows "b' a = Some v \<and> (u' a \<noteq> u a \<longrightarrow> v \<noteq> 0 \<and> u a \<in> {None, Some []})"
proof -
  have "keeps (\<lambda>((b, u'), lc). b a = Some v \<and> (u' a = u a \<or> v \<noteq> 0 \<and> u a \<in> {None, Some []}))
    (find_utxos L ob addresses)"
    unfolding find_utxos_def by (intro keeps_forE find_utxos_of_keeps)
  from keepsD [OF this _ assms(1)] assms(2) show ?thesis by auto
qed

section \<open>Properties\<close>

text \<open>
  C29. The search for funds asks about the addresses in order and stops at the first that can
  pay: what it returns is the first offer that suffices, which is the last one it asked for, or, when
  it has asked about every address in vain, the last of the largest offers, and then without any
  points to spend. (The state afterwards is that after asking for the offers \<^verbatim>\<open>fs\<close> and nothing else.)
\<close>

theorem look_for_funds_first_or_best:
  assumes "look_for_funds L ob n addresses s = (Inr r, s')" "addresses \<noteq> []"
  shows "\<exists>k fs. k \<le> length addresses \<and> offers L ob n (take k addresses) s = (Inr fs, s') \<and>
    map af_address fs = take k addresses \<and> first_or_best af_actual_funds n fs r \<and>
    (\<forall>f \<in> set (butlast fs). af_actual_funds f < n) \<and> (n \<le> af_actual_funds r \<longrightarrow> r = last fs) \<and>
    (af_actual_funds r < n \<longrightarrow> k = length addresses \<and> af_points r = [])"
proof -
  from assms(1) have "look_for_funds_loop L ob n addresses no_funds s = (Inr r, s')"
    by (simp add: look_for_funds_def)
  from look_for_funds_loop_offers [OF this] assms(2) obtain k fs where k: "k \<le> length addresses"
    and fs: "offers L ob n (take k addresses) s = (Inr fs, s')" "fs \<noteq> []"
    and r: "r = pick af_actual_funds n fs no_funds"
    and before: "\<forall>f \<in> set (butlast fs). af_actual_funds f < n"
    and all: "k = length addresses \<or> (\<exists>f \<in> set fs. n \<le> af_actual_funds f)" by blast
  have fb: "first_or_best af_actual_funds n fs r"
    unfolding r by (rule pick_first_or_best) (simp_all add: fs no_funds_def)
  then have "r \<in> set fs" "(\<exists>f \<in> set fs. n \<le> af_actual_funds f) \<Longrightarrow> n \<le> af_actual_funds r"
    by (auto simp: first_or_best_def split: if_splits)
  moreover have "r = last fs" if "n \<le> af_actual_funds r"
  proof -
    have "set fs = insert (last fs) (set (butlast fs))"
      using fs(2) by (metis append_butlast_last_id list.set(1,2) set_append sup_bot_right Un_insert_right)
    with \<open>r \<in> set fs\<close> before that show ?thesis by (auto dest: leD)
  qed
  ultimately show ?thesis using k fs fb all before offers_facts [OF fs(1)]
    by (intro exI [where x = k] exI [where x = fs]) (auto dest: leD)
qed

theorem look_for_funds_first_or_best_witness:
  "\<exists>r s' k fs.
    look_for_funds sample_libbitcoin sample_obelisk 1000 [''a'', ''b'']
      (\<lparr>lc_client = True, lc_connection_server = [], lc_url = []\<rparr>, ()) = (Inr r, s') \<and>
    k \<le> Suc (Suc 0) \<and> map af_address fs = take k [''a'', ''b''] \<and> first_or_best af_actual_funds 1000 fs r \<and>
    (af_actual_funds r < 1000 \<longrightarrow> k = Suc (Suc 0) \<and> af_points r = [])"
proof -
  let ?r = "look_for_funds sample_libbitcoin sample_obelisk 1000 [''a'', ''b'']
      (\<lparr>lc_client = True, lc_connection_server = [], lc_url = []\<rparr>, ())"
  have "case fst ?r of Inl _ \<Rightarrow> False | Inr _ \<Rightarrow> True" by code_simp
  then obtain r s' where "?r = (Inr r, s')" by (cases ?r) (auto split: sum.splits)
  from look_for_funds_first_or_best [OF this] this show ?thesis
    by (auto simp del: split_paired_Ex)
qed

text \<open>
  Scanning the balances and then looking for an address cannot fail: after a scan that
  returned, the lookup finds every balance (\<^verbatim>\<open>map::at\<close> does not throw) and returns the first
  address whose balance suffices, or else the last of those with the largest balance. The scan
  does not touch the Libbitcoin client.
\<close>

theorem scan_then_look:
  assumes "scan_purse_balances L E addresses (m, w, lc) = (Inr (), (m', w', lc'))"
    and "addresses \<noteq> []"
  shows "lc' = lc \<and> (\<exists>r. look_for_address_with_balance n addresses m' = Inr r \<and>
    first_or_best afi_actual_funds n (map (candidate n m') addresses) r)"
  using scan_purse_balances_Inr [OF assms(1)] look_for_address_known assms(2) by blast

definition sample_purse :: "(unit, unit) ElectrumInterface" where
  "sample_purse =
    \<lparr>ei_scripthashSubscribe = (\<lambda>_. ret ()), ei_scripthashSubscribeBulk = (\<lambda>_. ret ()),
     ei_getHistory = (\<lambda>_. ret []), ei_getHistoryBulk = (\<lambda>as _. ret (map (\<lambda>_. []) as)),
     ei_getTransaction = ret, ei_getTransactionBulk = (\<lambda>ts _. ret ts),
     ei_getBalance = (\<lambda>_. ret \<lparr>confirmed = 12, unconfirmed = 0\<rparr>), ei_getBlockHeader = (\<lambda>_. ret []),
     ei_getUtxos = (\<lambda>_. ret []), ei_getServerPeers = ret [], ei_estimateFee = (\<lambda>_. ret 1),
     ei_broadcastTransaction = ret, ei_ping = ret (), ei_getVersion = (\<lambda>c vs. ret vs),
     ei_get_subscription_event = ret \<lparr>msg_json = (), msg_method = [], has_correlation_id = False,
        correlation_id = 0, msg_params = []\<rparr>,
     ei_do_interrupt = ret (), ei_stop = ret (),
     ei_subscribe_to_error_events = (\<lambda>_. ret ()), ei_clear_error_events_subscriptions = ret ()\<rparr>"

theorem scan_then_look_witness:
  "\<exists>m' r. scan_purse_balances sample_libbitcoin sample_purse [''SSSSSSSSSSSSSSSSSSSSSSSSS'']
      (Map.empty, (), ()) = (Inr (), (m', (), ())) \<and>
    look_for_address_with_balance 5 [''SSSSSSSSSSSSSSSSSSSSSSSSS''] m' = Inr r"
proof -
  let ?a = "''SSSSSSSSSSSSSSSSSSSSSSSSS''"
  have "scan_purse_balances sample_libbitcoin sample_purse [?a] (Map.empty, (), ()) =
      (Inr (), (Map.empty(?a \<mapsto> 12), (), ()))"
    by (simp add: scan_purse_balances_def read_balance_def base58_to_spkh_hex_def sample_lb
        sample_purse_def bindE_def)
  from scan_then_look [OF this] this show ?thesis by blast
qed

end
