(* ===== verification/PursePayment.thy ===== *)
theory PursePayment
  imports PurseAccessor ClientPayment
begin

text \<open>
  The purse over the Ronghua client: its balances are read one request at a time, the address that
  can pay is chosen from them, and the payment is built from the coins of that address, all over
  one connection.
\<close>

section \<open>One balance\<close>

text \<open>The reply to request \<^verbatim>\<open>n\<close>, which asks for the balance of a script hash, and its reads.\<close>

definition balance_reply :: "'j json_api \<Rightarrow> int \<Rightarrow> string \<Rightarrow> string list \<Rightarrow> AddressBalance \<Rightarrow> bool" where
  "balance_reply J n spkh reads b \<longleftrightarrow>
     request_fits J ''blockchain.scripthash.get_balance'' spkh n \<and>
     (\<exists>reply kvs. message_reads J reads (js_object J reply) \<and> map_of reply ''id'' = Some (js_int J n) \<and>
        map_of reply ''result'' = Some (js_object J kvs) \<and>
        map_of kvs ''confirmed'' = Some (js_int J (sint (confirmed b))) \<and>
        map_of kvs ''unconfirmed'' = Some (js_int J (sint (unconfirmed b))))"

lemma getBalance_answered:
  assumes "json_documented J" "idle w" "0 \<le> id_counter w" "id_counter w < 2 ^ 31 - 1"
    and "balance_reply J (id_counter w + 1) spkh reads b" "events w = map (ReadSome None) reads @ es"
  shows "\<exists>w'. getBalance J spkh w = (Inr b, w') \<and>
    sent w' = sent w @ [request_text J ''blockchain.scripthash.get_balance'' spkh (id_counter w + 1)] \<and>
    idle w' \<and> events w' = es \<and> id_counter w' = id_counter w + 1"
proof -
  from assms(5) obtain reply kvs where r: "message_reads J reads (js_object J reply)"
    "map_of reply ''id'' = Some (js_int J (id_counter w + 1))" "map_of reply ''result'' = Some (js_object J kvs)"
    "map_of kvs ''confirmed'' = Some (js_int J (sint (confirmed b)))"
    "map_of kvs ''unconfirmed'' = Some (js_int J (sint (unconfirmed b)))"
    and short: "request_fits J ''blockchain.scripthash.get_balance'' spkh (id_counter w + 1)"
    by (auto simp: balance_reply_def)
  have "address_balance_from_json J (js_object J kvs) = Inr b"
    using assms(1) r(4,5) by (cases b) (simp add: address_balance_from_json_def at_get_member json_facts)
  then have parse: "fst (index_result J (address_balance_from_json J) (js_object J reply)) = Inr b"
    using assms(1) r(3) by (simp add: index_result_def json_facts)
  have quiet: "client_set w" "socket_open w" "write_faults w = []" "receiving w" "oss w = []"
    "\<not> contains_msg_with_id (id_counter w + 1) (queue w)"
    using assms(2) by (simp_all add: idle_def contains_msg_with_id_def find_msg_with_id_def)
  from request_answered [where parse = "index_result J (address_balance_from_json J)", OF assms(1) quiet(1-5) assms(3,4) short
      quiet(6) assms(6) r(1,2) parse]
  show ?thesis using assms(2) unfolding getBalance_def idle_def by auto
qed

section \<open>All balances\<close>

text \<open>The replies to the requests numbered after \<^verbatim>\<open>c\<close>, one after the other.\<close>

fun balance_replies :: "'j json_api \<Rightarrow> int \<Rightarrow> string list \<Rightarrow> string list list \<Rightarrow> AddressBalance list \<Rightarrow> bool" where
  "balance_replies J c [] [] [] \<longleftrightarrow> True"
| "balance_replies J c (h # hs) (r # rs) (b # bs) \<longleftrightarrow> balance_reply J (c + 1) h r b \<and> balance_replies J (c + 1) hs rs bs"
| "balance_replies J c _ _ _ \<longleftrightarrow> False"

lemma balance_replies_lengths:
  "balance_replies J c hs rs bs \<Longrightarrow> length rs = length hs \<and> length bs = length hs"
  by (induction J c hs rs bs rule: balance_replies.induct) simp_all

lemma scan_answered:
  assumes "json_documented J" "list_all2 (\<lambda>a h. base58_to_spkh_hex L a = Inr h) as hs"
    and "balance_replies J (id_counter w) hs readss bs" "idle w" "0 \<le> id_counter w"
    and "id_counter w + int (length hs) < 2 ^ 31" "events w = map (ReadSome None) (concat readss) @ es"
  shows "\<exists>w'. scan_purse_balances L (ronghua_interface J ahi0) as (m, w, lc) =
      (Inr (), (m(as [\<mapsto>] map confirmed bs), w', lc)) \<and>
    length (sent w') = length (sent w) + length hs \<and> idle w' \<and> events w' = es \<and>
    id_counter w' = id_counter w + int (length hs)"
  using assms(2-)
proof (induction as hs arbitrary: readss bs m w rule: list_all2_induct)
  case Nil
  then show ?case by (cases readss; cases bs) (simp_all add: scan_purse_balances_def)
next
  case (Cons a as h hs)
  then obtain r rs b bs' where split: "readss = r # rs" "bs = b # bs'" "balance_reply J (id_counter w + 1) h r b"
    "balance_replies J (id_counter w + 1) hs rs bs'" by (cases readss; cases bs) auto
  from Cons.prems(5) have ev: "events w = map (ReadSome None) r @ (map (ReadSome None) (concat rs) @ es)"
    by (simp add: split(1))
  have "id_counter w < 2 ^ 31 - 1" using Cons.prems(4) by simp
  from getBalance_answered [OF assms(1) Cons.prems(2,3) this split(3) ev] obtain w1 where
    w1: "getBalance J h w = (Inr b, w1)" "length (sent w1) = length (sent w) + 1" "idle w1"
      "events w1 = map (ReadSome None) (concat rs) @ es" "id_counter w1 = id_counter w + 1" by auto
  from Cons.IH [of w1 rs bs' "m(a \<mapsto> confirmed b)"] split(4) w1(3-5) Cons.prems(3,4) obtain w' where
    w': "scan_purse_balances L (ronghua_interface J ahi0) as (m(a \<mapsto> confirmed b), w1, lc) =
      (Inr (), (m(a \<mapsto> confirmed b, as [\<mapsto>] map confirmed bs'), w', lc))"
      "length (sent w') = length (sent w1) + length hs" "idle w'" "events w' = es"
      "id_counter w' = id_counter w + 1 + int (length hs)" by (auto simp del: fun_upd_apply)
  have "read_balance L (ronghua_interface J ahi0) a (m, w, lc) = (Inr (confirmed b), (m(a \<mapsto> confirmed b), w1, lc))"
    using w1(1) Cons.hyps(1) by (simp add: read_balance_def bindE_def ronghua_interface_def)
  with w' w1(2) split(1,2) show ?case
    by (intro exI [where x = w']) (simp add: scan_purse_balances_def bindE_def)
qed

section \<open>The choice\<close>

lemma look_for_address_first:
  assumes "\<forall>b \<in> set us. \<exists>v. m b = Some v \<and> v < n" "m a = Some v" "n \<le> v"
  shows "look_for_address_with_balance n (us @ a # vs) m =
    Inr \<lparr>afi_address = a, afi_requested_funds = n, afi_actual_funds = v\<rparr>"
proof -
  have "look_for_address_loop n (us @ a # vs) m best =
      Inr \<lparr>afi_address = a, afi_requested_funds = n, afi_actual_funds = v\<rparr>" for best
    using assms by (induction us arbitrary: best) (auto simp: map_at_def Let_def dest: leD)
  then show ?thesis by (simp add: look_for_address_with_balance_def)
qed

lemma look_for_address_nth:
  assumes "distinct as" "length vs = length as" "k < length as" "n \<le> vs ! k" "\<forall>i < k. vs ! i < n"
  shows "look_for_address_with_balance n as (m(as [\<mapsto>] vs)) =
    Inr \<lparr>afi_address = as ! k, afi_requested_funds = n, afi_actual_funds = vs ! k\<rparr>"
proof -
  have at: "(m(as [\<mapsto>] vs)) (as ! i) = Some (vs ! i)" if "i < length as" for i
    using map_upds_nth [OF assms(1) assms(2) [symmetric] that] by simp
  have "\<forall>b \<in> set (take k as). \<exists>v. (m(as [\<mapsto>] vs)) b = Some v \<and> v < n"
    using at assms(3,5) by (auto simp: in_set_conv_nth)
  from look_for_address_first [OF this at [OF assms(3)] assms(4), of "drop (Suc k) as"]
  show ?thesis using id_take_nth_drop [OF assms(3)] by simp
qed

section \<open>Property\<close>

text \<open>
  C9. A purse pays over the client. A server answers the requests for the balances of all
  addresses, one after the other and each in any number of reads; the k-th address is the first whose confirmed
  balance covers amount and fee, and the server answers the request for its coins with coins that do so as
  well, with a total below $2^{64}$. Then the scan returns with every balance noted, the lookup chooses that address, and the
  payment from it is constructed: it spends every coin of positive value, each input signed for the
  finished transaction, pays the amount to the target and loses nothing. One request was
  sent for each address and one for the coins, the Libbitcoin client was not used, and the client is
  ready for the next request.
\<close>

theorem purse_pays_over_client:
  assumes "json_documented J" "new_transaction_documented L" "endorsement_documented L"
    and "idle w" "0 \<le> id_counter w" "id_counter w + int (length addrs) < 2 ^ 31 - 1"
    and "distinct addrs" "list_all2 (\<lambda>a h. base58_to_spkh_hex L a = Inr h) addrs spkhs"
    and "balance_replies J (id_counter w) spkhs readss bals"
    and "k < length addrs" "amount + fee \<le> confirmed (bals ! k)" "\<forall>i < k. confirmed (bals ! i) < amount + fee"
    and "request_fits J ''blockchain.scripthash.listunspent'' (spkhs ! k) (id_counter w + int (length addrs) + 1)"
    and "message_reads J reads (js_object J reply)"
    and "events w = map (ReadSome None) (concat readss) @ map (ReadSome None) reads @ es"
    and "map_of reply ''id'' = Some (js_int J (id_counter w + int (length addrs) + 1))"
    and "map_of reply ''result'' = Some (js_array J entries)" "list_all2 (utxo_object J) entries utxos"
    and "pa_version (lb_payment_address L target) \<notin> {lb_mainnet_p2sh L, lb_testnet_p2sh L}"
    and "pa_valid (lb_payment_address L target)" "pa_valid (lb_payment_address L (addrs ! k))"
    and "utxos_total utxos < 2 ^ 64" "unat amount + unat fee \<le> utxos_total utxos" "0 < utxos_total utxos"
  shows "\<exists>m' w1 tx w2.
    scan_purse_balances L (ronghua_interface J ahi0) addrs (m, w, lc) = (Inr (), (m', w1, lc)) \<and>
    (\<forall>i < length addrs. m' (addrs ! i) = Some (confirmed (bals ! i))) \<and>
    look_for_address_with_balance (amount + fee) addrs m' = Inr \<lparr>afi_address = addrs ! k,
      afi_requested_funds = amount + fee, afi_actual_funds = confirmed (bals ! k)\<rparr> \<and>
    construct_p2pkh_tx_from_address_electrum L junk (ronghua_interface J ahi0) (addrs ! k) key amount fee target w1 =
      (Inr (lb_encode_base16 L (lb_tx_to_data L tx)), w2) \<and>
    map previous_output (tx_inputs tx) = map (point_of_utxo L junk) (spendable utxos) \<and>
    (\<forall>i < length (tx_inputs tx). in_script (tx_inputs tx ! i) = key_spend_script L key tx i) \<and>
    hd (tx_outputs tx) = \<lparr>out_value = amount,
      out_script = lb_to_pay_key_hash_pattern L (pa_hash (lb_payment_address L target))\<rparr> \<and>
    outputs_total tx + unat fee = utxos_total utxos \<and>
    length (sent w2) = length (sent w) + length addrs + 1 \<and> idle w2 \<and> events w2 = es"
proof -
  let ?E = "ronghua_interface J ahi0 :: ('a, 'a RonghuaClient) ElectrumInterface"
  let ?m = "m(addrs [\<mapsto>] map confirmed bals)"
  let ?coins = "map (point_of_utxo L junk) (spendable utxos)" and ?change = "payment_change utxos amount fee"
  let ?tx = "p2pkh_transaction L ?coins (lb_payment_address L target) (lb_payment_address L (addrs ! k)) key amount ?change"
  from balance_replies_lengths [OF assms(9)] list_all2_lengthD [OF assms(8)]
  have len: "length bals = length addrs" "length spkhs = length addrs" by simp_all
  have "id_counter w + int (length spkhs) < 2 ^ 31" using assms(6) len(2) by simp
  from scan_answered [OF assms(1,8,9,4,5) this assms(15), where m = m and lc = lc and ?ahi0.0 = ahi0, unfolded len(2)]
  obtain w1 where
    scan: "scan_purse_balances L ?E addrs (m, w, lc) = (Inr (), (?m, w1, lc))" and
    w1: "length (sent w1) = length (sent w) + length addrs" "idle w1" "events w1 = map (ReadSome None) reads @ es"
      "id_counter w1 = id_counter w + int (length addrs)" by (elim exE conjE) (rule that)
  have noted: "\<forall>i < length addrs. ?m (addrs ! i) = Some (confirmed (bals ! i))"
    using map_upds_nth [OF assms(7), of "map confirmed bals"] len(1) by simp
  have choice: "look_for_address_with_balance (amount + fee) addrs ?m = Inr \<lparr>afi_address = addrs ! k,
      afi_requested_funds = amount + fee, afi_actual_funds = confirmed (bals ! k)\<rparr>"
    using look_for_address_nth [OF assms(7) _ assms(10), of "map confirmed bals" "amount + fee" m] assms(10-12) len(1) by simp
  have c1: "0 \<le> id_counter w1" "id_counter w1 < 2 ^ 31 - 1" using assms(5,6) w1(4) by simp_all
  from getUtxos_answered [OF assms(1) w1(2) c1 assms(13) [folded w1(4)] assms(14) w1(3) assms(16) [folded w1(4)] assms(17,18)]
  obtain w2 where w2: "getUtxos J (spkhs ! k) w1 = (Inr utxos, w2)" "length (sent w2) = length (sent w1) + 1"
    "idle w2" "events w2 = es" by auto
  then have coins: "ei_getUtxos ?E (spkhs ! k) w1 = (Inr utxos, w2)" by (simp add: ronghua_interface_def)
  have spkh: "base58_to_spkh_hex L (addrs ! k) = Inr (spkhs ! k)" using assms(8,10) by (simp add: list_all2_conv_all_nth)
  note run = payment_from_coins [OF spkh coins assms(19-24), of junk key]
  note tx = p2pkh_transaction_simps [OF assms(2), of ?coins "lb_payment_address L target" "lb_payment_address L (addrs ! k)"
      key amount ?change]
  have "length (tx_inputs ?tx) = length ?coins" using tx(2) by (metis length_map)
  then have signed: "\<forall>i < length (tx_inputs ?tx). in_script (tx_inputs ?tx ! i) = key_spend_script L key ?tx i"
    using p2pkh_transaction_scripts [OF assms(2,3)] by simp
  have "outputs_total ?tx + unat fee = utxos_total utxos"
    using p2pkh_transaction_total [OF assms(2)] payment_change_value [OF assms(22,23)] assms(23) by simp
  with scan noted choice run tx(1,2) signed w1(1) w2(2-4) show ?thesis
    by (intro exI [where x = ?m] exI [where x = w1] exI [where x = ?tx] exI [where x = w2]) simp
qed

text \<open>
  Two addresses; the first has a balance of 2, the second one of 12, in the coins of
  \<^verbatim>\<open>sample_utxos\<close>. The payment of 3 with a fee of 1 comes from the second.
\<close>

definition purse_replies :: "(string \<times> (string \<times> json) list) list" where
  "purse_replies =
    [(''P'', [(''id'', JInt 1), (''result'', JObject [(''confirmed'', JInt 2), (''unconfirmed'', JInt 0)])]),
     (''Q'', [(''id'', JInt 2), (''result'', JObject [(''confirmed'', JInt 12), (''unconfirmed'', JInt 0)])]),
     (''UU'', [(''id'', JInt 3), (''result'', JArray (map coin_object sample_utxos))])]"

abbreviation other_source :: string where
  "other_source \<equiv> CHR ''R'' # tl sample_source"

abbreviation purse_client :: "json RonghuaClient" where
  "purse_client \<equiv> sample_ronghua\<lparr>events := map (ReadSome None) [''P'', ''Q'', ''U'', ''U'']\<rparr>"

lemma purse_balances:
  "balance_replies (table_json purse_replies) 0 [sample_spkh, sample_spkh] [[''P''], [''Q'']]
     [\<lparr>confirmed = 2, unconfirmed = 0\<rparr>, \<lparr>confirmed = 12, unconfirmed = 0\<rparr>]"
proof -
  have short: "request_fits (table_json purse_replies) ''blockchain.scripthash.get_balance'' sample_spkh 1"
    "request_fits (table_json purse_replies) ''blockchain.scripthash.get_balance'' sample_spkh 2"
    unfolding table_request_fits by code_simp+
  have "message_reads (table_json purse_replies) [''P''] (JObject (snd (purse_replies ! 0)))"
    "message_reads (table_json purse_replies) [''Q''] (JObject (snd (purse_replies ! 1)))"
    by (rule table_message_reads; simp add: purse_replies_def)+
  with short show ?thesis
    by (simp add: balance_reply_def) (intro conjI exI, (assumption | simp add: purse_replies_def)+)
qed

lemma purse_coins:
  "message_reads (table_json purse_replies) [''U'', ''U''] (js_object (table_json purse_replies) (snd (purse_replies ! 2)))"
  "list_all2 (utxo_object (table_json purse_replies)) (map coin_object sample_utxos) sample_utxos"
  "request_fits (table_json purse_replies) ''blockchain.scripthash.listunspent'' sample_spkh 3"
proof -
  show "message_reads (table_json purse_replies) [''U'', ''U''] (js_object (table_json purse_replies) (snd (purse_replies ! 2)))"
    unfolding table_json_simps
    by (rule table_message_reads) (auto simp: purse_replies_def take_Cons split: nat.splits)
  show "list_all2 (utxo_object (table_json purse_replies)) (map coin_object sample_utxos) sample_utxos"
    by (auto simp: utxo_object_def coin_object_def sample_utxos_def)
  show "request_fits (table_json purse_replies) ''blockchain.scripthash.listunspent'' sample_spkh 3"
    unfolding table_request_fits by code_simp
qed

theorem purse_pays_over_client_witness:
  "\<exists>m' w1 (tx :: transaction) w2.
    scan_purse_balances sample_libbitcoin (ronghua_interface (table_json purse_replies) blank_item)
      [other_source, sample_source] (Map.empty, purse_client, ()) = (Inr (), (m', w1, ())) \<and>
    look_for_address_with_balance 4 [other_source, sample_source] m' =
      Inr \<lparr>afi_address = sample_source, afi_requested_funds = 4, afi_actual_funds = 12\<rparr> \<and>
    construct_p2pkh_tx_from_address_electrum sample_libbitcoin [] (ronghua_interface (table_json purse_replies) blank_item)
        sample_source \<lparr>ec_secret = [5], ec_version = 128\<rparr> 3 1 ''T'' w1 =
      (Inr (lb_encode_base16 sample_libbitcoin (lb_tx_to_data sample_libbitcoin tx)), w2) \<and>
    outputs_total tx = 11 \<and> length (sent w2) = 3 \<and> idle w2 \<and> events w2 = []"
proof -
  let ?L = sample_libbitcoin and ?J = "table_json purse_replies" and ?addrs = "[other_source, sample_source]"
  let ?bals = "[\<lparr>confirmed = 2, unconfirmed = 0\<rparr>, \<lparr>confirmed = 12, unconfirmed = 0\<rparr>]"
  have start: "idle purse_client" "id_counter purse_client = 0" "sent purse_client = []"
    "events purse_client = map (ReadSome None) (concat [[''P''], [''Q'']]) @ map (ReadSome None) [''U'', ''U''] @ []"
    by (simp_all add: idle_def sample_ronghua_def RonghuaClient_new_def receiving_def)
  have count: "0 \<le> id_counter purse_client" "id_counter purse_client + int (length ?addrs) < 2 ^ 31 - 1"
    "id_counter purse_client + int (length ?addrs) + 1 = 3" unfolding start(2) by simp_all
  have addrs: "distinct ?addrs" "list_all2 (\<lambda>a h. base58_to_spkh_hex ?L a = Inr h) ?addrs [sample_spkh, sample_spkh]"
    by (simp_all add: base58_to_spkh_hex_def sample_source_def sample_spkh_def sample_lb numeral_eq_Suc)
  have choice: "1 < length ?addrs" "3 + 1 \<le> confirmed (?bals ! 1)" "\<forall>i < 1. confirmed (?bals ! i) < 3 + 1" by simp_all
  have reply: "map_of (snd (purse_replies ! 2)) ''id'' = Some (js_int ?J (id_counter purse_client + int (length ?addrs) + 1))"
    "map_of (snd (purse_replies ! 2)) ''result'' = Some (js_array ?J (map coin_object sample_utxos))"
    unfolding count(3) by (simp_all add: purse_replies_def)
  have nth: "[sample_spkh, sample_spkh] ! 1 = sample_spkh" "?addrs ! 1 = sample_source" by simp_all
  have request: "request_fits ?J ''blockchain.scripthash.listunspent'' ([sample_spkh, sample_spkh] ! 1)
      (id_counter purse_client + int (length ?addrs) + 1)" unfolding count(3) nth by (rule purse_coins(3))
  have target: "pa_version (lb_payment_address ?L ''T'') \<notin> {lb_mainnet_p2sh ?L, lb_testnet_p2sh ?L}"
    "pa_valid (lb_payment_address ?L ''T'')" "pa_valid (lb_payment_address ?L (?addrs ! 1))"
    by (simp_all add: sample_lb sample_source_def)
  have sum: "utxos_total sample_utxos = 12" by (simp add: sample_utxos_def)
  have total: "utxos_total sample_utxos < 2 ^ 64" "unat (3 :: u64) + unat (1 :: u64) \<le> utxos_total sample_utxos"
    "0 < utxos_total sample_utxos" unfolding sum by simp_all
  from purse_pays_over_client [OF table_json_documented(1) sample_new_transaction_documented sample_endorsement_documented
      start(1) count(1,2) addrs purse_balances [folded start(2)] choice request purse_coins(1)
      start(4) reply purse_coins(2) target total, where m = Map.empty and lc = "()" and junk = "[]" and
      key = "\<lparr>ec_secret = [5], ec_version = 128\<rparr>" and ?ahi0.0 = blank_item]
  obtain m' w1 and tx :: transaction and w2 where
    run: "scan_purse_balances ?L (ronghua_interface ?J blank_item) ?addrs (Map.empty, purse_client, ()) = (Inr (), (m', w1, ()))"
    "look_for_address_with_balance (3 + 1) ?addrs m' = Inr \<lparr>afi_address = ?addrs ! 1, afi_requested_funds = 3 + 1,
       afi_actual_funds = confirmed (?bals ! 1)\<rparr>"
    "construct_p2pkh_tx_from_address_electrum ?L [] (ronghua_interface ?J blank_item) (?addrs ! 1)
       \<lparr>ec_secret = [5], ec_version = 128\<rparr> 3 1 ''T'' w1 = (Inr (lb_encode_base16 ?L (lb_tx_to_data ?L tx)), w2)"
    "outputs_total tx + unat (1 :: u64) = utxos_total sample_utxos"
    "length (sent w2) = length (sent purse_client) + length ?addrs + 1" "idle w2" "events w2 = []"
    by (elim exE conjE) (rule that)
  have "length (sent w2) = 3" using run(5) unfolding start(3) by simp
  moreover have "outputs_total tx = 11" using run(4) sum by simp
  ultimately show ?thesis using run(1-3,6,7)
    by (intro exI [where x = m'] exI [where x = w1] exI [where x = tx] exI [where x = w2]) simp
qed

end
