(* ===== verification/BlockingQueue.thy ===== *)
theory BlockingQueue
  imports Prelude
begin

text \<open>
  \<^verbatim>\<open>src/utility/blocking_queue.hpp\<close>: a queue between threads. Every operation holds the mutex
  while it touches the deque, so a run of the program is a sequence of atomic operations; the
  waiting of consumers on the condition variable is modelled separately below.
\<close>

section \<open>The operations\<close>

text \<open>The deque, front first. \<^verbatim>\<open>bq_pop\<close> is the part of \<^verbatim>\<open>pop\<close> after the wait; \<^verbatim>\<open>None\<close> means
  that the caller waits.\<close>

type_synonym 'a blocking_queue = "'a list"

definition bq_new :: "'a blocking_queue" where
  "bq_new = []"

definition bq_push :: "'a \<Rightarrow> 'a blocking_queue \<Rightarrow> 'a blocking_queue" where
  "bq_push value queue = value # queue"

definition bq_pop :: "'a blocking_queue \<Rightarrow> ('a \<times> 'a blocking_queue) option" where
  "bq_pop queue = (if queue \<noteq> [] then Some (last queue, butlast queue) else None)"

section \<open>The interface\<close>

text \<open>First in, first out, against the list of the elements still to come.\<close>

locale fifo =
  fixes empty :: 'q
    and push :: "'a \<Rightarrow> 'q \<Rightarrow> 'q"
    and pop :: "'q \<Rightarrow> ('a \<times> 'q) option"
    and pending :: "'q \<Rightarrow> 'a list"
  assumes pending_empty: "pending empty = []"
    and pending_push: "pending (push x q) = pending q @ [x]"
    and pop_None_iff: "pop q = None \<longleftrightarrow> pending q = []"
    and pop_Some: "pop q = Some (x, q') \<Longrightarrow> pending q = x # pending q'"
begin

lemma pending_push_all: "pending (fold push xs q) = pending q @ xs"
  by (induction xs arbitrary: q) (simp_all add: pending_push)

lemma pop_after_push_all:
  assumes "pending q = []" "xs \<noteq> []"
  shows "\<exists>q'. pop (fold push xs q) = Some (hd xs, q') \<and> pending q' = tl xs"
proof -
  have "pending (fold push xs q) = xs" by (simp add: pending_push_all assms(1))
  then obtain y q' where p: "pop (fold push xs q) = Some (y, q')" "xs = y # pending q'"
    using assms(2) pop_None_iff pop_Some by (metis not_None_eq surj_pair)
  from p(2) have "y = hd xs" "pending q' = tl xs" by (metis list.sel)+
  with p(1) show ?thesis by auto
qed

end

interpretation bq: fifo bq_new bq_push bq_pop rev
proof unfold_locales
  fix q q' :: "'a blocking_queue" and x
  assume "bq_pop q = Some (x, q')"
  then have "q = q' @ [x]" by (auto simp: bq_pop_def split: if_splits)
  then show "rev q = x # rev q'" by simp
qed (auto simp: bq_new_def bq_push_def bq_pop_def)

section \<open>Runs\<close>

text \<open>The operations of all threads, in the order in which they held the mutex.\<close>

datatype 'a bq_event = Pushed 'a | Popped 'a

fun bq_run :: "'a bq_event list \<Rightarrow> 'a blocking_queue \<Rightarrow> 'a blocking_queue option" where
  "bq_run [] q = Some q"
| "bq_run (Pushed x # es) q = bq_run es (bq_push x q)"
| "bq_run (Popped x # es) q =
     (case bq_pop q of None \<Rightarrow> None | Some (y, q') \<Rightarrow> if y = x then bq_run es q' else None)"

fun pushed_values :: "'a bq_event list \<Rightarrow> 'a list" where
  "pushed_values [] = []"
| "pushed_values (Pushed x # es) = x # pushed_values es"
| "pushed_values (Popped x # es) = pushed_values es"

fun popped_values :: "'a bq_event list \<Rightarrow> 'a list" where
  "popped_values [] = []"
| "popped_values (Pushed x # es) = popped_values es"
| "popped_values (Popped x # es) = x # popped_values es"

lemma bq_run_fifo: "bq_run es q = Some q' \<Longrightarrow> rev q @ pushed_values es = popped_values es @ rev q'"
proof (induction es q rule: bq_run.induct)
  case (1 q)
  then show ?case by simp
next
  case (2 x es q)
  then show ?case by (simp add: bq.pending_push)
next
  case (3 x es q)
  from "3.prems" obtain q1 where "bq_pop q = Some (x, q1)" "bq_run es q1 = Some q'"
    by (auto split: option.splits if_splits)
  with "3.IH" bq.pop_Some show ?case by fastforce
qed

section \<open>Waiting consumers\<close>

text \<open>
  The condition variable: \<^verbatim>\<open>wt_sleeping\<close> consumers are blocked in \<^verbatim>\<open>wait\<close>, \<^verbatim>\<open>wt_woken\<close> have
  been notified but do not hold the mutex yet, and \<^verbatim>\<open>wt_notifies\<close> producers have released the
  mutex and not yet called \<^verbatim>\<open>notify_one\<close>.
\<close>

record waits =
  wt_size :: nat
  wt_sleeping :: nat
  wt_woken :: nat
  wt_notifies :: nat

definition waits_new :: waits where
  "waits_new = \<lparr>wt_size = 0, wt_sleeping = 0, wt_woken = 0, wt_notifies = 0\<rparr>"

inductive waits_step :: "waits \<Rightarrow> waits \<Rightarrow> bool" where
  produce: "waits_step s (s\<lparr>wt_size := wt_size s + 1, wt_notifies := wt_notifies s + 1\<rparr>)"
| notify: "0 < wt_notifies s \<Longrightarrow> 0 < wt_sleeping s \<Longrightarrow>
    waits_step s (s\<lparr>wt_notifies := wt_notifies s - 1, wt_sleeping := wt_sleeping s - 1,
      wt_woken := wt_woken s + 1\<rparr>)"
| notify_nobody: "0 < wt_notifies s \<Longrightarrow> wt_sleeping s = 0 \<Longrightarrow>
    waits_step s (s\<lparr>wt_notifies := wt_notifies s - 1\<rparr>)"
| consume: "0 < wt_size s \<Longrightarrow> waits_step s (s\<lparr>wt_size := wt_size s - 1\<rparr>)"
| sleep: "wt_size s = 0 \<Longrightarrow> waits_step s (s\<lparr>wt_sleeping := wt_sleeping s + 1\<rparr>)"
| woken_consume: "0 < wt_woken s \<Longrightarrow> 0 < wt_size s \<Longrightarrow>
    waits_step s (s\<lparr>wt_woken := wt_woken s - 1, wt_size := wt_size s - 1\<rparr>)"
| woken_sleep: "0 < wt_woken s \<Longrightarrow> wt_size s = 0 \<Longrightarrow>
    waits_step s (s\<lparr>wt_woken := wt_woken s - 1, wt_sleeping := wt_sleeping s + 1\<rparr>)"
| spurious: "0 < wt_sleeping s \<Longrightarrow>
    waits_step s (s\<lparr>wt_sleeping := wt_sleeping s - 1, wt_woken := wt_woken s + 1\<rparr>)"

inductive waits_reachable :: "waits \<Rightarrow> bool" where
  start: "waits_reachable waits_new"
| step: "waits_reachable s \<Longrightarrow> waits_step s t \<Longrightarrow> waits_reachable t"

text \<open>While somebody sleeps, every element in the queue is on its way to somebody.\<close>

definition waits_inv :: "waits \<Rightarrow> bool" where
  "waits_inv s \<longleftrightarrow> (0 < wt_sleeping s \<longrightarrow> wt_size s \<le> wt_woken s + wt_notifies s)"

lemma waits_step_inv: "waits_step s t \<Longrightarrow> waits_inv s \<Longrightarrow> waits_inv t"
  by (induction rule: waits_step.induct) (auto simp: waits_inv_def)

lemma waits_reachable_inv: "waits_reachable s \<Longrightarrow> waits_inv s"
  by (induction rule: waits_reachable.induct)
     (auto simp: waits_inv_def waits_new_def intro: waits_step_inv [unfolded waits_inv_def, rule_format])

section \<open>Properties\<close>

text \<open>
  C23. Whatever threads push and pop, values come out in the order in which they went in, none
  is lost and none is delivered twice: the values pushed so far are the values popped so far
  followed by the contents of the queue.
\<close>

theorem blocking_queue_fifo:
  assumes "bq_run es bq_new = Some q"
  shows "pushed_values es = popped_values es @ rev q"
  using bq_run_fifo [OF assms] by (simp add: bq_new_def)

theorem blocking_queue_fifo_witness:
  "pushed_values [Pushed (1::nat), Pushed 2, Popped 1, Pushed 3] =
   popped_values [Pushed (1::nat), Pushed 2, Popped 1, Pushed 3] @ rev [3, 2]"
  by (rule blocking_queue_fifo) (simp add: bq_new_def bq_push_def bq_pop_def)

text \<open>
  C32. No wake-up is lost, although \<^verbatim>\<open>push\<close> notifies after releasing the mutex: once every
  notification has been sent and every notified consumer has run, no consumer sleeps while
  there is an element in the queue.
\<close>

theorem no_lost_wakeup:
  assumes "waits_reachable s" "wt_notifies s = 0" "wt_woken s = 0" "0 < wt_sleeping s"
  shows "wt_size s = 0"
  using waits_reachable_inv [OF assms(1)] assms(2-) by (simp add: waits_inv_def)

theorem no_lost_wakeup_witness:
  "wt_size (waits_new\<lparr>wt_sleeping := 1\<rparr>) = 0"
proof (rule no_lost_wakeup)
  have "waits_step waits_new (waits_new\<lparr>wt_sleeping := wt_sleeping waits_new + 1\<rparr>)"
    by (rule waits_step.sleep) (simp add: waits_new_def)
  with waits_reachable.start show "waits_reachable (waits_new\<lparr>wt_sleeping := 1\<rparr>)"
    using waits_reachable.step by (fastforce simp: waits_new_def)
qed (simp_all add: waits_new_def)

end
