(* ===== verification/RequestThreads.thy ===== *)
theory RequestThreads
  imports Prelude
begin

text \<open>
  Several threads calling the operations of one \<^verbatim>\<open>RonghuaClient\<close>
  (\<^verbatim>\<open>src/ronghuaclient/ronghua_client.cpp\<close>), with the interleaving left open. All of them number a
  request with \<^verbatim>\<open>++id_counter\<close> and then evaluate \<^verbatim>\<open>send_request...(json_request, id_counter)\<close>, which
  reads the shared counter a second time. They differ in what they do with the mutex: a single
  request (\<^verbatim>\<open>send_request\<close>) holds it from before the request is sent until the reply has been taken; a
  bulk request (\<^verbatim>\<open>send_request_no_response\<close>) only while one of its requests is sent, and waits for
  the replies without it; \<^verbatim>\<open>ping\<close> and \<^verbatim>\<open>scripthashSubscribe\<close> (\<^verbatim>\<open>send_request_eat_response\<close>) never
  take it.

  The server sends replies with numbers only: notifications, which carry none, and the interrupt are
  left to \<^verbatim>\<open>SocketClient\<close>.
\<close>

section \<open>Steps\<close>

text \<open>
  Where a thread is. \<^verbatim>\<open>n\<close> is the number in the request, \<^verbatim>\<open>a\<close> the number it will wait for.
  A single request: after \<^verbatim>\<open>++id_counter\<close> put \<^verbatim>\<open>n\<close> into the request; in \<^verbatim>\<open>send_request(n, a)\<close>
  before the lock; with the lock, before and after the request was written. An eat request: the same
  without the lock. A bulk request, with the numbers collected so far: the same for each of its
  requests, after writing it with the lock still held, between two requests, and in the timed wait.
\<close>

datatype phase =
    Idle
  | Numbered int | Entering int int | Sending int int | Waiting int
  | EatNumbered int | EatEntering int int | EatWaiting int
  | BulkNumbered int "int list" | BulkEntering int int "int list" | BulkSending int int "int list"
  | BulkSent "int list" | Collecting "int list" | BulkWaiting "int list"

text \<open>\<^verbatim>\<open>th_sent\<close> are the requests the server has not answered, \<^verbatim>\<open>th_replies\<close> the replies in
  the queue, both by number.\<close>

record threads =
  th_counter :: int
  th_mutex :: "nat option"
  th_phases :: "phase list"
  th_sent :: "int set"
  th_replies :: "int set"

definition threads_start :: "nat \<Rightarrow> threads" where
  "threads_start k = \<lparr>th_counter = 0, th_mutex = None, th_phases = replicate k Idle,
     th_sent = {}, th_replies = {}\<rparr>"

abbreviation goto :: "nat \<Rightarrow> phase \<Rightarrow> threads \<Rightarrow> threads" where
  "goto i p s \<equiv> s\<lparr>th_phases := (th_phases s)[i := p]\<rparr>"

text \<open>
  \<^verbatim>\<open>pop_reply_bulk\<close> on the numbers: it takes replies until one is missing; the numbers left over are
  the first component. (A negative number asks for a message without number.)
\<close>

fun take_replies :: "int list \<Rightarrow> int set \<Rightarrow> int list \<times> int set" where
  "take_replies [] rs = ([], rs)"
| "take_replies (a # ids) rs = (if 0 \<le> a \<and> a \<in> rs then take_replies ids (rs - {a}) else (a # ids, rs))"

text \<open>
  A bulk operation is over when its last chunk is answered completely; otherwise it goes on with
  the elements that are missing. In every \<^verbatim>\<open>refuse\<close> step the socket throws: the exception leaves the
  operation and releases the mutex.
\<close>

inductive thread_step :: "threads \<Rightarrow> threads \<Rightarrow> bool" where
  number: "i < length (th_phases s) \<Longrightarrow> th_phases s ! i = Idle \<Longrightarrow> n = wrap_int (th_counter s + 1) \<Longrightarrow>
    thread_step s (s\<lparr>th_counter := n, th_phases := (th_phases s)[i := Numbered n]\<rparr>)"
| call: "i < length (th_phases s) \<Longrightarrow> th_phases s ! i = Numbered n \<Longrightarrow>
    thread_step s (s\<lparr>th_phases := (th_phases s)[i := Entering n (th_counter s)]\<rparr>)"
| lock: "i < length (th_phases s) \<Longrightarrow> th_phases s ! i = Entering n a \<Longrightarrow> th_mutex s = None \<Longrightarrow>
    thread_step s (s\<lparr>th_mutex := Some i, th_phases := (th_phases s)[i := Sending n a]\<rparr>)"
| send: "i < length (th_phases s) \<Longrightarrow> th_phases s ! i = Sending n a \<Longrightarrow>
    thread_step s (s\<lparr>th_sent := insert n (th_sent s), th_phases := (th_phases s)[i := Waiting a]\<rparr>)"
| refuse: "i < length (th_phases s) \<Longrightarrow> th_phases s ! i = Sending n a \<Longrightarrow>
    thread_step s (s\<lparr>th_mutex := None, th_phases := (th_phases s)[i := Idle]\<rparr>)"
| receive: "i < length (th_phases s) \<Longrightarrow> th_phases s ! i = Waiting a \<Longrightarrow> 0 \<le> a \<Longrightarrow> a \<in> th_replies s \<Longrightarrow>
    thread_step s (s\<lparr>th_mutex := None, th_replies := th_replies s - {a},
      th_phases := (th_phases s)[i := Idle]\<rparr>)"
| eat_number: "i < length (th_phases s) \<Longrightarrow> th_phases s ! i = Idle \<Longrightarrow> n = wrap_int (th_counter s + 1) \<Longrightarrow>
    thread_step s (s\<lparr>th_counter := n, th_phases := (th_phases s)[i := EatNumbered n]\<rparr>)"
| eat_call: "i < length (th_phases s) \<Longrightarrow> th_phases s ! i = EatNumbered n \<Longrightarrow>
    thread_step s (goto i (EatEntering n (th_counter s)) s)"
| eat_send: "i < length (th_phases s) \<Longrightarrow> th_phases s ! i = EatEntering n a \<Longrightarrow>
    thread_step s (s\<lparr>th_sent := insert n (th_sent s), th_phases := (th_phases s)[i := EatWaiting a]\<rparr>)"
| eat_refuse: "i < length (th_phases s) \<Longrightarrow> th_phases s ! i = EatEntering n a \<Longrightarrow>
    thread_step s (goto i Idle s)"
| eat_receive: "i < length (th_phases s) \<Longrightarrow> th_phases s ! i = EatWaiting a \<Longrightarrow> 0 \<le> a \<Longrightarrow> a \<in> th_replies s \<Longrightarrow>
    thread_step s (s\<lparr>th_replies := th_replies s - {a}, th_phases := (th_phases s)[i := Idle]\<rparr>)"
| bulk_begin: "i < length (th_phases s) \<Longrightarrow> th_phases s ! i = Idle \<Longrightarrow> thread_step s (goto i (Collecting []) s)"
| bulk_number: "i < length (th_phases s) \<Longrightarrow> th_phases s ! i = Collecting ids \<Longrightarrow>
    n = wrap_int (th_counter s + 1) \<Longrightarrow>
    thread_step s (s\<lparr>th_counter := n, th_phases := (th_phases s)[i := BulkNumbered n ids]\<rparr>)"
| bulk_call: "i < length (th_phases s) \<Longrightarrow> th_phases s ! i = BulkNumbered n ids \<Longrightarrow>
    thread_step s (goto i (BulkEntering n (th_counter s) ids) s)"
| bulk_lock: "i < length (th_phases s) \<Longrightarrow> th_phases s ! i = BulkEntering n a ids \<Longrightarrow> th_mutex s = None \<Longrightarrow>
    thread_step s (s\<lparr>th_mutex := Some i, th_phases := (th_phases s)[i := BulkSending n a ids]\<rparr>)"
| bulk_send: "i < length (th_phases s) \<Longrightarrow> th_phases s ! i = BulkSending n a ids \<Longrightarrow>
    thread_step s (s\<lparr>th_sent := insert n (th_sent s), th_phases := (th_phases s)[i := BulkSent (ids @ [a])]\<rparr>)"
| bulk_refuse: "i < length (th_phases s) \<Longrightarrow> th_phases s ! i = BulkSending n a ids \<Longrightarrow>
    thread_step s (s\<lparr>th_mutex := None, th_phases := (th_phases s)[i := Idle]\<rparr>)"
| bulk_unlock: "i < length (th_phases s) \<Longrightarrow> th_phases s ! i = BulkSent ids \<Longrightarrow>
    thread_step s (s\<lparr>th_mutex := None, th_phases := (th_phases s)[i := Collecting ids]\<rparr>)"
| bulk_wait: "i < length (th_phases s) \<Longrightarrow> th_phases s ! i = Collecting ids \<Longrightarrow> ids \<noteq> [] \<Longrightarrow>
    thread_step s (goto i (BulkWaiting ids) s)"
| bulk_again: "i < length (th_phases s) \<Longrightarrow> th_phases s ! i = BulkWaiting ids \<Longrightarrow>
    take_replies ids (th_replies s) = (left, rs) \<Longrightarrow>
    thread_step s (s\<lparr>th_replies := rs, th_phases := (th_phases s)[i := Collecting []]\<rparr>)"
| bulk_return: "i < length (th_phases s) \<Longrightarrow> th_phases s ! i = BulkWaiting ids \<Longrightarrow>
    take_replies ids (th_replies s) = ([], rs) \<Longrightarrow>
    thread_step s (s\<lparr>th_replies := rs, th_phases := (th_phases s)[i := Idle]\<rparr>)"
| answer: "n \<in> th_sent s \<Longrightarrow>
    thread_step s (s\<lparr>th_sent := th_sent s - {n}, th_replies := insert n (th_replies s)\<rparr>)"

inductive_cases thread_stepE: "thread_step s t"

section \<open>Mutual exclusion\<close>

text \<open>The phases between taking the mutex and releasing it.\<close>

fun in_section :: "phase \<Rightarrow> bool" where
  "in_section (Sending n a) = True"
| "in_section (Waiting a) = True"
| "in_section (BulkSending n a ids) = True"
| "in_section (BulkSent ids) = True"
| "in_section _ = False"

definition mutex_inv :: "threads \<Rightarrow> bool" where
  "mutex_inv s \<longleftrightarrow> (\<forall>i < length (th_phases s). in_section (th_phases s ! i) \<longleftrightarrow> th_mutex s = Some i)"

lemma mutex_inv_step: "thread_step s t \<Longrightarrow> mutex_inv s \<Longrightarrow> mutex_inv t"
  by (erule thread_stepE) (auto simp: mutex_inv_def nth_list_update)

lemma mutex_inv_reachable: "thread_step\<^sup>*\<^sup>* s t \<Longrightarrow> mutex_inv s \<Longrightarrow> mutex_inv t"
  by (induction rule: rtranclp_induct) (auto intro: mutex_inv_step)

lemma mutex_inv_start: "mutex_inv (threads_start k)"
  by (simp add: mutex_inv_def threads_start_def)

section \<open>A single calling thread\<close>

text \<open>With one thread the second read of the counter sees the request's own number, and while
  the thread waits for a single reply, its request or the reply to it is there. (A bulk request that
  waits for nothing it can get asks again.)\<close>

fun single_phase :: "phase \<Rightarrow> threads \<Rightarrow> bool" where
  "single_phase (Numbered n) s \<longleftrightarrow> th_mutex s = None \<and> n = th_counter s"
| "single_phase (Entering n a) s \<longleftrightarrow> th_mutex s = None \<and> n = th_counter s \<and> a = n"
| "single_phase (Sending n a) s \<longleftrightarrow> n = th_counter s \<and> a = n"
| "single_phase (Waiting a) s \<longleftrightarrow> a = th_counter s \<and> a \<in> th_sent s \<union> th_replies s"
| "single_phase (EatNumbered n) s \<longleftrightarrow> th_mutex s = None \<and> n = th_counter s"
| "single_phase (EatEntering n a) s \<longleftrightarrow> th_mutex s = None \<and> n = th_counter s \<and> a = n"
| "single_phase (EatWaiting a) s \<longleftrightarrow> th_mutex s = None \<and> a = th_counter s \<and> a \<in> th_sent s \<union> th_replies s"
| "single_phase (BulkSending n a ids) s \<longleftrightarrow> True"
| "single_phase (BulkSent ids) s \<longleftrightarrow> True"
| "single_phase _ s \<longleftrightarrow> th_mutex s = None"

definition single_inv :: "threads \<Rightarrow> bool" where
  "single_inv s \<longleftrightarrow> (\<exists>p. th_phases s = [p] \<and> single_phase p s)"

lemma single_inv_step:
  assumes "thread_step s t" "single_inv s"
  shows "single_inv t"
proof -
  from assms(2) obtain p where p: "th_phases s = [p]" "single_phase p s" by (auto simp: single_inv_def)
  have "single_phase p (s\<lparr>th_sent := th_sent s - {n}, th_replies := insert n (th_replies s)\<rparr>)" for n
    using p(2) by (cases p) auto
  with assms(1) p show ?thesis by cases (auto simp: single_inv_def)
qed

lemma single_inv_reachable: "thread_step\<^sup>*\<^sup>* s t \<Longrightarrow> single_inv s \<Longrightarrow> single_inv t"
  by (induction rule: rtranclp_induct) (auto intro: single_inv_step)

lemma single_inv_start: "single_inv (threads_start 1)"
  by (simp add: single_inv_def threads_start_def)

definition completes :: "threads \<Rightarrow> bool" where
  "completes s \<longleftrightarrow> (\<exists>t. thread_step\<^sup>*\<^sup>* s t \<and> th_phases t = [Idle])"

lemma completes_idle: "th_phases s = [Idle] \<Longrightarrow> completes s"
  by (auto simp: completes_def)

lemma completes_step: "thread_step s t \<Longrightarrow> completes t \<Longrightarrow> completes s"
  unfolding completes_def by (meson converse_rtranclp_into_rtranclp)

text \<open>The server answers a request that is on its way.\<close>

lemma completes_answered:
  assumes "a \<in> th_sent s \<union> th_replies s" "\<And>t. th_phases t = th_phases s \<Longrightarrow> a \<in> th_replies t \<Longrightarrow> completes t"
  shows "completes s"
proof (cases "a \<in> th_replies s")
  case True
  with assms(2) show ?thesis by blast
next
  case False
  with assms(1) have "thread_step s (s\<lparr>th_sent := th_sent s - {a}, th_replies := insert a (th_replies s)\<rparr>)"
    by (intro thread_step.answer) simp
  then show ?thesis by (rule completes_step) (rule assms(2), simp_all)
qed

lemma single_waiting:
  assumes "th_phases s = [Waiting a]" "0 \<le> a" "a \<in> th_sent s \<union> th_replies s"
  shows "completes s"
proof (rule completes_answered [OF assms(3)])
  fix t :: threads
  assume "th_phases t = th_phases s" "a \<in> th_replies t"
  then show "completes t"
    by (intro completes_step [OF thread_step.receive [of 0 t a] completes_idle]) (use assms(1,2) in simp_all)
qed

lemma single_sending:
  assumes "th_phases s = [Sending n n]" "0 \<le> n"
  shows "completes s"
  by (rule completes_step [OF thread_step.send [of 0 s n n] single_waiting [where a = n]]) (use assms in simp_all)

lemma single_entering:
  assumes "th_phases s = [Entering n n]" "th_mutex s = None" "0 \<le> n"
  shows "completes s"
  by (rule completes_step [OF thread_step.lock [of 0 s n n] single_sending [where n = n]]) (use assms in simp_all)

lemma single_numbered:
  assumes "th_phases s = [Numbered n]" "th_mutex s = None" "th_counter s = n" "0 \<le> n"
  shows "completes s"
  by (rule completes_step [OF thread_step.call [of 0 s n] single_entering [where n = n]]) (use assms in simp_all)

lemma eat_waiting:
  assumes "th_phases s = [EatWaiting a]" "0 \<le> a" "a \<in> th_sent s \<union> th_replies s"
  shows "completes s"
proof (rule completes_answered [OF assms(3)])
  fix t :: threads
  assume "th_phases t = th_phases s" "a \<in> th_replies t"
  then show "completes t"
    by (intro completes_step [OF thread_step.eat_receive [of 0 t a] completes_idle]) (use assms(1,2) in simp_all)
qed

lemma eat_entering:
  assumes "th_phases s = [EatEntering n n]" "0 \<le> n"
  shows "completes s"
  by (rule completes_step [OF thread_step.eat_send [of 0 s n n] eat_waiting [where a = n]]) (use assms in simp_all)

lemma eat_numbered:
  assumes "th_phases s = [EatNumbered n]" "th_counter s = n" "0 \<le> n"
  shows "completes s"
  by (rule completes_step [OF thread_step.eat_call [of 0 s n] eat_entering [where n = n]]) (use assms in simp_all)

text \<open>A bulk operation: once it starts on a new chunk, with a counter that does not wrap, it can be
  answered and return.\<close>

lemma bulk_waiting_one:
  assumes "th_phases s = [BulkWaiting [a]]" "0 \<le> a" "a \<in> th_sent s \<union> th_replies s"
  shows "completes s"
proof (rule completes_answered [OF assms(3)])
  fix t :: threads
  assume "th_phases t = th_phases s" "a \<in> th_replies t"
  then show "completes t"
    by (intro completes_step [OF thread_step.bulk_return [of 0 t "[a]" "th_replies t - {a}"] completes_idle])
       (use assms(1,2) in simp_all)
qed

lemma bulk_collecting_one:
  assumes "th_phases s = [Collecting [a]]" "0 \<le> a" "a \<in> th_sent s \<union> th_replies s"
  shows "completes s"
  by (rule completes_step [OF thread_step.bulk_wait [of 0 s "[a]"] bulk_waiting_one [where a = a]]) (use assms in simp_all)

lemma bulk_fresh_sent:
  assumes "th_phases s = [BulkSent [a]]" "0 \<le> a" "a \<in> th_sent s \<union> th_replies s"
  shows "completes s"
  by (rule completes_step [OF thread_step.bulk_unlock [of 0 s "[a]"] bulk_collecting_one [where a = a]]) (use assms in simp_all)

lemma bulk_fresh_sending:
  assumes "th_phases s = [BulkSending n n []]" "0 \<le> n"
  shows "completes s"
  by (rule completes_step [OF thread_step.bulk_send [of 0 s n n "[]"] bulk_fresh_sent [where a = n]]) (use assms in simp_all)

lemma bulk_fresh_entering:
  assumes "th_phases s = [BulkEntering n n []]" "th_mutex s = None" "0 \<le> n"
  shows "completes s"
  by (rule completes_step [OF thread_step.bulk_lock [of 0 s n n "[]"] bulk_fresh_sending [where n = n]]) (use assms in simp_all)

lemma bulk_fresh_numbered:
  assumes "th_phases s = [BulkNumbered n []]" "th_mutex s = None" "th_counter s = n" "0 \<le> n"
  shows "completes s"
  by (rule completes_step [OF thread_step.bulk_call [of 0 s n "[]"] bulk_fresh_entering [where n = n]]) (use assms in simp_all)

lemma bulk_fresh:
  assumes "th_phases s = [Collecting []]" "th_mutex s = None" "0 \<le> th_counter s" "th_counter s < 2 ^ 31 - 1"
  shows "completes s"
proof -
  have n: "wrap_int (th_counter s + 1) = th_counter s + 1" using assms(3,4) by (intro wrap_int_id) simp_all
  show ?thesis
    by (rule completes_step [OF thread_step.bulk_number [of 0 s "[]" "th_counter s + 1"]
          bulk_fresh_numbered [where n = "th_counter s + 1"]]) (use assms n in simp_all)
qed

lemma bulk_waiting:
  assumes "th_phases s = [BulkWaiting ids]" "th_mutex s = None" "0 \<le> th_counter s" "th_counter s < 2 ^ 31 - 1"
  shows "completes s"
  by (rule completes_step [OF thread_step.bulk_again [of 0 s ids "fst (take_replies ids (th_replies s))" "snd (take_replies ids (th_replies s))"] bulk_fresh]) (use assms in simp_all)

lemma bulk_collecting:
  assumes "th_phases s = [Collecting ids]" "th_mutex s = None" "0 \<le> th_counter s" "th_counter s < 2 ^ 31 - 1"
  shows "completes s"
proof (cases "ids = []")
  case False
  then show ?thesis
    by (intro completes_step [OF thread_step.bulk_wait [of 0 s ids] bulk_waiting [where ids = ids]])
       (use assms in simp_all)
qed (use assms bulk_fresh in simp)

lemma bulk_sent:
  assumes "th_phases s = [BulkSent ids]" "0 \<le> th_counter s" "th_counter s < 2 ^ 31 - 1"
  shows "completes s"
  by (rule completes_step [OF thread_step.bulk_unlock [of 0 s ids] bulk_collecting [where ids = ids]]) (use assms in simp_all)

lemma bulk_sending:
  assumes "th_phases s = [BulkSending n a ids]" "0 \<le> th_counter s" "th_counter s < 2 ^ 31 - 1"
  shows "completes s"
  by (rule completes_step [OF thread_step.bulk_send [of 0 s n a ids] bulk_sent [where ids = "ids @ [a]"]]) (use assms in simp_all)

lemma bulk_entering:
  assumes "th_phases s = [BulkEntering n a ids]" "th_mutex s = None" "0 \<le> th_counter s" "th_counter s < 2 ^ 31 - 1"
  shows "completes s"
  by (rule completes_step [OF thread_step.bulk_lock [of 0 s n a ids] bulk_sending [where n = n and a = a and ids = ids]]) (use assms in simp_all)

lemma bulk_numbered:
  assumes "th_phases s = [BulkNumbered n ids]" "th_mutex s = None" "0 \<le> th_counter s" "th_counter s < 2 ^ 31 - 1"
  shows "completes s"
  by (rule completes_step [OF thread_step.bulk_call [of 0 s n ids] bulk_entering [where n = n and a = "th_counter s" and ids = ids]]) (use assms in simp_all)

lemmas phase_completes = single_numbered single_entering single_sending single_waiting eat_numbered eat_entering
  eat_waiting bulk_numbered bulk_entering bulk_sending bulk_sent bulk_collecting bulk_waiting completes_idle

section \<open>Properties\<close>

text \<open>
  C22. However many threads use the client, with single, bulk and eat requests in any interleaving, at
  most one of them is in the mutex's section -- a single request between taking the mutex and taking
  its reply, or a bulk request between taking it and having written one of its requests -- and that
  thread owns the mutex. So while a single request waits, no other single request and none of a bulk
  request is written. The requests of \<^verbatim>\<open>ping\<close> and \<^verbatim>\<open>scripthashSubscribe\<close> and the waits of the bulk
  requests are outside the section: they overlap with anything (\<^verbatim>\<open>eat_requests_overlap\<close>).
\<close>

theorem requests_mutually_exclusive:
  assumes "thread_step\<^sup>*\<^sup>* (threads_start k) s" "i < length (th_phases s)" "j < length (th_phases s)"
    and "in_section (th_phases s ! i)" "in_section (th_phases s ! j)"
  shows "i = j \<and> th_mutex s = Some i"
  using mutex_inv_reachable [OF assms(1) mutex_inv_start] assms(2-5) by (auto simp: mutex_inv_def)

text \<open>Two threads, both numbered before either calls \<^verbatim>\<open>send_request\<close>.\<close>

definition both_numbered :: threads where
  "both_numbered = \<lparr>th_counter = 2, th_mutex = None, th_phases = [Numbered 1, Numbered 2],
     th_sent = {}, th_replies = {}\<rparr>"

definition stuck_threads :: threads where
  "stuck_threads = \<lparr>th_counter = 2, th_mutex = Some 0, th_phases = [Waiting 2, Entering 2 2],
     th_sent = {}, th_replies = {1}\<rparr>"

lemma reach_both_numbered: "thread_step\<^sup>*\<^sup>* (threads_start 2) both_numbered"
proof -
  let ?s1 = "\<lparr>th_counter = 1, th_mutex = None, th_phases = [Numbered 1, Idle], th_sent = {}, th_replies = {}\<rparr>"
  have "thread_step (threads_start 2) ?s1"
    using thread_step.number [of 0 "threads_start 2" 1]
    by (simp add: threads_start_def numeral_2_eq_2 wrap_int_def)
  moreover have "thread_step ?s1 both_numbered"
    using thread_step.number [of 1 ?s1 2] by (simp add: both_numbered_def wrap_int_def)
  ultimately show ?thesis by (meson converse_rtranclp_into_rtranclp r_into_rtranclp)
qed

lemma reach_stuck: "thread_step\<^sup>*\<^sup>* both_numbered stuck_threads"
proof -
  let ?s1 = "both_numbered\<lparr>th_phases := [Entering 1 2, Numbered 2]\<rparr>"
  let ?s2 = "both_numbered\<lparr>th_phases := [Entering 1 2, Entering 2 2]\<rparr>"
  let ?s3 = "?s2\<lparr>th_mutex := Some 0, th_phases := [Sending 1 2, Entering 2 2]\<rparr>"
  let ?s4 = "?s3\<lparr>th_sent := {1}, th_phases := [Waiting 2, Entering 2 2]\<rparr>"
  have "thread_step both_numbered ?s1"
    using thread_step.call [of 0 both_numbered 1] by (simp add: both_numbered_def)
  moreover have "thread_step ?s1 ?s2"
    using thread_step.call [of 1 ?s1 2] by (simp add: both_numbered_def)
  moreover have "thread_step ?s2 ?s3"
    using thread_step.lock [of 0 ?s2 1 2] by (simp add: both_numbered_def)
  moreover have "thread_step ?s3 ?s4"
    using thread_step.send [of 0 ?s3 1 2] by (simp add: both_numbered_def)
  moreover have "thread_step ?s4 stuck_threads"
    using thread_step.answer [of 1 ?s4] by (simp add: both_numbered_def stuck_threads_def)
  ultimately show ?thesis by (meson converse_rtranclp_into_rtranclp r_into_rtranclp)
qed

lemma stuck_no_step: "\<not> thread_step stuck_threads t"
  by (auto elim!: thread_stepE simp: stuck_threads_def less_Suc_eq nth_Cons')

theorem requests_mutually_exclusive_witness:
  "0 = (0 :: nat) \<and> th_mutex stuck_threads = Some 0"
proof (rule requests_mutually_exclusive)
  show "thread_step\<^sup>*\<^sup>* (threads_start 2) stuck_threads"
    using reach_both_numbered reach_stuck by (rule rtranclp_trans)
qed (simp_all add: stuck_threads_def)

text \<open>
  C34. Two threads are enough for a deadlock. If both have numbered their requests before the
  first one enters \<^verbatim>\<open>send_request\<close>, the second read of \<^verbatim>\<open>id_counter\<close> makes the first thread
  wait, holding the mutex, for the reply to the second thread's request, which the second
  thread cannot send without the mutex: a state is reachable in which the server has answered
  everything it was sent and no step is possible any more.
\<close>

theorem two_threads_deadlock:
  "thread_step\<^sup>*\<^sup>* (threads_start 2) stuck_threads \<and> th_sent stuck_threads = {} \<and>
   \<not> Ex (thread_step stuck_threads)"
  using rtranclp_trans [OF reach_both_numbered reach_stuck] stuck_no_step
  by (simp add: stuck_threads_def)



text \<open>
  The bound is needed: after $2^{31}$ requests a single thread that waits for a negative number has no
  step left, although the server has answered its request.
\<close>

lemma wrapped_number_hangs:
  assumes "a < 0" "t = \<lparr>th_counter = a, th_mutex = Some 0, th_phases = [Waiting a], th_sent = {}, th_replies = {a}\<rparr>"
  shows "\<not> Ex (thread_step t)"
  using assms by (auto elim!: thread_stepE)

text \<open>
  An eat request is written and waits while another thread holds the mutex for a single request.
\<close>

lemma eat_requests_overlap:
  "\<exists>s. thread_step\<^sup>*\<^sup>* (threads_start 2) s \<and> th_phases s = [Waiting 1, EatWaiting 2] \<and> th_mutex s = Some 0"
proof -
  let ?s0 = "threads_start 2"
  let ?s1 = "\<lparr>th_counter = 1, th_mutex = None, th_phases = [Numbered 1, Idle], th_sent = {}, th_replies = {}\<rparr>"
  let ?s2 = "?s1\<lparr>th_phases := [Entering 1 1, Idle]\<rparr>"
  let ?s3 = "?s2\<lparr>th_mutex := Some 0, th_phases := [Sending 1 1, Idle]\<rparr>"
  let ?s4 = "?s3\<lparr>th_sent := {1}, th_phases := [Waiting 1, Idle]\<rparr>"
  let ?s5 = "?s4\<lparr>th_counter := 2, th_phases := [Waiting 1, EatNumbered 2]\<rparr>"
  let ?s6 = "?s5\<lparr>th_phases := [Waiting 1, EatEntering 2 2]\<rparr>"
  let ?s7 = "?s6\<lparr>th_sent := {2, 1}, th_phases := [Waiting 1, EatWaiting 2]\<rparr>"
  have "thread_step ?s0 ?s1"
    using thread_step.number [of 0 ?s0 1] by (simp add: threads_start_def numeral_2_eq_2 wrap_int_def)
  moreover have "thread_step ?s1 ?s2" using thread_step.call [of 0 ?s1 1] by simp
  moreover have "thread_step ?s2 ?s3" using thread_step.lock [of 0 ?s2 1 1] by simp
  moreover have "thread_step ?s3 ?s4" using thread_step.send [of 0 ?s3 1 1] by simp
  moreover have "thread_step ?s4 ?s5" using thread_step.eat_number [of 1 ?s4 2] by (simp add: wrap_int_def)
  moreover have "thread_step ?s5 ?s6" using thread_step.eat_call [of 1 ?s5 2] by simp
  moreover have "thread_step ?s6 ?s7" using thread_step.eat_send [of 1 ?s6 2 2] by simp
  ultimately have "thread_step\<^sup>*\<^sup>* ?s0 ?s7" by (meson converse_rtranclp_into_rtranclp rtranclp.rtrancl_refl)
  then show ?thesis by (intro exI [where x = ?s7]) simp
qed

end
