(* ===== verification/BingWallet.thy ===== *)
theory BingWallet
  imports Libbitcoin
begin

text \<open>
  \<^verbatim>\<open>src/wallet/bing_wallet.cpp\<close>: the addresses of an Electrum seed phrase with their keys. The
  mnemonic and key derivation functions of libbitcoin are parameters.
\<close>

section \<open>The library\<close>

record 'k hd_api =
  hd_split :: "string \<Rightarrow> string list"
  hd_validate_mnemonic :: "string list \<Rightarrow> bool"
  hd_decode_mnemonic :: "string list \<Rightarrow> data_chunk"
  hd_testnet :: u64
  hd_mainnet :: u64
  hd_new :: "data_chunk \<Rightarrow> u64 \<Rightarrow> 'k"
  hd_derive_private :: "'k \<Rightarrow> nat \<Rightarrow> 'k"
  hd_secret :: "'k \<Rightarrow> data_chunk"
  hd_ec_private :: "data_chunk \<Rightarrow> u8 \<Rightarrow> ec_private"
  hd_payment_address :: "ec_private \<Rightarrow> payment_address"

section \<open>Derivation\<close>

record AddressDerivationResult =
  adr_priv_key_ec :: ec_private
  adr_derivation_path :: string

definition is_mnemonic_valid :: "'k hd_api \<Rightarrow> string \<Rightarrow> bool" where
  "is_mnemonic_valid H seed_phrase = hd_validate_mnemonic H (hd_split H seed_phrase)"

text \<open>The state is the two out parameters.\<close>

type_synonym derived = "string list \<times> (string \<rightharpoonup> AddressDerivationResult)"

text \<open>The body of the inner loop, for the key \<^verbatim>\<open>mx\<close> of branch \<^verbatim>\<open>i\<close>.\<close>

definition derive_one ::
    "libbitcoin \<Rightarrow> 'k hd_api \<Rightarrow> u8 \<Rightarrow> nat \<Rightarrow> 'k \<Rightarrow> nat \<Rightarrow> (derived, unit) exec" where
  "derive_one L H payment_address_version i mx j =
     (let hdPrivate = hd_derive_private H mx j;
          key = hd_ec_private H (hd_secret H hdPrivate) payment_address_version;
          address = lb_encoded L (hd_payment_address H key);
          path = ''m/'' @ dec_nat i @ ''/'' @ dec_nat j
      in modifyS (\<lambda>(addresses, addresses_to_data).
           (addresses @ [address],
            addresses_to_data(address \<mapsto> \<lparr>adr_priv_key_ec = key, adr_derivation_path = path\<rparr>))))"

definition derive_electrum_addresses ::
    "libbitcoin \<Rightarrow> 'k hd_api \<Rightarrow> bool \<Rightarrow> string \<Rightarrow> int \<Rightarrow> int \<Rightarrow> (derived, unit) exec" where
  "derive_electrum_addresses L H testnet seed_phrase count0 count1 =
     bindE (modifyS (\<lambda>_. ([], Map.empty))) (\<lambda>_.
     let mnemonic = hd_split H seed_phrase in
     if \<not> hd_validate_mnemonic H mnemonic then throw (InvalidArgument ''incorrect mnemonic'')
     else
       (let seed = hd_decode_mnemonic H mnemonic;
            testnet_or_mainnet = (if testnet then hd_testnet H else hd_mainnet H);
            m = hd_new H seed testnet_or_mainnet;
            payment_address_version = (if testnet then lb_testnet_p2kh L else lb_mainnet_p2kh L);
            counters = [count0, count1]
        in forE (\<lambda>i. let mx = hd_derive_private H m i in
                  forE (derive_one L H payment_address_version i mx) [0..<nat (counters ! i)])
             [0..<2]))"

section \<open>The derived addresses\<close>

text \<open>Key and address number \<^verbatim>\<open>j\<close> of branch \<^verbatim>\<open>i\<close>.\<close>

definition derived_key :: "libbitcoin \<Rightarrow> 'k hd_api \<Rightarrow> bool \<Rightarrow> string \<Rightarrow> nat \<times> nat \<Rightarrow> ec_private" where
  "derived_key L H testnet seed_phrase = (\<lambda>(i, j).
     hd_ec_private H (hd_secret H (hd_derive_private H (hd_derive_private H
       (hd_new H (hd_decode_mnemonic H (hd_split H seed_phrase)) (if testnet then hd_testnet H else hd_mainnet H)) i) j))
       (if testnet then lb_testnet_p2kh L else lb_mainnet_p2kh L))"

abbreviation derived_address :: "libbitcoin \<Rightarrow> 'k hd_api \<Rightarrow> bool \<Rightarrow> string \<Rightarrow> nat \<times> nat \<Rightarrow> string" where
  "derived_address L H testnet seed_phrase ij \<equiv>
     lb_encoded L (hd_payment_address H (derived_key L H testnet seed_phrase ij))"

definition derivation_path :: "nat \<times> nat \<Rightarrow> string" where
  "derivation_path = (\<lambda>(i, j). ''m/'' @ dec_nat i @ ''/'' @ dec_nat j)"

definition wallet_positions :: "int \<Rightarrow> int \<Rightarrow> (nat \<times> nat) list" where
  "wallet_positions count0 count1 = map (Pair 0) [0..<nat count0] @ map (Pair 1) [0..<nat count1]"

lemma derive_branch:
  "forE (derive_one L H ver i mx) js (as, d) =
     (Inr (), (as @ map (\<lambda>j. lb_encoded L (hd_payment_address H (hd_ec_private H
         (hd_secret H (hd_derive_private H mx j)) ver))) js,
       foldl (\<lambda>d j. d(lb_encoded L (hd_payment_address H (hd_ec_private H (hd_secret H (hd_derive_private H mx j)) ver)) \<mapsto>
           \<lparr>adr_priv_key_ec = hd_ec_private H (hd_secret H (hd_derive_private H mx j)) ver,
            adr_derivation_path = ''m/'' @ dec_nat i @ ''/'' @ dec_nat j\<rparr>)) d js))"
  by (induction js arbitrary: as d) (simp_all add: bindE_def derive_one_def Let_def)

lemma foldl_upd_other: "x \<notin> f ` set ks \<Longrightarrow> foldl (\<lambda>d j. d(f j \<mapsto> g j)) d ks x = d x"
  by (induction ks arbitrary: d) simp_all

lemma foldl_upd_lookup:
  "distinct (map f js) \<Longrightarrow> j \<in> set js \<Longrightarrow> foldl (\<lambda>d j. d(f j \<mapsto> g j)) d js (f j) = Some (g j)"
proof (induction js arbitrary: d)
  case (Cons k ks)
  show ?case
  proof (cases "j \<in> set ks")
    case True
    with Cons show ?thesis by simp
  next
    case False
    with Cons.prems have k: "j = k" "f k \<notin> f ` set ks" by auto
    have "foldl (\<lambda>d j. d(f j \<mapsto> g j)) (d(f k \<mapsto> g k)) ks (f k) = (d(f k \<mapsto> g k)) (f k)"
      by (rule foldl_upd_other [OF k(2)])
    then show ?thesis by (simp only: k(1) foldl_Cons fun_upd_same)
  qed
qed simp

lemma derive_electrum_addresses_eval:
  assumes "hd_validate_mnemonic H (hd_split H seed_phrase)"
  shows "derive_electrum_addresses L H testnet seed_phrase count0 count1 s =
    (Inr (), (map (derived_address L H testnet seed_phrase) (wallet_positions count0 count1),
      foldl (\<lambda>d ij. d(derived_address L H testnet seed_phrase ij \<mapsto>
          \<lparr>adr_priv_key_ec = derived_key L H testnet seed_phrase ij, adr_derivation_path = derivation_path ij\<rparr>))
        Map.empty (wallet_positions count0 count1)))"
proof -
  have two: "[0..<2] = [0, Suc 0]" by (simp add: numeral_2_eq_2)
  show ?thesis
    using assms
    by (simp add: derive_electrum_addresses_def two Let_def bindE_def derive_branch derived_key_def
        wallet_positions_def derivation_path_def comp_def foldl_map)
qed

section \<open>Properties\<close>

text \<open>
  C30. For a valid seed phrase the wallet gets \<^verbatim>\<open>count0\<close> receiving addresses followed by
  \<^verbatim>\<open>count1\<close> change addresses (a negative count counts as none), and as long as the derived
  addresses are distinct, every address is filed with its own private key and its derivation
  path. An invalid phrase is refused, and leaves no address of an earlier wallet behind.
\<close>

theorem derived_wallet_layout:
  assumes "distinct (map (derived_address L H testnet seed_phrase) (wallet_positions count0 count1))"
    and "derive_electrum_addresses L H testnet seed_phrase count0 count1 s = (r, (addrs, data))"
  shows "if is_mnemonic_valid H seed_phrase
    then r = Inr () \<and> length addrs = nat count0 + nat count1 \<and>
      addrs = map (derived_address L H testnet seed_phrase) (wallet_positions count0 count1) \<and>
      (\<forall>ij \<in> set (wallet_positions count0 count1).
         data (derived_address L H testnet seed_phrase ij) =
           Some \<lparr>adr_priv_key_ec = derived_key L H testnet seed_phrase ij, adr_derivation_path = derivation_path ij\<rparr>)
    else r = Inl (InvalidArgument ''incorrect mnemonic'') \<and> addrs = [] \<and> data = Map.empty"
proof (cases "is_mnemonic_valid H seed_phrase")
  case True
  then have valid: "hd_validate_mnemonic H (hd_split H seed_phrase)" by (simp add: is_mnemonic_valid_def)
  from assms(2) derive_electrum_addresses_eval [OF valid, of L testnet count0 count1 s]
  have run: "r = Inr ()" "addrs = map (derived_address L H testnet seed_phrase) (wallet_positions count0 count1)"
    "data = foldl (\<lambda>d ij. d(derived_address L H testnet seed_phrase ij \<mapsto>
          \<lparr>adr_priv_key_ec = derived_key L H testnet seed_phrase ij, adr_derivation_path = derivation_path ij\<rparr>))
        Map.empty (wallet_positions count0 count1)" by simp_all
  then have "length addrs = nat count0 + nat count1" by (simp add: wallet_positions_def)
  moreover have "data (derived_address L H testnet seed_phrase ij) =
      Some \<lparr>adr_priv_key_ec = derived_key L H testnet seed_phrase ij, adr_derivation_path = derivation_path ij\<rparr>"
    if "ij \<in> set (wallet_positions count0 count1)" for ij
    unfolding run(3) by (rule foldl_upd_lookup [OF assms(1) that])
  ultimately show ?thesis using True run(1,2) by simp
next
  case False
  with assms(2) show ?thesis
    by (simp add: is_mnemonic_valid_def derive_electrum_addresses_def bindE_def Let_def)
qed

text \<open>A key library for closed examples: a key is its path, and so is its address.\<close>

definition sample_hd :: "nat list hd_api" where
  "sample_hd = \<lparr>hd_split = (\<lambda>s. [s]), hd_validate_mnemonic = (\<lambda>ws. ws \<noteq> [[]]), hd_decode_mnemonic = (\<lambda>_. []),
     hd_testnet = 1, hd_mainnet = 0, hd_new = (\<lambda>_ _. []), hd_derive_private = (\<lambda>k i. k @ [i]),
     hd_secret = map of_nat, hd_ec_private = (\<lambda>s v. \<lparr>ec_secret = s, ec_version = v\<rparr>),
     hd_payment_address = (\<lambda>k. \<lparr>pa_version = ec_version k, pa_hash = ec_secret k, pa_valid = True\<rparr>)\<rparr>"

theorem derived_wallet_layout_witness:
  "\<exists>addrs data. derive_electrum_addresses (sample_libbitcoin\<lparr>lb_encoded := \<lambda>a. map (\<lambda>b. char_of (unat b)) (pa_hash a)\<rparr>)
      sample_hd True ''seed'' 2 1 ([], Map.empty) = (Inr (), (addrs, data)) \<and> length addrs = 3"
proof -
  let ?L = "sample_libbitcoin\<lparr>lb_encoded := \<lambda>a. map (\<lambda>b. char_of (unat b)) (pa_hash a)\<rparr>"
  obtain addrs data where run: "derive_electrum_addresses ?L sample_hd True ''seed'' 2 1 ([], Map.empty) = (Inr (), (addrs, data))"
    using derive_electrum_addresses_eval [of sample_hd "''seed''"] by (simp add: sample_hd_def)
  have "distinct (map (derived_address ?L sample_hd True ''seed'') (wallet_positions 2 1))"
    by code_simp
  from derived_wallet_layout [OF this run] run show ?thesis
    by (auto simp: is_mnemonic_valid_def sample_hd_def split: if_splits)
qed

end
