(* ===== verification/WalletState.thy ===== *)
theory WalletState
  imports AddressConverter ElectrumInterface BingWallet BlockingQueue
begin

text \<open>
  \<^verbatim>\<open>src/walletstate/wallet_state.cpp\<close>: the wallet's addresses, the caches of transactions and
  address histories, the combined history, and the queues of updates for the user interface.
  Operations act on the pair of the object and the world \<^verbatim>\<open>'w\<close> of the Electrum client.
\<close>

section \<open>State\<close>

record TransactionInfo =
  ti_tx :: transaction
  ti_height :: int
  ti_fresh :: bool

record HistoryViewRow =
  hvr_timestamp :: u32
  hvr_height :: int
  hvr_balance_delta :: u64
  hvr_tx_id :: string
  hvr_balance :: u64
  hvr_is_p2sh :: bool
  hvr_funding_amount :: u64
  hvr_funding_address :: string
  hvr_fresh :: bool

record 'w WalletState =
  ws_addresses :: "string list"
  ws_spkh_2_address :: "string \<rightharpoonup> string"
  txid_2_txhex_cache :: "string \<rightharpoonup> string"
  address_2_history_cache :: "string \<rightharpoonup> AddressHistoryItem list"
  address_2_history_cache_empty :: "string \<rightharpoonup> bool"
  all_history :: "AddressHistoryItem list"
  ws_address_to_data :: "string \<rightharpoonup> AddressDerivationResult"
  history_queue :: "HistoryViewRow list blocking_queue"
  balance_queue :: "(string \<rightharpoonup> u64) blocking_queue"
  historyhash_queue :: "(string \<rightharpoonup> string) blocking_queue"
  progress_callbacks :: "'w ProgressCallback list"

definition WalletState_new ::
    "libbitcoin \<Rightarrow> string list \<Rightarrow> (string \<rightharpoonup> AddressDerivationResult) \<Rightarrow> 'w WalletState result" where
  "WalletState_new L addresses data =
     bindR (foldR (\<lambda>a m. bindR (base58_to_spkh_hex L a) (\<lambda>spkh. Inr (m(spkh \<mapsto> a)))) addresses Map.empty) (\<lambda>m.
     Inr \<lparr>ws_addresses = addresses, ws_spkh_2_address = m, txid_2_txhex_cache = Map.empty,
          address_2_history_cache = Map.empty, address_2_history_cache_empty = Map.empty,
          all_history = [], ws_address_to_data = data, history_queue = bq_new,
          balance_queue = bq_new, historyhash_queue = bq_new, progress_callbacks = []\<rparr>)"

definition is_in_wallet :: "'w WalletState \<Rightarrow> string \<Rightarrow> bool" where
  "is_in_wallet s address \<longleftrightarrow> address \<in> set (ws_addresses s)"

section \<open>Transactions\<close>

definition hex_2_tx :: "libbitcoin \<Rightarrow> string \<Rightarrow> transaction result" where
  "hex_2_tx L tx_hex =
     (case lb_decode_base16 L tx_hex of
        None \<Rightarrow> Inl (InvalidArgument ''could not decode raw hex transaction'')
      | Some tx_chunk \<Rightarrow> (case lb_tx_from_data L tx_chunk of
          None \<Rightarrow> Inl (InvalidArgument ''could not decode transaction'')
        | Some tx \<Rightarrow> Inr tx))"

text \<open>Reading a map member with \<^verbatim>\<open>operator[]\<close>.\<close>

definition index_txhex :: "string \<Rightarrow> ('w WalletState \<times> 'w, string) exec" where
  "index_txhex txid = (\<lambda>(s, w). case map_index [] (txid_2_txhex_cache s) txid of
     (tx_hex, m) \<Rightarrow> (Inr tx_hex, (s\<lparr>txid_2_txhex_cache := m\<rparr>, w)))"

definition store_txhex :: "string \<Rightarrow> string \<Rightarrow> ('w WalletState \<times> 'w, unit) exec" where
  "store_txhex txid tx_hex =
     modifyS (\<lambda>(s, w). (s\<lparr>txid_2_txhex_cache := (txid_2_txhex_cache s)(txid \<mapsto> tx_hex)\<rparr>, w))"

definition get_transaction ::
    "libbitcoin \<Rightarrow> ('j, 'w) ElectrumInterface \<Rightarrow> string \<Rightarrow> ('w WalletState \<times> 'w, transaction) exec" where
  "get_transaction L E txid =
     bindE (index_txhex txid) (\<lambda>tx_hex.
     bindE (if tx_hex = []
            then bindE (on_snd (ei_getTransaction E txid)) (\<lambda>h.
                 bindE (store_txhex txid h) (\<lambda>_. ret h))
            else ret tx_hex) (\<lambda>tx_hex.
     liftR (hex_2_tx L tx_hex)))"

section \<open>Histories\<close>

definition index_history_empty :: "string \<Rightarrow> ('w WalletState \<times> 'w, bool) exec" where
  "index_history_empty address = (\<lambda>(s, w). case map_index False (address_2_history_cache_empty s) address of
     (b, m) \<Rightarrow> (Inr b, (s\<lparr>address_2_history_cache_empty := m\<rparr>, w)))"

definition index_history :: "string \<Rightarrow> ('w WalletState \<times> 'w, AddressHistoryItem list) exec" where
  "index_history address = (\<lambda>(s, w). case map_index [] (address_2_history_cache s) address of
     (h, m) \<Rightarrow> (Inr h, (s\<lparr>address_2_history_cache := m\<rparr>, w)))"

definition store_history :: "string \<Rightarrow> AddressHistoryItem list \<Rightarrow> ('w WalletState \<times> 'w, unit) exec" where
  "store_history address items =
     modifyS (\<lambda>(s, w). (s\<lparr>address_2_history_cache := (address_2_history_cache s)(address \<mapsto> items)\<rparr>, w))"

definition store_history_empty :: "string \<Rightarrow> bool \<Rightarrow> ('w WalletState \<times> 'w, unit) exec" where
  "store_history_empty address b =
     modifyS (\<lambda>(s, w). (s\<lparr>address_2_history_cache_empty := (address_2_history_cache_empty s)(address \<mapsto> b)\<rparr>, w))"

definition mark_fresh :: "bool \<Rightarrow> AddressHistoryItem list \<Rightarrow> AddressHistoryItem list" where
  "mark_fresh b = map (\<lambda>i. \<lparr>ahi_txid = ahi_txid i, ahi_height = ahi_height i, ahi_fresh = b\<rparr>)"

text \<open>\<^verbatim>\<open>history_items\<close> is an in-out parameter, and it is all of it that is cached.\<close>

definition get_history ::
    "libbitcoin \<Rightarrow> ('j, 'w) ElectrumInterface \<Rightarrow> string \<Rightarrow> AddressHistoryItem list \<Rightarrow>
     ('w WalletState \<times> 'w, AddressHistoryItem list) exec" where
  "get_history L E address history_items =
     bindE (index_history_empty address) (\<lambda>known_empty.
     if known_empty then ret history_items
     else
       bindE (index_history address) (\<lambda>address_history.
       if address_history = [] then
         bindE (liftR (base58_to_spkh_hex L address)) (\<lambda>address_spkh.
         bindE (on_snd (ei_getHistory E address_spkh)) (\<lambda>history.
         let history_items = history_items @ mark_fresh True history in
         bindE (store_history address history_items) (\<lambda>_.
         bindE (if history_items = [] then store_history_empty address True else ret ()) (\<lambda>_.
         ret history_items))))
       else ret (history_items @ mark_fresh False address_history)))"

text \<open>A \<^verbatim>\<open>std::set\<close> ordered by transaction id, as the list of its elements: an element that
  compares equal to one that is there is not inserted.\<close>

fun ahi_insert :: "AddressHistoryItem \<Rightarrow> AddressHistoryItem list \<Rightarrow> AddressHistoryItem list" where
  "ahi_insert x [] = [x]"
| "ahi_insert x (y # ys) =
     (if ahi_txid x < ahi_txid y then x # y # ys
      else if ahi_txid y < ahi_txid x then y # ahi_insert x ys
      else y # ys)"

definition set_all_history :: "AddressHistoryItem list \<Rightarrow> ('w WalletState \<times> 'w, unit) exec" where
  "set_all_history ahi_set = modifyS (\<lambda>(s, w). (s\<lparr>all_history := ahi_set\<rparr>, w))"

definition refresh_step ::
    "libbitcoin \<Rightarrow> ('j, 'w) ElectrumInterface \<Rightarrow> string \<Rightarrow> AddressHistoryItem list \<Rightarrow>
     ('w WalletState \<times> 'w, AddressHistoryItem list) exec" where
  "refresh_step L E address ahi_set =
     bindE (get_history L E address []) (\<lambda>history_items. ret (fold ahi_insert history_items ahi_set))"

definition refresh_all_history ::
    "libbitcoin \<Rightarrow> ('j, 'w) ElectrumInterface \<Rightarrow> ('w WalletState \<times> 'w, unit) exec" where
  "refresh_all_history L E =
     bindE (getS (\<lambda>(s, w). ws_addresses s)) (\<lambda>addresses.
     bindE (foldE (refresh_step L E) addresses []) (\<lambda>ahi_set.
     set_all_history ahi_set))"

definition push_progress_event :: "ProgressEvent \<Rightarrow> ('w WalletState \<times> 'w, unit) exec" where
  "push_progress_event event =
     bindE (getS (\<lambda>(s, w). progress_callbacks s)) (\<lambda>cs. forE (\<lambda>c. on_snd (c event)) cs)"

text \<open>The loop over the histories of a bulk refresh; \<^verbatim>\<open>i\<close> indexes the addresses.\<close>

definition bulk_refresh_step ::
    "nat \<times> AddressHistory \<Rightarrow> AddressHistoryItem list \<Rightarrow> ('w WalletState \<times> 'w, AddressHistoryItem list) exec" where
  "bulk_refresh_step = (\<lambda>(i, history_items) ahi_set.
     bindE (getS (\<lambda>(s, w). ws_addresses s)) (\<lambda>addresses.
     bindE (liftR (vec_at addresses i)) (\<lambda>address.
     bindE (store_history address history_items) (\<lambda>_.
     bindE (if history_items = [] then store_history_empty address True else ret ()) (\<lambda>_.
     ret (fold ahi_insert history_items ahi_set))))))"

definition refresh_all_history_bulk ::
    "libbitcoin \<Rightarrow> ('j, 'w) ElectrumInterface \<Rightarrow> ('w WalletState \<times> 'w, unit) exec" where
  "refresh_all_history_bulk L E =
     bindE (getS (\<lambda>(s, w). ws_addresses s)) (\<lambda>addresses.
     bindE (push_progress_event \<lparr>history_read_delta = 0, history_total = int (length addresses),
              txs_read_delta = 0, txs_total = 0\<rparr>) (\<lambda>_.
     bindE (liftR (foldR (\<lambda>a acc. bindR (base58_to_spkh_hex L a) (\<lambda>h. Inr (acc @ [h]))) addresses [])) (\<lambda>addresses_spkh.
     bindE (getS (\<lambda>(s, w). progress_callbacks s)) (\<lambda>cbs.
     bindE (on_snd (ei_getHistoryBulk E addresses_spkh cbs)) (\<lambda>histories.
     bindE (foldE bulk_refresh_step (enumerate 0 histories) []) (\<lambda>ahi_set.
     set_all_history ahi_set))))))"

section \<open>Sorting\<close>

definition history_before :: "AddressHistoryItem \<Rightarrow> AddressHistoryItem \<Rightarrow> bool" where
  "history_before lhs rhs =
     (if ahi_height lhs \<noteq> ahi_height rhs then
        (if ahi_height lhs = 0 then True
         else if ahi_height rhs = 0 then False
         else ahi_height rhs < ahi_height lhs)
      else ahi_txid rhs < ahi_txid lhs)"

text \<open>\<^verbatim>\<open>std::sort\<close>, as an insertion sort; \<^verbatim>\<open>sort_history_unique\<close> below shows that for distinct
  transaction ids every sorting algorithm gives this list.\<close>

fun insert_before :: "('a \<Rightarrow> 'a \<Rightarrow> bool) \<Rightarrow> 'a \<Rightarrow> 'a list \<Rightarrow> 'a list" where
  "insert_before lt x [] = [x]"
| "insert_before lt x (y # ys) = (if lt y x then y # insert_before lt x ys else x # y # ys)"

definition std_sort :: "('a \<Rightarrow> 'a \<Rightarrow> bool) \<Rightarrow> 'a list \<Rightarrow> 'a list" where
  "std_sort lt xs = foldr (insert_before lt) xs []"

definition sort_all_history :: "('w WalletState \<times> 'w, unit) exec" where
  "sort_all_history = modifyS (\<lambda>(s, w). (s\<lparr>all_history := std_sort history_before (all_history s)\<rparr>, w))"

definition collect_tx ::
    "libbitcoin \<Rightarrow> ('j, 'w) ElectrumInterface \<Rightarrow> AddressHistoryItem \<Rightarrow> TransactionInfo list \<Rightarrow>
     ('w WalletState \<times> 'w, TransactionInfo list) exec" where
  "collect_tx L E item txs =
     (if ahi_txid item = []
      then throw (InvalidArgument ''empty transaction id in get_all_txs_sorted'')
      else bindE (get_transaction L E (ahi_txid item)) (\<lambda>tx.
           ret (txs @ [\<lparr>ti_tx = tx, ti_height = ahi_height item, ti_fresh = ahi_fresh item\<rparr>])))"

definition get_all_txs_sorted ::
    "libbitcoin \<Rightarrow> ('j, 'w) ElectrumInterface \<Rightarrow> ('w WalletState \<times> 'w, TransactionInfo list) exec" where
  "get_all_txs_sorted L E =
     bindE (refresh_all_history L E) (\<lambda>_.
     bindE sort_all_history (\<lambda>_.
     bindE (getS (\<lambda>(s, w). all_history s)) (\<lambda>items.
     foldE (collect_tx L E) items [])))"

text \<open>The body of the loop over the combined history in \<^verbatim>\<open>get_all_txs_sorted_bulk\<close>.\<close>

definition collect_tx_bulk ::
    "libbitcoin \<Rightarrow> string list \<Rightarrow> nat \<times> AddressHistoryItem \<Rightarrow> TransactionInfo list \<Rightarrow>
     ('w WalletState \<times> 'w, TransactionInfo list) exec" where
  "collect_tx_bulk L tx_hexes = (\<lambda>(i, item) txs.
     bindE (liftR (vec_at tx_hexes i)) (\<lambda>tx_hex.
     bindE (store_txhex (ahi_txid item) tx_hex) (\<lambda>_.
     bindE (liftR (hex_2_tx L tx_hex)) (\<lambda>tx.
     ret (txs @ [\<lparr>ti_tx = tx, ti_height = ahi_height item, ti_fresh = ahi_fresh item\<rparr>])))))"

definition get_all_txs_sorted_bulk ::
    "libbitcoin \<Rightarrow> ('j, 'w) ElectrumInterface \<Rightarrow> ('w WalletState \<times> 'w, TransactionInfo list) exec" where
  "get_all_txs_sorted_bulk L E =
     bindE (refresh_all_history_bulk L E) (\<lambda>_.
     bindE sort_all_history (\<lambda>_.
     bindE (getS (\<lambda>(s, w). all_history s)) (\<lambda>items.
     bindE (getS (\<lambda>(s, w). progress_callbacks s)) (\<lambda>cbs.
     bindE (on_snd (ei_getTransactionBulk E (map ahi_txid items) cbs)) (\<lambda>tx_hexes.
     foldE (collect_tx_bulk L tx_hexes) (enumerate 0 items) [])))))"

text \<open>The body of the loop of \<^verbatim>\<open>load_txs_bulk\<close>.\<close>

definition load_tx :: "string list \<Rightarrow> nat \<times> string \<Rightarrow> ('w WalletState \<times> 'w, unit) exec" where
  "load_tx hexes = (\<lambda>(i, txid). bindE (liftR (vec_at hexes i)) (\<lambda>h. store_txhex txid h))"

definition load_txs_bulk ::
    "('j, 'w) ElectrumInterface \<Rightarrow> string list \<Rightarrow> ('w WalletState \<times> 'w, unit) exec" where
  "load_txs_bulk E txids =
     bindE (getS (\<lambda>(s, w). progress_callbacks s)) (\<lambda>cbs.
     bindE (on_snd (ei_getTransactionBulk E txids cbs)) (\<lambda>funding_tx_hexes.
     forE (load_tx funding_tx_hexes) (enumerate 0 txids)))"

section \<open>Addresses and subscriptions\<close>

definition spkh_2_address :: "string \<Rightarrow> ('w WalletState \<times> 'w, string) exec" where
  "spkh_2_address spkh = (\<lambda>(s, w). case map_index [] (ws_spkh_2_address s) spkh of
     (a, m) \<Rightarrow> (Inr a, (s\<lparr>ws_spkh_2_address := m\<rparr>, w)))"

definition subscribe_address ::
    "libbitcoin \<Rightarrow> ('j, 'w) ElectrumInterface \<Rightarrow> string \<Rightarrow> ('w WalletState \<times> 'w, unit) exec" where
  "subscribe_address L E address =
     bindE (liftR (base58_to_spkh_hex L address)) (\<lambda>address_spkh.
     on_snd (ei_scripthashSubscribe E address_spkh))"

definition subscribe_address_bulk ::
    "libbitcoin \<Rightarrow> ('j, 'w) ElectrumInterface \<Rightarrow> string list \<Rightarrow> ('w WalletState \<times> 'w, unit) exec" where
  "subscribe_address_bulk L E addresses =
     bindE (liftR (foldR (\<lambda>a acc. bindR (base58_to_spkh_hex L a) (\<lambda>h. Inr (acc @ [h]))) addresses [])) (\<lambda>addresses_spkh.
     on_snd (ei_scripthashSubscribeBulk E addresses_spkh))"

section \<open>Caches, update queues and progress events\<close>

definition clear_caches :: "('w WalletState \<times> 'w, unit) exec" where
  "clear_caches = modifyS (\<lambda>(s, w). (s\<lparr>txid_2_txhex_cache := Map.empty,
     address_2_history_cache := Map.empty, address_2_history_cache_empty := Map.empty,
     all_history := []\<rparr>, w))"

definition clear_caches_for_address :: "string \<Rightarrow> ('w WalletState \<times> 'w, unit) exec" where
  "clear_caches_for_address address = modifyS (\<lambda>(s, w). (s\<lparr>all_history := [],
     address_2_history_cache := (address_2_history_cache s)(address \<mapsto> []),
     address_2_history_cache_empty := (address_2_history_cache_empty s)(address \<mapsto> False)\<rparr>, w))"

text \<open>Taking an update waits for one; without another thread it waits forever.\<close>

definition take_update :: "'a blocking_queue \<Rightarrow> ('a blocking_queue \<Rightarrow> 's) \<Rightarrow> 's \<Rightarrow> 'a result \<times> 's" where
  "take_update q put s = (case bq_pop q of None \<Rightarrow> (Inl NeverReturns, s) | Some (x, q') \<Rightarrow> (Inr x, put q'))"

definition get_history_update :: "('w WalletState \<times> 'w, HistoryViewRow list) exec" where
  "get_history_update = (\<lambda>(s, w). take_update (history_queue s) (\<lambda>q. (s\<lparr>history_queue := q\<rparr>, w)) (s, w))"

definition push_history_update :: "HistoryViewRow list \<Rightarrow> ('w WalletState \<times> 'w, unit) exec" where
  "push_history_update rows = modifyS (\<lambda>(s, w). (s\<lparr>history_queue := bq_push rows (history_queue s)\<rparr>, w))"

definition get_balance_update :: "('w WalletState \<times> 'w, string \<rightharpoonup> u64) exec" where
  "get_balance_update = (\<lambda>(s, w). take_update (balance_queue s) (\<lambda>q. (s\<lparr>balance_queue := q\<rparr>, w)) (s, w))"

definition push_balance_update :: "(string \<rightharpoonup> u64) \<Rightarrow> ('w WalletState \<times> 'w, unit) exec" where
  "push_balance_update m = modifyS (\<lambda>(s, w). (s\<lparr>balance_queue := bq_push m (balance_queue s)\<rparr>, w))"

definition get_historyhash_update :: "('w WalletState \<times> 'w, string \<rightharpoonup> string) exec" where
  "get_historyhash_update =
     (\<lambda>(s, w). take_update (historyhash_queue s) (\<lambda>q. (s\<lparr>historyhash_queue := q\<rparr>, w)) (s, w))"

definition push_historyhash_update :: "(string \<rightharpoonup> string) \<Rightarrow> ('w WalletState \<times> 'w, unit) exec" where
  "push_historyhash_update m =
     modifyS (\<lambda>(s, w). (s\<lparr>historyhash_queue := bq_push m (historyhash_queue s)\<rparr>, w))"

definition subscribe_to_progress_events :: "'w ProgressCallback \<Rightarrow> ('w WalletState \<times> 'w, unit) exec" where
  "subscribe_to_progress_events c =
     modifyS (\<lambda>(s, w). (s\<lparr>progress_callbacks := progress_callbacks s @ [c]\<rparr>, w))"

definition clear_progress_events_subscriptions :: "('w WalletState \<times> 'w, unit) exec" where
  "clear_progress_events_subscriptions = modifyS (\<lambda>(s, w). (s\<lparr>progress_callbacks := []\<rparr>, w))"

section \<open>The set ordered by transaction id\<close>

abbreviation txids :: "AddressHistoryItem list \<Rightarrow> string set" where
  "txids items \<equiv> ahi_txid ` set items"

definition by_txid :: "AddressHistoryItem list \<Rightarrow> bool" where
  "by_txid \<equiv> sorted_wrt (\<lambda>a b. ahi_txid a < ahi_txid b)"

lemma txids_ahi_insert [simp]: "txids (ahi_insert x ys) = insert (ahi_txid x) (txids ys)"
  by (induction x ys rule: ahi_insert.induct) (auto simp: not_less order.antisym)

lemma by_txid_ahi_insert: "by_txid ys \<Longrightarrow> by_txid (ahi_insert x ys)"
proof (induction x ys rule: ahi_insert.induct)
  case (1 x)
  then show ?case by (simp add: by_txid_def)
next
  case (2 x y ys)
  have "ahi_txid y < ahi_txid z" if "ahi_txid y < ahi_txid x" "z \<in> set (ahi_insert x ys)" for z
  proof -
    from that(2) have "ahi_txid z \<in> txids (ahi_insert x ys)" by blast
    then have "ahi_txid z \<in> insert (ahi_txid x) (txids ys)" by (simp only: txids_ahi_insert)
    with that(1) "2.prems" show ?thesis by (auto simp: by_txid_def)
  qed
  with 2 show ?case by (auto simp: by_txid_def)
qed

lemma txids_fold_insert [simp]: "txids (fold ahi_insert xs ys) = txids xs \<union> txids ys"
  by (induction xs arbitrary: ys) auto

lemma by_txid_fold_insert: "by_txid ys \<Longrightarrow> by_txid (fold ahi_insert xs ys)"
  by (induction xs arbitrary: ys) (simp_all add: by_txid_ahi_insert)

lemma by_txid_distinct: "by_txid xs \<Longrightarrow> distinct (map ahi_txid xs)"
  by (induction xs) (auto simp: by_txid_def)

section \<open>Sorting\<close>

lemma mset_insert_before [simp]: "mset (insert_before lt x ys) = add_mset x (mset ys)"
  by (induction ys) simp_all

lemma mset_std_sort [simp]: "mset (std_sort lt xs) = mset xs"
  by (induction xs) (simp_all add: std_sort_def)

lemma sorted_insert_before:
  assumes "transp lt" "\<And>y. y \<in> set ys \<Longrightarrow> lt x y \<or> lt y x" "sorted_wrt lt ys"
  shows "sorted_wrt lt (insert_before lt x ys)"
  using assms(2,3)
proof (induction ys)
  case Nil
  then show ?case by simp
next
  case (Cons y ys)
  have "set (insert_before lt x ys) = insert x (set ys)"
    using mset_insert_before [of lt x ys] by (metis set_mset_add_mset_insert set_mset_mset)
  with Cons assms(1) show ?case by (auto dest: transpD)
qed

lemma sorted_std_sort:
  assumes "transp lt" "\<And>x y. x \<in> set xs \<Longrightarrow> y \<in> set xs \<Longrightarrow> x \<noteq> y \<Longrightarrow> lt x y \<or> lt y x" "distinct xs"
  shows "sorted_wrt lt (std_sort lt xs)"
  using assms(2,3)
proof (induction xs)
  case Nil
  then show ?case by (simp add: std_sort_def)
next
  case (Cons x xs)
  have "set (std_sort lt xs) = set xs" by (metis mset_std_sort set_mset_mset)
  with Cons have "sorted_wrt lt (insert_before lt x (std_sort lt xs))"
    by (intro sorted_insert_before [OF assms(1)]) auto
  then show ?case by (simp add: std_sort_def)
qed

text \<open>For an asymmetric relation there is at most one sorted arrangement.\<close>

lemma sorted_wrt_unique:
  assumes "\<And>x y. lt x y \<Longrightarrow> \<not> lt y x" "sorted_wrt lt xs" "sorted_wrt lt ys" "mset xs = mset ys"
  shows "xs = ys"
  using assms(2-)
proof (induction xs arbitrary: ys)
  case Nil
  then show ?case by simp
next
  case (Cons x xs)
  then obtain y zs where ys: "ys = y # zs" by (cases ys) auto
  have "x = y"
  proof (rule ccontr)
    assume ne: "x \<noteq> y"
    have "set (x # xs) = set (y # zs)" using Cons.prems(3) ys by (metis set_mset_mset)
    with ne have "x \<in> set zs" "y \<in> set xs" by auto
    with Cons.prems ys have "lt x y" "lt y x" by auto
    with assms(1) show False by blast
  qed
  with Cons ys show ?case by simp
qed

lemma distinct_sorted_ids [simp]:
  "distinct (map ahi_txid (std_sort lt xs)) = distinct (map ahi_txid xs)"
  by (rule mset_eq_imp_distinct_iff) simp

lemma history_before_asym: "history_before a b \<Longrightarrow> \<not> history_before b a"
  by (auto simp: history_before_def split: if_splits)

lemma history_before_trans: "transp history_before"
  by (rule transpI) (auto simp: history_before_def split: if_splits)

lemma history_before_total: "ahi_txid a \<noteq> ahi_txid b \<Longrightarrow> history_before a b \<or> history_before b a"
  by (auto simp: history_before_def)

lemma sorted_history:
  assumes "distinct (map ahi_txid xs)"
  shows "sorted_wrt history_before (std_sort history_before xs)"
proof (rule sorted_std_sort [OF history_before_trans])
  fix x y assume "x \<in> set xs" "y \<in> set xs" "x \<noteq> y"
  then have "ahi_txid x \<noteq> ahi_txid y" using assms by (meson distinct_map inj_onD)
  then show "history_before x y \<or> history_before y x" by (rule history_before_total)
qed (use assms in \<open>simp add: distinct_map\<close>)

section \<open>The history caches\<close>

text \<open>What the cache knows of an address; coherence: an address flagged empty has no cached
  entries; settled: \<^verbatim>\<open>get_history\<close> will not ask the server again.\<close>

definition known_history :: "'w WalletState \<Rightarrow> string \<Rightarrow> AddressHistoryItem list" where
  "known_history s a = (case address_2_history_cache s a of None \<Rightarrow> [] | Some h \<Rightarrow> h)"

definition coherent :: "'w WalletState \<Rightarrow> bool" where
  "coherent s \<longleftrightarrow> (\<forall>a. address_2_history_cache_empty s a = Some True \<longrightarrow> known_history s a = [])"

definition settled :: "'w WalletState \<Rightarrow> string \<Rightarrow> bool" where
  "settled s a \<longleftrightarrow> known_history s a \<noteq> [] \<or> address_2_history_cache_empty s a = Some True"

lemma mark_fresh_simps [simp]:
  "mark_fresh b [] = []"
  "map ahi_txid (mark_fresh b h) = map ahi_txid h" "mark_fresh b h = [] \<longleftrightarrow> h = []"
  "mark_fresh b (mark_fresh c h) = mark_fresh b h" "ahi_txid ` set (mark_fresh b h) = txids h"
  by (simp_all add: mark_fresh_def comp_def image_image)

lemmas get_history_defs = get_history_def index_history_empty_def index_history_def store_history_def
  store_history_empty_def bindE_def Let_def

text \<open>The three ways through \<^verbatim>\<open>get_history\<close>.\<close>

lemma get_history_flagged:
  assumes "address_2_history_cache_empty s a = Some True"
  shows "get_history L E a xs (s, w) = (Inr xs, (s, w))"
  using assms by (simp add: get_history_defs map_index_def)

lemma get_history_cached:
  assumes "address_2_history_cache_empty s a \<noteq> Some True" "known_history s a \<noteq> []"
  shows "\<exists>m. get_history L E a xs (s, w) =
    (Inr (xs @ mark_fresh False (known_history s a)),
     (s\<lparr>address_2_history_cache_empty := m\<rparr>, w)) \<and>
    (\<forall>b. m b = Some True \<longleftrightarrow> address_2_history_cache_empty s b = Some True)"
proof -
  from assms(2) obtain h where h: "address_2_history_cache s a = Some h" "h \<noteq> []"
    by (auto simp: known_history_def split: option.splits)
  let ?m = "snd (map_index False (address_2_history_cache_empty s) a)"
  have same: "s\<lparr>address_2_history_cache_empty := address_2_history_cache_empty s\<rparr> = s" by simp
  have "get_history L E a xs (s, w) = (Inr (xs @ mark_fresh False h), (s\<lparr>address_2_history_cache_empty := ?m\<rparr>, w))"
    using assms(1) h
    by (cases "address_2_history_cache_empty s a") (simp_all add: get_history_defs map_index_def same)
  with h(1) show ?thesis
    by (intro exI [where x = ?m]) (simp add: known_history_def)
qed

lemma get_history_fetched:
  assumes "address_2_history_cache_empty s a \<noteq> Some True" "known_history s a = []"
    and "get_history L E a xs (s, w) = (Inr items, (s', w'))"
  shows "\<exists>spkh h. base58_to_spkh_hex L a = Inr spkh \<and> ei_getHistory E spkh w = (Inr h, w') \<and>
    items = xs @ mark_fresh True h \<and>
    known_history s' = (known_history s)(a := items) \<and> ws_addresses s' = ws_addresses s \<and>
    (\<forall>b. address_2_history_cache_empty s' b = Some True \<longleftrightarrow>
       address_2_history_cache_empty s b = Some True \<or> b = a \<and> items = [])"
proof -
  from assms(2) have h: "address_2_history_cache s a = None \<or> address_2_history_cache s a = Some []"
    by (auto simp: known_history_def split: option.splits)
  show ?thesis
    using assms(1,3) h
    by (cases "address_2_history_cache_empty s a"; cases "address_2_history_cache s a")
       (auto simp: get_history_defs map_index_def known_history_def fun_eq_iff
          split: prod.splits sum.splits if_splits)
qed

lemma get_history_spec:
  assumes "get_history L E a [] (s, w) = (Inr items, (s', w'))" "coherent s"
  shows "coherent s' \<and> settled s' a \<and> map ahi_txid items = map ahi_txid (known_history s' a) \<and>
    ws_addresses s' = ws_addresses s \<and>
    (\<forall>b. settled s b \<longrightarrow> settled s' b \<and> known_history s' b = known_history s b)"
proof (cases "address_2_history_cache_empty s a = Some True")
  case True
  with assms show ?thesis by (auto simp: get_history_flagged settled_def coherent_def)
next
  case False
  show ?thesis
  proof (cases "known_history s a = []")
    case True
    from get_history_fetched [OF False True assms(1)] obtain h where
      s': "known_history s' = (known_history s)(a := items)" "ws_addresses s' = ws_addresses s"
      "\<And>b. address_2_history_cache_empty s' b = Some True \<longleftrightarrow>
         address_2_history_cache_empty s b = Some True \<or> b = a \<and> items = []" by blast
    with assms(2) False True show ?thesis by (auto simp: coherent_def settled_def)
  next
    case cached: False
    from get_history_cached [OF False cached, of L E "[]" w] assms(1) obtain m where
      m: "items = mark_fresh False (known_history s a)" "s' = s\<lparr>address_2_history_cache_empty := m\<rparr>"
      "\<And>b. m b = Some True \<longleftrightarrow> address_2_history_cache_empty s b = Some True" by auto
    have "known_history s' = known_history s" using m(2) by (simp add: known_history_def fun_eq_iff)
    with m cached assms(2) show ?thesis by (auto simp: coherent_def settled_def)
  qed
qed

lemma get_history_same_entries:
  assumes "get_history L E a [] (s, w) = (Inr items, (s', w'))" "coherent s"
  shows "mark_fresh False items = mark_fresh False (known_history s' a)"
proof (cases "address_2_history_cache_empty s a = Some True")
  case True
  with assms show ?thesis by (auto simp: get_history_flagged coherent_def)
next
  case False
  show ?thesis
  proof (cases "known_history s a = []")
    case True
    from get_history_fetched [OF False True assms(1)] show ?thesis by auto
  next
    case cached: False
    from get_history_cached [OF False cached, of L E "[]" w] assms(1) show ?thesis
      by (auto simp: known_history_def)
  qed
qed

section \<open>Refreshing the combined history\<close>

lemma refresh_step_Inr:
  "refresh_step L E a acc s = (Inr acc1, s1) \<longleftrightarrow>
     (\<exists>items. get_history L E a [] s = (Inr items, s1) \<and> acc1 = fold ahi_insert items acc)"
  by (cases s1) (auto simp: refresh_step_def exec_simps)

lemma refresh_loop:
  assumes "foldE (refresh_step L E) as acc (s, w) = (Inr acc', (s', w'))"
    and "coherent s"
  shows "coherent s' \<and> (\<forall>a \<in> set as. settled s' a) \<and> ws_addresses s' = ws_addresses s \<and>
    (\<forall>b. settled s b \<longrightarrow> settled s' b \<and> known_history s' b = known_history s b) \<and>
    txids acc' = txids acc \<union> (\<Union>a \<in> set as. txids (known_history s' a)) \<and> (by_txid acc \<longrightarrow> by_txid acc')"
  using assms
proof (induction as arbitrary: acc s w)
  case Nil
  then show ?case by simp
next
  case (Cons a as)
  from Cons.prems(1) obtain items s1 w1 where
    get: "get_history L E a [] (s, w) = (Inr items, (s1, w1))" and
    rest: "foldE (refresh_step L E) as (fold ahi_insert items acc) (s1, w1) = (Inr acc', (s', w'))"
    by (auto simp: exec_simps refresh_step_Inr)
  from get_history_spec [OF get Cons.prems(2)] have
    one: "coherent s1" "settled s1 a" "map ahi_txid items = map ahi_txid (known_history s1 a)"
    "ws_addresses s1 = ws_addresses s"
    "\<And>b. settled s b \<Longrightarrow> settled s1 b \<and> known_history s1 b = known_history s b" by auto
  from Cons.IH [OF rest one(1)] have
    ih: "coherent s'" "\<forall>a \<in> set as. settled s' a" "ws_addresses s' = ws_addresses s1"
    "\<And>b. settled s1 b \<Longrightarrow> settled s' b \<and> known_history s' b = known_history s1 b"
    "txids acc' = txids (fold ahi_insert items acc) \<union> (\<Union>a \<in> set as. txids (known_history s' a))"
    "by_txid (fold ahi_insert items acc) \<Longrightarrow> by_txid acc'" by auto
  have "txids items = txids (known_history s' a)"
    using one(2,3) ih(4) by (metis list.set_map)
  with one ih show ?case by (auto intro: by_txid_fold_insert)
qed

lemma refresh_all_history_spec:
  assumes "refresh_all_history L E (s, w) = (Inr u, (s', w'))" "coherent s"
  shows "coherent s' \<and> ws_addresses s' = ws_addresses s \<and> by_txid (all_history s') \<and>
    txids (all_history s') = (\<Union>a \<in> set (ws_addresses s'). txids (known_history s' a)) \<and>
    (\<forall>a \<in> set (ws_addresses s'). settled s' a)"
proof -
  from assms(1) obtain acc s1 w1 where
    loop: "foldE (refresh_step L E) (ws_addresses s) [] (s, w) = (Inr acc, (s1, w1))"
    and s': "s' = s1\<lparr>all_history := acc\<rparr>" "w' = w1"
    by (auto simp: refresh_all_history_def set_all_history_def exec_simps)
  from refresh_loop [OF loop assms(2)] s' show ?thesis
    by (auto simp: by_txid_def known_history_def coherent_def settled_def)
qed

section \<open>The transaction cache\<close>

definition known_txhex :: "'w WalletState \<Rightarrow> string \<Rightarrow> string" where
  "known_txhex s txid = (case txid_2_txhex_cache s txid of None \<Rightarrow> [] | Some h \<Rightarrow> h)"

text \<open>The parts of the object a transaction lookup leaves alone.\<close>

definition same_histories :: "'w WalletState \<Rightarrow> 'w WalletState \<Rightarrow> bool" where
  "same_histories s s' \<longleftrightarrow> (\<exists>m. s' = s\<lparr>txid_2_txhex_cache := m\<rparr>)"

lemma same_histories_refl: "same_histories s s"
  unfolding same_histories_def by (intro exI [where x = "txid_2_txhex_cache s"]) simp

lemma same_histories_trans: "same_histories s t \<Longrightarrow> same_histories t u \<Longrightarrow> same_histories s u"
  by (auto simp: same_histories_def)

lemma same_histories_simps:
  "same_histories s s' \<Longrightarrow> all_history s' = all_history s"
  "same_histories s s' \<Longrightarrow> ws_addresses s' = ws_addresses s"
  "same_histories s s' \<Longrightarrow> known_history s' = known_history s"
  "same_histories s s' \<Longrightarrow> coherent s' = coherent s"
  by (auto simp: same_histories_def known_history_def coherent_def fun_eq_iff)

lemma get_transaction_cached:
  assumes "known_txhex s txid \<noteq> []"
  shows "get_transaction L E txid (s, w) = (hex_2_tx L (known_txhex s txid), (s, w))"
  using assms
  by (cases "txid_2_txhex_cache s txid")
     (auto simp: get_transaction_def index_txhex_def map_index_def known_txhex_def bindE_def split: sum.splits)

lemma get_transaction_fetched:
  assumes "known_txhex s txid = []" "get_transaction L E txid (s, w) = (r, (s', w'))"
    and "ei_getTransaction E txid w = (Inr h, w1)"
  shows "r = hex_2_tx L h \<and> w' = w1 \<and> s' = s\<lparr>txid_2_txhex_cache := (txid_2_txhex_cache s)(txid \<mapsto> h)\<rparr>"
  using assms
  by (cases "txid_2_txhex_cache s txid")
     (auto simp: get_transaction_def index_txhex_def store_txhex_def map_index_def known_txhex_def bindE_def
        split: sum.splits)

lemma get_transaction_spec:
  assumes "get_transaction L E txid (s, w) = (Inr tx, (s', w'))"
  shows "hex_2_tx L (known_txhex s' txid) = Inr tx \<and> same_histories s s' \<and>
    (\<forall>u. known_txhex s u \<noteq> [] \<longrightarrow> known_txhex s' u = known_txhex s u)"
proof (cases "known_txhex s txid = []")
  case True
  obtain r w1 where call: "ei_getTransaction E txid w = (r, w1)" by fastforce
  show ?thesis
  proof (cases r)
    case (Inl e)
    with assms True call show ?thesis
      by (cases "txid_2_txhex_cache s txid")
         (auto simp: get_transaction_def index_txhex_def map_index_def known_txhex_def bindE_def)
  next
    case (Inr h)
    from get_transaction_fetched [OF True assms call [unfolded Inr]] True show ?thesis
      by (auto simp: same_histories_def known_txhex_def)
  qed
next
  case False
  with assms show ?thesis by (auto simp: get_transaction_cached same_histories_refl)
qed

lemma collect_tx_Inr:
  "collect_tx L E item txs s = (Inr txs', s') \<longleftrightarrow> ahi_txid item \<noteq> [] \<and>
     (\<exists>tx. get_transaction L E (ahi_txid item) s = (Inr tx, s') \<and>
       txs' = txs @ [\<lparr>ti_tx = tx, ti_height = ahi_height item, ti_fresh = ahi_fresh item\<rparr>])"
  by (cases s') (auto simp: collect_tx_def exec_simps)

text \<open>One entry of the result against the item it was made from.\<close>

definition tx_of_item :: "libbitcoin \<Rightarrow> 'w WalletState \<Rightarrow> AddressHistoryItem \<Rightarrow> TransactionInfo \<Rightarrow> bool" where
  "tx_of_item L s item ti \<longleftrightarrow> ti_height ti = ahi_height item \<and> ti_fresh ti = ahi_fresh item \<and>
     hex_2_tx L (known_txhex s (ahi_txid item)) = Inr (ti_tx ti)"

lemma collect_txs_loop:
  assumes "foldE (collect_tx L E) items txs (s, w) = (Inr txs', (s', w'))" "hex_2_tx L [] = Inl e"
  shows "\<exists>new. txs' = txs @ new \<and> list_all2 (tx_of_item L s') items new \<and> same_histories s s' \<and>
    (\<forall>u. known_txhex s u \<noteq> [] \<longrightarrow> known_txhex s' u = known_txhex s u)"
  using assms(1)
proof (induction items arbitrary: txs s w)
  case Nil
  then show ?case by (simp add: same_histories_refl)
next
  case (Cons item items)
  from Cons.prems obtain tx s1 w1 where
    get: "get_transaction L E (ahi_txid item) (s, w) = (Inr tx, (s1, w1))" and
    rest: "foldE (collect_tx L E) items
      (txs @ [\<lparr>ti_tx = tx, ti_height = ahi_height item, ti_fresh = ahi_fresh item\<rparr>]) (s1, w1)
      = (Inr txs', (s', w'))"
    by (auto simp: exec_simps collect_tx_Inr)
  from get_transaction_spec [OF get] assms(2) have
    one: "hex_2_tx L (known_txhex s1 (ahi_txid item)) = Inr tx" "same_histories s s1"
    "\<forall>u. known_txhex s u \<noteq> [] \<longrightarrow> known_txhex s1 u = known_txhex s u"
    "known_txhex s1 (ahi_txid item) \<noteq> []" by auto
  from Cons.IH [OF rest] obtain new where
    ih: "txs' = (txs @ [\<lparr>ti_tx = tx, ti_height = ahi_height item, ti_fresh = ahi_fresh item\<rparr>]) @ new"
    "list_all2 (tx_of_item L s') items new" "same_histories s1 s'"
    "\<forall>u. known_txhex s1 u \<noteq> [] \<longrightarrow> known_txhex s' u = known_txhex s1 u" by blast
  have "tx_of_item L s' item \<lparr>ti_tx = tx, ti_height = ahi_height item, ti_fresh = ahi_fresh item\<rparr>"
    using one(1,4) ih(4) by (simp add: tx_of_item_def)
  with one ih show ?case
    by (intro exI [where x = "\<lparr>ti_tx = tx, ti_height = ahi_height item, ti_fresh = ahi_fresh item\<rparr> # new"])
       (auto intro: same_histories_trans)
qed

lemma get_all_txs_sorted_spec:
  assumes "get_all_txs_sorted L E (s, w) = (Inr txs, (s', w'))" "hex_2_tx L [] = Inl e" "coherent s"
  shows "list_all2 (tx_of_item L s') (all_history s') txs \<and> sorted_wrt history_before (all_history s') \<and>
    distinct (map ahi_txid (all_history s')) \<and> ws_addresses s' = ws_addresses s \<and> coherent s' \<and>
    txids (all_history s') = (\<Union>a \<in> set (ws_addresses s'). txids (known_history s' a))"
proof -
  from assms(1) obtain u s1 w1 where
    ref: "refresh_all_history L E (s, w) = (Inr u, (s1, w1))" and
    loop: "foldE (collect_tx L E) (std_sort history_before (all_history s1)) []
      (s1\<lparr>all_history := std_sort history_before (all_history s1)\<rparr>, w1) = (Inr txs, (s', w'))"
    by (auto simp: get_all_txs_sorted_def sort_all_history_def exec_simps)
  let ?sorted = "std_sort history_before (all_history s1)"
  let ?s2 = "s1\<lparr>all_history := ?sorted\<rparr>"
  from refresh_all_history_spec [OF ref assms(3)] have
    r: "coherent s1" "ws_addresses s1 = ws_addresses s" "by_txid (all_history s1)"
    "txids (all_history s1) = (\<Union>a \<in> set (ws_addresses s1). txids (known_history s1 a))" by auto
  from collect_txs_loop [OF loop assms(2)] have
    l: "list_all2 (tx_of_item L s') ?sorted txs" "same_histories ?s2 s'" by auto
  have set: "set ?sorted = set (all_history s1)" by (metis mset_std_sort set_mset_mset)
  have "distinct (map ahi_txid ?sorted)" using by_txid_distinct [OF r(3)] by simp
  moreover have "sorted_wrt history_before ?sorted"
    using by_txid_distinct [OF r(3)] by (rule sorted_history)
  moreover have "known_history ?s2 = known_history s1" "coherent ?s2 = coherent s1"
    by (simp_all add: known_history_def coherent_def fun_eq_iff)
  ultimately show ?thesis
    using l r same_histories_simps [OF l(2)] set by simp
qed

section \<open>Operations keep the caches coherent\<close>

lemma keeps_index_txhex: "keeps (\<lambda>(s, w). coherent s) (index_txhex txid)"
  by (auto simp: keeps_def index_txhex_def coherent_def known_history_def split: prod.splits)

lemma keeps_store_txhex: "keeps (\<lambda>(s, w). coherent s) (store_txhex txid h)"
  by (auto simp: keeps_def store_txhex_def coherent_def known_history_def)

lemma keeps_load_tx: "keeps (\<lambda>(s, w). coherent s) (load_tx hexes p)"
proof (cases p)
  case (Pair i txid)
  show ?thesis unfolding Pair load_tx_def prod.case by (intro exec_inv keeps_store_txhex)
qed

lemma keeps_set_all_history: "keeps (\<lambda>(s, w). coherent s) (set_all_history items)"
  by (auto simp: keeps_def set_all_history_def coherent_def known_history_def)

lemma keeps_sort_all_history: "keeps (\<lambda>(s, w). coherent s) sort_all_history"
  by (auto simp: keeps_def sort_all_history_def coherent_def known_history_def)

lemma keeps_get_transaction: "keeps (\<lambda>(s, w). coherent s) (get_transaction L E txid)"
  unfolding get_transaction_def by (intro exec_inv keeps_index_txhex keeps_store_txhex) simp_all

lemma keeps_get_history: "keeps (\<lambda>(s, w). coherent s) (get_history L E a items)"
proof (rule keepsI)
  fix p :: "'a WalletState \<times> 'a"
  obtain s w where p: "p = (s, w)" by fastforce
  assume "case p of (s, w) \<Rightarrow> coherent s"
  with p have coh: "coherent s" by simp
  show "case snd (get_history L E a items p) of (s, w) \<Rightarrow> coherent s"
  proof (cases "address_2_history_cache_empty s a = Some True")
    case True
    with p coh show ?thesis by (simp add: get_history_flagged)
  next
    case False
    with p coh show ?thesis
      by (cases "address_2_history_cache_empty s a"; cases "address_2_history_cache s a")
         (auto simp: get_history_defs map_index_def coherent_def known_history_def split: prod.splits sum.splits)
  qed
qed

section \<open>The bulk operations\<close>

text \<open>What the loops over indices do when the replies are complete.\<close>

lemma load_tx_eval:
  "n < length hexes \<Longrightarrow> load_tx hexes (n, t) (s, w) =
     (Inr (), (s\<lparr>txid_2_txhex_cache := (txid_2_txhex_cache s)(t \<mapsto> hexes ! n)\<rparr>, w))"
  by (simp add: load_tx_def store_txhex_def bindE_def)

lemma load_txs_loop:
  assumes "n + length ts = length hexes"
  shows "forE (load_tx hexes) (enumerate n ts) (s, w) =
    (Inr (), (s\<lparr>txid_2_txhex_cache := (txid_2_txhex_cache s)(ts [\<mapsto>] drop n hexes)\<rparr>, w))"
  using assms
proof (induction ts arbitrary: n s)
  case Nil
  then show ?case by simp
next
  case (Cons t ts)
  then have n: "n < length hexes" by simp
  then have "drop n hexes = hexes ! n # drop (Suc n) hexes" by (rule Cons_nth_drop_Suc [symmetric])
  with Cons n show ?case
    by (simp add: bindE_def load_tx_eval map_upds_Cons del: fun_upd_apply)
qed

text \<open>
  Over a service that keeps the bulk contract, every transaction asked for is cached under its
  own id.
\<close>

lemma load_txs_bulk_cached:
  assumes "bulk_service (ei_getHistoryBulk E) (ei_getTransactionBulk E)" "distinct ids"
    and "ei_getTransactionBulk E ids (progress_callbacks s) w = (Inr hexes, w')"
  shows "\<exists>s'. load_txs_bulk E ids (s, w) = (Inr (), (s', w')) \<and> same_histories s s' \<and>
    (\<forall>i < length ids. known_txhex s' (ids ! i) = hexes ! i) \<and>
    (\<forall>u. u \<notin> set ids \<longrightarrow> known_txhex s' u = known_txhex s u)"
proof -
  have len: "length hexes = length ids"
    by (rule bulk_service.transaction_bulk_complete [OF assms(1,3)])
  let ?s' = "s\<lparr>txid_2_txhex_cache := (txid_2_txhex_cache s)(ids [\<mapsto>] hexes)\<rparr>"
  have "forE (load_tx hexes) (enumerate 0 ids) (s, w') = (Inr (), (?s', w'))"
    using load_txs_loop [of 0 ids hexes s w'] len by simp
  with assms(3) have "load_txs_bulk E ids (s, w) = (Inr (), (?s', w'))"
    by (simp add: load_txs_bulk_def bindE_def)
  moreover have "known_txhex ?s' (ids ! i) = hexes ! i" if "i < length ids" for i
    using map_upds_nth [OF assms(2) len [symmetric] that] by (simp add: known_txhex_def)
  moreover have "known_txhex ?s' u = known_txhex s u" if "u \<notin> set ids" for u
    using that by (simp add: known_txhex_def map_upds_apply_nontin)
  ultimately show ?thesis
    by (intro exI [where x = ?s']) (auto simp: same_histories_def)
qed

section \<open>Properties\<close>

text \<open>
  C19. The list of all transactions of the wallet, when its caches are coherent (no address is marked
  empty while history entries are cached for it; otherwise known histories are missing, C38): the
  call succeeds only with one entry per
  transaction that occurs in the history of some address (none twice, none missing), in
  display order -- unconfirmed first, then by falling height, ties by falling id -- each entry
  carrying the height and the freshness of its item and the transaction decoded from the
  cached text.
\<close>

theorem all_txs_sorted_complete:
  assumes "get_all_txs_sorted L E (s, w) = (Inr txs, (s', w'))" "hex_2_tx L [] = Inl e" "coherent s"
  shows "list_all2 (tx_of_item L s') (all_history s') txs \<and> sorted_wrt history_before (all_history s') \<and>
    distinct (map ahi_txid (all_history s')) \<and>
    txids (all_history s') = (\<Union>a \<in> set (ws_addresses s). txids (known_history s' a))"
  using get_all_txs_sorted_spec [OF assms] by auto

definition sample_wallet :: "unit WalletState" where
  "sample_wallet = \<lparr>ws_addresses = [''A'', ''B''],
     ws_spkh_2_address = Map.empty, txid_2_txhex_cache = Map.empty, address_2_history_cache = Map.empty,
     address_2_history_cache_empty = Map.empty, all_history = [], ws_address_to_data = Map.empty,
     history_queue = [], balance_queue = [], historyhash_queue = [], progress_callbacks = []\<rparr>"

text \<open>A server that knows two transactions of every address, and a library that decodes
  every nonempty text to the same transaction.\<close>

definition sample_server :: "(unit, unit) ElectrumInterface" where
  "sample_server =
    \<lparr>ei_scripthashSubscribe = (\<lambda>_. ret ()), ei_scripthashSubscribeBulk = (\<lambda>_. ret ()),
     ei_getHistory = (\<lambda>_. ret [\<lparr>ahi_txid = ''a'', ahi_height = 5, ahi_fresh = False\<rparr>,
       \<lparr>ahi_txid = ''b'', ahi_height = 0, ahi_fresh = False\<rparr>]),
     ei_getHistoryBulk = (\<lambda>as _. ret (map (\<lambda>_. [\<lparr>ahi_txid = ''c'', ahi_height = 7, ahi_fresh = False\<rparr>]) as)),
     ei_getTransaction = ret, ei_getTransactionBulk = (\<lambda>ts _. ret ts),
     ei_getBalance = (\<lambda>_. ret \<lparr>confirmed = 0, unconfirmed = 0\<rparr>), ei_getBlockHeader = (\<lambda>_. ret []),
     ei_getUtxos = (\<lambda>_. ret []), ei_getServerPeers = ret [], ei_estimateFee = (\<lambda>_. ret 1),
     ei_broadcastTransaction = ret, ei_ping = ret (), ei_getVersion = (\<lambda>c vs. ret vs),
     ei_get_subscription_event = ret \<lparr>msg_json = (), msg_method = [], has_correlation_id = False,
        correlation_id = 0, msg_params = []\<rparr>,
     ei_do_interrupt = ret (), ei_stop = ret (),
     ei_subscribe_to_error_events = (\<lambda>_. ret ()), ei_clear_error_events_subscriptions = ret ()\<rparr>"

definition sample_tx_lib :: libbitcoin where
  "sample_tx_lib = sample_libbitcoin\<lparr>lb_decode_base58 := \<lambda>_. Some (replicate 25 0),
     lb_encode_base16 := \<lambda>_. [], lb_decode_base16 := \<lambda>s. Some (map (\<lambda>_. 0) s), lb_tx_from_data := \<lambda>d. if d = [] then None else
     Some \<lparr>tx_version = 1, tx_locktime = 0, tx_inputs = [], tx_outputs = []\<rparr>\<rparr>"

lemma sample_tx_lib_empty: "hex_2_tx sample_tx_lib [] = Inl (InvalidArgument ''could not decode transaction'')"
  by (simp add: hex_2_tx_def sample_tx_lib_def sample_lb)

lemma sample_wallet_coherent: "coherent sample_wallet"
  by (simp add: coherent_def sample_wallet_def)

theorem all_txs_sorted_complete_witness:
  "\<exists>txs s'. get_all_txs_sorted sample_tx_lib sample_server (sample_wallet, ()) = (Inr txs, (s', ())) \<and>
     map ahi_txid (all_history s') = [''b'', ''a''] \<and> length txs = 2 \<and>
     list_all2 (tx_of_item sample_tx_lib s') (all_history s') txs"
proof -
  let ?r = "get_all_txs_sorted sample_tx_lib sample_server (sample_wallet, ())"
  have eval: "(case ?r of (x, (s', w)) \<Rightarrow> (map_sum (\<lambda>_. ()) length x, map ahi_txid (all_history s'))) =
      (Inr 2, [''b'', ''a''])"
    by code_simp
  moreover obtain x s' where r: "?r = (x, (s', ()))" by (metis prod.collapse unit.exhaust)
  ultimately obtain txs where "x = Inr txs" "length txs = 2" "map ahi_txid (all_history s') = [''b'', ''a'']"
    by (cases x) auto
  with all_txs_sorted_complete [OF _ sample_tx_lib_empty sample_wallet_coherent, of sample_server "()" txs s' "()"] r
  show ?thesis by auto
qed

text \<open>
  \<^verbatim>\<open>sort_all_history\<close> determines the order completely: since the ids of the combined
  history are distinct, the result is the one arrangement of the items in display order,
  whichever algorithm \<^verbatim>\<open>std::sort\<close> uses.
\<close>

theorem sort_history_unique:
  assumes "distinct (map ahi_txid (all_history s))" "sort_all_history (s, w) = (Inr (), (s', w'))"
    and "mset items = mset (all_history s)" "sorted_wrt history_before items"
  shows "all_history s' = items"
proof (rule sorted_wrt_unique [of history_before])
  have s': "all_history s' = std_sort history_before (all_history s)"
    using assms(2) by (auto simp: sort_all_history_def)
  show "sorted_wrt history_before (all_history s')" unfolding s' by (rule sorted_history [OF assms(1)])
  show "mset (all_history s') = mset items" using assms(3) s' by simp
qed (use assms(4) in \<open>auto dest: history_before_asym\<close>)

theorem sort_history_unique_witness:
  "all_history (fst (snd (sort_all_history (sample_wallet\<lparr>all_history :=
     [\<lparr>ahi_txid = ''a'', ahi_height = 5, ahi_fresh = True\<rparr>, \<lparr>ahi_txid = ''b'', ahi_height = 0, ahi_fresh = True\<rparr>,
      \<lparr>ahi_txid = ''c'', ahi_height = -1, ahi_fresh = True\<rparr>]\<rparr>, ())))) =
   [\<lparr>ahi_txid = ''b'', ahi_height = 0, ahi_fresh = True\<rparr>, \<lparr>ahi_txid = ''a'', ahi_height = 5, ahi_fresh = True\<rparr>,
    \<lparr>ahi_txid = ''c'', ahi_height = -1, ahi_fresh = True\<rparr>]"
  by (rule sort_history_unique [where s = "sample_wallet\<lparr>all_history :=
       [\<lparr>ahi_txid = ''a'', ahi_height = 5, ahi_fresh = True\<rparr>, \<lparr>ahi_txid = ''b'', ahi_height = 0, ahi_fresh = True\<rparr>,
        \<lparr>ahi_txid = ''c'', ahi_height = -1, ahi_fresh = True\<rparr>]\<rparr>" and w = "()" and w' = "()"])
     (simp_all add: sort_all_history_def history_before_def)

text \<open>
  The caches answer: once an address has been asked for, asking again gives the same
  entries, now marked as not fresh, without a further request to the server; and a transaction
  that has been looked up is decoded from the cache.
\<close>

theorem second_lookup_is_local:
  assumes "get_history L E a [] (s, w) = (Inr items, (s1, w1))" "coherent s"
    and "get_transaction L E txid (t, v) = (Inr tx, (t1, v1))" "hex_2_tx L [] = Inl e"
  shows "(\<exists>s2. get_history L E' a [] (s1, w1) = (Inr (mark_fresh False items), (s2, w1))) \<and>
    get_transaction L E' txid (t1, v1) = (Inr tx, (t1, v1))"
proof -
  from get_history_spec [OF assms(1,2)] have
    sp: "coherent s1" "settled s1 a" "map ahi_txid items = map ahi_txid (known_history s1 a)" by auto
  have "\<exists>s2. get_history L E' a [] (s1, w1) = (Inr (mark_fresh False items), (s2, w1))"
  proof (cases "address_2_history_cache_empty s1 a = Some True")
    case True
    with sp have "items = []" by (auto simp: coherent_def)
    with True show ?thesis by (simp add: get_history_flagged)
  next
    case False
    with sp(2) have ne: "known_history s1 a \<noteq> []" by (simp add: settled_def)
    have "mark_fresh False items = mark_fresh False (known_history s1 a)"
      by (rule get_history_same_entries [OF assms(1,2)])
    with get_history_cached [OF False ne, of L E' "[]" w1] show ?thesis by auto
  qed
  moreover from get_transaction_spec [OF assms(3)] assms(4) have
    "hex_2_tx L (known_txhex t1 txid) = Inr tx" "known_txhex t1 txid \<noteq> []" by auto
  ultimately show ?thesis by (simp add: get_transaction_cached)
qed

theorem second_lookup_is_local_witness:
  "\<exists>s1 t1 tx. get_history sample_tx_lib sample_server ''A'' [] (sample_wallet, ()) =
      (Inr [\<lparr>ahi_txid = ''a'', ahi_height = 5, ahi_fresh = True\<rparr>, \<lparr>ahi_txid = ''b'', ahi_height = 0, ahi_fresh = True\<rparr>], (s1, ())) \<and>
    get_transaction sample_tx_lib sample_server ''a'' (sample_wallet, ()) = (Inr tx, (t1, ())) \<and>
    get_transaction sample_tx_lib sample_server ''a'' (t1, ()) = (Inr tx, (t1, ()))"
proof -
  obtain s1 where h: "get_history sample_tx_lib sample_server ''A'' [] (sample_wallet, ()) =
      (Inr [\<lparr>ahi_txid = ''a'', ahi_height = 5, ahi_fresh = True\<rparr>, \<lparr>ahi_txid = ''b'', ahi_height = 0, ahi_fresh = True\<rparr>], (s1, ()))"
    by (simp add: get_history_defs map_index_def sample_wallet_def sample_server_def sample_tx_lib_def
        base58_to_spkh_hex_def mark_fresh_def sample_lb)
  obtain tx t1 where t: "get_transaction sample_tx_lib sample_server ''a'' (sample_wallet, ()) = (Inr tx, (t1, ()))"
    by (simp add: get_transaction_def index_txhex_def store_txhex_def bindE_def map_index_def sample_wallet_def
        sample_server_def hex_2_tx_def sample_tx_lib_def)
  from second_lookup_is_local [OF h sample_wallet_coherent t sample_tx_lib_empty] h t show ?thesis by blast
qed

text \<open>
  C20. All operations but the bulk refresh (C38) keep the history caches coherent, however they end: no
  address is ever marked as empty while entries are cached for it, also when a lookup fails half-way.
\<close>

theorem operations_keep_coherence:
  "keeps (\<lambda>(s, w). coherent s) (get_transaction L E txid) \<and>
   keeps (\<lambda>(s, w). coherent s) (get_history L E a items) \<and>
   keeps (\<lambda>(s, w). coherent s) (get_all_txs_sorted L E) \<and>
   keeps (\<lambda>(s, w). coherent s) (load_txs_bulk E ids) \<and>
   keeps (\<lambda>(s, w). coherent s) clear_caches \<and>
   keeps (\<lambda>(s, w). coherent s) (clear_caches_for_address a)"
proof (intro conjI)
  show "keeps (\<lambda>(s, w). coherent s) (get_all_txs_sorted L E)"
    unfolding get_all_txs_sorted_def refresh_all_history_def collect_tx_def refresh_step_def
    by (intro exec_inv keeps_get_history keeps_get_transaction keeps_set_all_history keeps_sort_all_history)
  show "keeps (\<lambda>(s, w). coherent s) (load_txs_bulk E ids)"
    unfolding load_txs_bulk_def by (intro exec_inv keeps_load_tx) simp_all
  show "keeps (\<lambda>(s, w). coherent s) clear_caches"
    by (auto simp: keeps_def clear_caches_def coherent_def)
  show "keeps (\<lambda>(s, w). coherent s) (clear_caches_for_address a)"
    by (auto simp: keeps_def clear_caches_for_address_def coherent_def known_history_def)
qed (rule keeps_get_transaction keeps_get_history)+

text \<open>
  C38. (For a wallet of one address.) A bulk refresh does not clear the mark of an address that was seen empty before: the
  history it fetches enters the cache and the combined history, but \<^verbatim>\<open>get_history\<close> goes on
  answering that the address has none, so balances computed from it stay at zero.
\<close>

theorem bulk_refresh_hides_history:
  assumes "ws_addresses s = [a]" "progress_callbacks s = []" "address_2_history_cache_empty s a = Some True"
    and "base58_to_spkh_hex L a = Inr spkh" "ei_getHistoryBulk E [spkh] [] w = (Inr [h], w')" "h \<noteq> []"
  shows "\<exists>s'. refresh_all_history_bulk L E (s, w) = (Inr (), (s', w')) \<and>
    known_history s' a = h \<and> txids (all_history s') = txids h \<and> \<not> coherent s' \<and>
    get_history L E a [] (s', w') = (Inr [], (s', w'))"
proof -
  let ?s' = "s\<lparr>address_2_history_cache := (address_2_history_cache s)(a \<mapsto> h),
    all_history := fold ahi_insert h []\<rparr>"
  have "refresh_all_history_bulk L E (s, w) = (Inr (), (?s', w'))"
    using assms by (simp add: refresh_all_history_bulk_def push_progress_event_def bindE_def
        bulk_refresh_step_def store_history_def set_all_history_def)
  moreover have "known_history ?s' a = h" by (simp add: known_history_def)
  ultimately show ?thesis
    using assms(3,6) get_history_flagged [of ?s' a L E "[]" w']
    by (intro exI [where x = ?s']) (auto simp: coherent_def)
qed

theorem bulk_refresh_hides_history_witness:
  "\<exists>s'. refresh_all_history_bulk sample_tx_lib sample_server
      (sample_wallet\<lparr>ws_addresses := [''A''], address_2_history_cache_empty := [''A'' \<mapsto> True]\<rparr>, ()) = (Inr (), (s', ())) \<and>
     get_history sample_tx_lib sample_server ''A'' [] (s', ()) = (Inr [], (s', ()))"
proof -
  let ?s = "sample_wallet\<lparr>ws_addresses := [''A''], address_2_history_cache_empty := [''A'' \<mapsto> True]\<rparr>"
  obtain spkh where spkh: "base58_to_spkh_hex sample_tx_lib ''A'' = Inr spkh"
    by (simp add: base58_to_spkh_hex_def sample_tx_lib_def)
  have "ei_getHistoryBulk sample_server [spkh] [] () = (Inr [[\<lparr>ahi_txid = ''c'', ahi_height = 7, ahi_fresh = False\<rparr>]], ())"
    by (simp add: sample_server_def)
  from bulk_refresh_hides_history [of ?s, OF _ _ _ spkh this] show ?thesis
    by (auto simp: sample_wallet_def)
qed

end
