(* ===== verification/WalletLife.thy ===== *)
theory WalletLife
  imports WalletState
begin

text \<open>
  The life of a \<^verbatim>\<open>WalletState\<close> object: the states its operations can reach, and what holds of
  them whatever the clients answer.
\<close>

section \<open>Reachable states\<close>

text \<open>
  \<^verbatim>\<open>get_addresses\<close> and \<^verbatim>\<open>get_address_to_data\<close> return references to the members, through which a caller
  may assign anything.
\<close>

definition assign_addresses :: "string list \<Rightarrow> 'w WalletState \<Rightarrow> 'w WalletState" where
  "assign_addresses written s = s\<lparr>ws_addresses := written\<rparr>"

definition assign_address_to_data :: "(string \<rightharpoonup> AddressDerivationResult) \<Rightarrow> 'w WalletState \<Rightarrow> 'w WalletState" where
  "assign_address_to_data data s = s\<lparr>ws_address_to_data := data\<rparr>"

text \<open>
  The object is constructed for a list of addresses; then the operations are called with the
  client \<^verbatim>\<open>E\<close> in any order and end in any way, and callers write through the references; between the
  calls the world changes freely, and so do the queues of updates and the listeners. \<^verbatim>\<open>addresses\<close> is the
  list the object was made with, \<^verbatim>\<open>current\<close> the one last written.
\<close>

inductive wallet_reachable ::
    "libbitcoin \<Rightarrow> ('j, 'w) ElectrumInterface \<Rightarrow> string list \<Rightarrow> string list \<Rightarrow> 'w WalletState \<times> 'w \<Rightarrow> bool"
  for L E addresses where
  new: "WalletState_new L addresses data = Inr s \<Longrightarrow> wallet_reachable L E addresses addresses (s, w)"
| world: "wallet_reachable L E addresses current (s, w) \<Longrightarrow> wallet_reachable L E addresses current (s, w')"
| transaction: "wallet_reachable L E addresses current p \<Longrightarrow> get_transaction L E txid p = (r, p') \<Longrightarrow>
    wallet_reachable L E addresses current p'"
| history: "wallet_reachable L E addresses current p \<Longrightarrow> get_history L E a items p = (r, p') \<Longrightarrow>
    wallet_reachable L E addresses current p'"
| refresh: "wallet_reachable L E addresses current p \<Longrightarrow> refresh_all_history L E p = (r, p') \<Longrightarrow>
    wallet_reachable L E addresses current p'"
| refresh_bulk: "wallet_reachable L E addresses current p \<Longrightarrow> refresh_all_history_bulk L E p = (r, p') \<Longrightarrow>
    wallet_reachable L E addresses current p'"
| sorted: "wallet_reachable L E addresses current p \<Longrightarrow> get_all_txs_sorted L E p = (r, p') \<Longrightarrow>
    wallet_reachable L E addresses current p'"
| sorted_bulk: "wallet_reachable L E addresses current p \<Longrightarrow> get_all_txs_sorted_bulk L E p = (r, p') \<Longrightarrow>
    wallet_reachable L E addresses current p'"
| load: "wallet_reachable L E addresses current p \<Longrightarrow> load_txs_bulk E ids p = (r, p') \<Longrightarrow>
    wallet_reachable L E addresses current p'"
| spkh_lookup: "wallet_reachable L E addresses current p \<Longrightarrow> spkh_2_address spkh p = (r, p') \<Longrightarrow>
    wallet_reachable L E addresses current p'"
| subscribe: "wallet_reachable L E addresses current p \<Longrightarrow> subscribe_address L E a p = (r, p') \<Longrightarrow>
    wallet_reachable L E addresses current p'"
| subscribe_bulk: "wallet_reachable L E addresses current p \<Longrightarrow> subscribe_address_bulk L E as p = (r, p') \<Longrightarrow>
    wallet_reachable L E addresses current p'"
| clear: "wallet_reachable L E addresses current p \<Longrightarrow> clear_caches p = (r, p') \<Longrightarrow> wallet_reachable L E addresses current p'"
| clear_address: "wallet_reachable L E addresses current p \<Longrightarrow> clear_caches_for_address a p = (r, p') \<Longrightarrow>
    wallet_reachable L E addresses current p'"
| write_addresses: "wallet_reachable L E addresses current (s, w) \<Longrightarrow>
    wallet_reachable L E addresses written (assign_addresses written s, w)"
| write_data: "wallet_reachable L E addresses current (s, w) \<Longrightarrow>
    wallet_reachable L E addresses current (assign_address_to_data data s, w)"
| updates: "wallet_reachable L E addresses current (s, w) \<Longrightarrow>
    wallet_reachable L E addresses current (s\<lparr>history_queue := hq, balance_queue := bq, historyhash_queue := hhq,
      progress_callbacks := cbs\<rparr>, w)"

section \<open>Well-formed objects\<close>

text \<open>
  The table from script hashes to addresses is exact for the addresses the wallet was made with: every
  one of them has a hash, filed under an address of the wallet with that hash, and besides there are
  only the empty entries \<^verbatim>\<open>operator[]\<close> leaves for unknown hashes. The combined history has no id twice.
  No operation changes the list of addresses.
\<close>

definition table_exact :: "libbitcoin \<Rightarrow> string list \<Rightarrow> (string \<rightharpoonup> string) \<Rightarrow> bool" where
  "table_exact L addresses m \<longleftrightarrow>
     (\<forall>spkh a. m spkh = Some a \<longrightarrow> a = [] \<or> a \<in> set addresses \<and> base58_to_spkh_hex L a = Inr spkh) \<and>
     (\<forall>a \<in> set addresses. \<exists>spkh b. base58_to_spkh_hex L a = Inr spkh \<and> m spkh = Some b \<and>
       b \<in> set addresses \<and> base58_to_spkh_hex L b = Inr spkh)"

definition well_formed :: "libbitcoin \<Rightarrow> string list \<Rightarrow> string list \<Rightarrow> 'w WalletState \<times> 'w \<Rightarrow> bool" where
  "well_formed L addresses current p \<longleftrightarrow> ws_addresses (fst p) = current \<and>
     table_exact L addresses (ws_spkh_2_address (fst p)) \<and> distinct (map ahi_txid (all_history (fst p)))"

lemma spkh_table_loop:
  assumes "foldR (\<lambda>a m. bindR (base58_to_spkh_hex L a) (\<lambda>spkh. Inr (m(spkh \<mapsto> a)))) as m = Inr m'"
    and "\<forall>spkh a. m spkh = Some a \<longrightarrow> a \<in> set done \<and> base58_to_spkh_hex L a = Inr spkh"
    and "\<forall>a \<in> set done. \<exists>spkh b. base58_to_spkh_hex L a = Inr spkh \<and> m spkh = Some b"
  shows "(\<forall>spkh a. m' spkh = Some a \<longrightarrow> a \<in> set (done @ as) \<and> base58_to_spkh_hex L a = Inr spkh) \<and>
    (\<forall>a \<in> set (done @ as). \<exists>spkh b. base58_to_spkh_hex L a = Inr spkh \<and> m' spkh = Some b)"
  using assms
proof (induction as arbitrary: m "done")
  case Nil
  then show ?case by simp
next
  case (Cons a as)
  from Cons.prems(1) obtain spkh where spkh: "base58_to_spkh_hex L a = Inr spkh" and
    rest: "foldR (\<lambda>a m. bindR (base58_to_spkh_hex L a) (\<lambda>spkh. Inr (m(spkh \<mapsto> a)))) as (m(spkh \<mapsto> a)) = Inr m'"
    by (auto simp: bindR_Inr_iff simp del: fun_upd_apply)
  have sound: "\<forall>h x. (m(spkh \<mapsto> a)) h = Some x \<longrightarrow> x \<in> set (done @ [a]) \<and> base58_to_spkh_hex L x = Inr h"
  proof (intro allI impI)
    fix h x assume "(m(spkh \<mapsto> a)) h = Some x"
    then show "x \<in> set (done @ [a]) \<and> base58_to_spkh_hex L x = Inr h"
      using Cons.prems(2) [THEN spec, THEN spec, of h x] spkh by (cases "h = spkh") auto
  qed
  have complete: "\<forall>x \<in> set (done @ [a]). \<exists>h b. base58_to_spkh_hex L x = Inr h \<and> (m(spkh \<mapsto> a)) h = Some b"
  proof
    fix x assume "x \<in> set (done @ [a])"
    then have "x \<in> set done \<or> x = a" by auto
    with Cons.prems(3) spkh obtain h where "base58_to_spkh_hex L x = Inr h" "h = spkh \<or> (\<exists>b. m h = Some b)"
      by blast
    then show "\<exists>h b. base58_to_spkh_hex L x = Inr h \<and> (m(spkh \<mapsto> a)) h = Some b" by (cases "h = spkh") auto
  qed
  show ?case using Cons.IH [OF rest sound complete] unfolding append_assoc append.simps .
qed

lemma new_well_formed: "WalletState_new L addresses data = Inr s \<Longrightarrow> well_formed L addresses addresses (s, w)"
  using spkh_table_loop [of L addresses Map.empty _ "[]"]
  by (fastforce simp: WalletState_new_def well_formed_def table_exact_def bindR_Inr_iff)

section \<open>The operations keep objects well-formed\<close>

text \<open>An invariant that a returned value carries past a call.\<close>

lemma keeps_bindE_post:
  assumes "keeps P m" "\<And>p x p'. m p = (Inr x, p') \<Longrightarrow> Q x" "\<And>x. Q x \<Longrightarrow> keeps P (f x)"
  shows "keeps P (bindE m f)"
proof (rule keepsI)
  fix p assume p: "P p"
  obtain r p' where m: "m p = (r, p')" by fastforce
  have p': "P p'" by (rule keepsD [OF assms(1) p m])
  show "P (snd (bindE m f p))"
  proof (cases r)
    case (Inl e)
    with m p' show ?thesis by simp
  next
    case (Inr x)
    with assms(3) [OF assms(2)] m p' show ?thesis by (auto simp: keeps_def)
  qed
qed

lemma table_exact_empty: "table_exact L addresses m \<Longrightarrow> m spkh = None \<Longrightarrow> table_exact L addresses (m(spkh \<mapsto> []))"
proof -
  assume exact: "table_exact L addresses m" and none: "m spkh = None"
  have "\<exists>h b. base58_to_spkh_hex L a = Inr h \<and> (m(spkh \<mapsto> [])) h = Some b \<and>
      b \<in> set addresses \<and> base58_to_spkh_hex L b = Inr h"
    if "a \<in> set addresses" for a
  proof -
    from exact that obtain h b where "base58_to_spkh_hex L a = Inr h" "m h = Some b" "b \<in> set addresses"
      "base58_to_spkh_hex L b = Inr h" unfolding table_exact_def by blast
    moreover from this(2) none have "h \<noteq> spkh" by auto
    ultimately show ?thesis by auto
  qed
  with exact show ?thesis unfolding table_exact_def by simp
qed

lemma keeps_well_formed_prims [exec_inv]:
  "keeps (well_formed L as current) (index_txhex txid)" "keeps (well_formed L as current) (store_txhex txid h)"
  "keeps (well_formed L as current) (index_history_empty a)" "keeps (well_formed L as current) (index_history a)"
  "keeps (well_formed L as current) (store_history a items)" "keeps (well_formed L as current) (store_history_empty a b)"
  "keeps (well_formed L as current) (on_snd m)"
  by (auto simp: keeps_def well_formed_def index_txhex_def store_txhex_def index_history_empty_def index_history_def
      store_history_def store_history_empty_def on_snd_def split: prod.splits)

lemma keeps_well_formed_all_history:
  "distinct (map ahi_txid items) \<Longrightarrow> keeps (well_formed L as current) (set_all_history items)"
  by (auto simp: keeps_def well_formed_def set_all_history_def)

lemma keeps_well_formed_sort [exec_inv]: "keeps (well_formed L as current) sort_all_history"
  by (auto simp: keeps_def well_formed_def sort_all_history_def)

lemma keeps_well_formed_lookup [exec_inv]: "keeps (well_formed L as current) (spkh_2_address spkh)"
  by (auto simp: keeps_def well_formed_def spkh_2_address_def map_index_def table_exact_empty
      split: option.splits prod.splits)

lemma keeps_well_formed_get_transaction [exec_inv]: "keeps (well_formed L as current) (get_transaction L' E txid)"
  unfolding get_transaction_def by (intro exec_inv) (simp_all add: well_formed_def)

lemma keeps_well_formed_get_history [exec_inv]: "keeps (well_formed L as current) (get_history L' E a items)"
  unfolding get_history_def Let_def by (intro exec_inv) (simp_all add: well_formed_def)

lemma refresh_loop_by_txid:
  "foldE (refresh_step L E) as acc p = (Inr acc', p') \<Longrightarrow> by_txid acc \<Longrightarrow> by_txid acc'"
  by (induction as arbitrary: acc p) (auto simp: bindE_Inr_iff refresh_step_Inr by_txid_fold_insert)

lemma bulk_loop_by_txid:
  "foldE bulk_refresh_step hs acc p = (Inr acc', p') \<Longrightarrow> by_txid acc \<Longrightarrow> by_txid acc'"
  by (induction hs arbitrary: acc p) (auto simp: bindE_Inr_iff bulk_refresh_step_def ret_Inr_iff by_txid_fold_insert
      simp del: ret_eval split: prod.splits)

lemma keeps_well_formed_refresh [exec_inv]:
  "keeps (well_formed L as current) (refresh_all_history L' E)" "keeps (well_formed L as current) (refresh_all_history_bulk L' E)"
proof -
  have step: "keeps (well_formed L as current) (refresh_step L' E a acc)"
    "keeps (well_formed L as current) (bulk_refresh_step h acc)" for a acc h
    unfolding refresh_step_def bulk_refresh_step_def case_prod_beta by (intro exec_inv)+
  have nil: "by_txid []" by (simp add: by_txid_def)
  have set: "keeps (well_formed L as current) (set_all_history items)" if "by_txid items" for items
    using that by (intro keeps_well_formed_all_history by_txid_distinct)
  show "keeps (well_formed L as current) (refresh_all_history L' E)"
    unfolding refresh_all_history_def
    by (rule keeps_bindE [OF keeps_getS], rule keeps_bindE_post [OF keeps_foldE [OF step(1)] refresh_loop_by_txid [OF _ nil] set])
  have bulk: "keeps (well_formed L as current) (bindE (foldE bulk_refresh_step hs []) set_all_history)" for hs
    by (rule keeps_bindE_post [OF keeps_foldE [OF step(2)] bulk_loop_by_txid [OF _ nil] set])
  show "keeps (well_formed L as current) (refresh_all_history_bulk L' E)"
    unfolding refresh_all_history_bulk_def push_progress_event_def by (intro exec_inv bulk)
qed

lemma keeps_well_formed_txs [exec_inv]:
  "keeps (well_formed L as current) (get_all_txs_sorted L' E)" "keeps (well_formed L as current) (get_all_txs_sorted_bulk L' E)"
  "keeps (well_formed L as current) (load_txs_bulk E ids)"
  unfolding get_all_txs_sorted_def collect_tx_def get_all_txs_sorted_bulk_def collect_tx_bulk_def
    load_txs_bulk_def load_tx_def case_prod_beta
  by (intro exec_inv)+

lemma keeps_well_formed_subscribe [exec_inv]:
  "keeps (well_formed L as current) (subscribe_address L' E a)" "keeps (well_formed L as current) (subscribe_address_bulk L' E as')"
  unfolding subscribe_address_def subscribe_address_bulk_def by (intro exec_inv)+

lemma keeps_well_formed_clear [exec_inv]:
  "keeps (well_formed L as current) clear_caches" "keeps (well_formed L as current) (clear_caches_for_address a)"
  by (auto simp: keeps_def well_formed_def clear_caches_def clear_caches_for_address_def)

lemma reachable_well_formed: "wallet_reachable L E addresses current p \<Longrightarrow> well_formed L addresses current p"
proof (induction rule: wallet_reachable.induct)
  case (new data s w)
  then show ?case by (rule new_well_formed)
next
  case (world current s w w')
  then show ?case by (simp add: well_formed_def)
next
  case (write_addresses current s w written)
  then show ?case by (simp add: well_formed_def assign_addresses_def)
next
  case (write_data current s w data)
  then show ?case by (simp add: well_formed_def assign_address_to_data_def)
next
  case (updates current s w hq bq hhq cbs)
  then show ?case by (simp add: well_formed_def)
qed (rule keepsD, rule exec_inv, assumption, assumption)+

section \<open>Properties\<close>

text \<open>
  C28. Whatever is called on a wallet state and however the calls end, the object stays well-formed.
  No operation changes its addresses: they are those it was made with, or the list a caller last wrote
  through the reference \<^verbatim>\<open>get_addresses\<close> returns. No transaction is twice in the combined history. And a
  lookup of a script hash, which the listener does for every notification, gives an address with that
  hash among those the wallet was made with, if there is one, and the empty string otherwise, also for
  the addresses a caller has written since.
\<close>

theorem reachable_wallet_well_formed:
  assumes "wallet_reachable L E addresses current (s, w)"
  shows "ws_addresses s = current \<and> distinct (map ahi_txid (all_history s)) \<and>
    (\<forall>a \<in> set addresses. \<exists>spkh b. base58_to_spkh_hex L a = Inr spkh \<and> b \<in> set addresses \<and>
       base58_to_spkh_hex L b = Inr spkh \<and> fst (spkh_2_address spkh (s, w)) = Inr b) \<and>
    (\<forall>spkh. (\<forall>a \<in> set addresses. base58_to_spkh_hex L a \<noteq> Inr spkh) \<longrightarrow>
       fst (spkh_2_address spkh (s, w)) = Inr [])"
proof -
  have lookup: "fst (spkh_2_address spkh (s, w)) =
      Inr (case ws_spkh_2_address s spkh of None \<Rightarrow> [] | Some a \<Rightarrow> a)" for spkh
    by (simp add: spkh_2_address_def map_index_def split: option.splits)
  from reachable_well_formed [OF assms] have
    w: "ws_addresses s = current" "distinct (map ahi_txid (all_history s))"
    and known: "\<And>spkh a. ws_spkh_2_address s spkh = Some a \<Longrightarrow>
      a = [] \<or> a \<in> set addresses \<and> base58_to_spkh_hex L a = Inr spkh"
    and filed: "\<And>a. a \<in> set addresses \<Longrightarrow> \<exists>spkh b. base58_to_spkh_hex L a = Inr spkh \<and>
      ws_spkh_2_address s spkh = Some b \<and> b \<in> set addresses \<and> base58_to_spkh_hex L b = Inr spkh"
    unfolding well_formed_def table_exact_def by simp_all
  have "\<exists>spkh b. base58_to_spkh_hex L a = Inr spkh \<and> b \<in> set addresses \<and>
      base58_to_spkh_hex L b = Inr spkh \<and> fst (spkh_2_address spkh (s, w)) = Inr b" if "a \<in> set addresses" for a
    using filed [OF that] by (auto simp: lookup)
  moreover have "fst (spkh_2_address spkh (s, w)) = Inr []"
    if "\<forall>a \<in> set addresses. base58_to_spkh_hex L a \<noteq> Inr spkh" for spkh
    using known [of spkh] that by (auto simp: lookup split: option.splits)
  ultimately show ?thesis using w by blast
qed

theorem reachable_wallet_well_formed_witness:
  "\<exists>s r s' w' spkh. WalletState_new sample_tx_lib [''A''] Map.empty = Inr s \<and>
    get_all_txs_sorted sample_tx_lib sample_server (assign_addresses [''A'', ''B''] s, ()) = (r, (s', w')) \<and>
    ws_addresses s' = [''A'', ''B''] \<and>
    base58_to_spkh_hex sample_tx_lib ''A'' = Inr spkh \<and> fst (spkh_2_address spkh (s', w')) = Inr ''A''"
proof -
  obtain s :: "unit WalletState" where s: "WalletState_new sample_tx_lib [''A''] Map.empty = Inr s"
    by (simp add: WalletState_new_def base58_to_spkh_hex_def sample_tx_lib_def)
  obtain r s' w' where run: "get_all_txs_sorted sample_tx_lib sample_server (assign_addresses [''A'', ''B''] s, ()) = (r, (s', w'))"
    by (metis prod.collapse)
  have "wallet_reachable sample_tx_lib sample_server [''A''] [''A'', ''B''] (s', w')"
    by (rule wallet_reachable.sorted [OF wallet_reachable.write_addresses [OF wallet_reachable.new [OF s]] run])
  from reachable_wallet_well_formed [OF this] obtain spkh where "ws_addresses s' = [''A'', ''B'']"
    "base58_to_spkh_hex sample_tx_lib ''A'' = Inr spkh" "fst (spkh_2_address spkh (s', w')) = Inr ''A''" by auto
  with s run show ?thesis by blast
qed

end
