(* ===== verification/HistoryInspector.thy ===== *)
theory HistoryInspector
  imports WalletState
begin

text \<open>
  \<^verbatim>\<open>src/historyinspector/history_inspector.cpp\<close>: balances of addresses and of the wallet, the
  effect of a transaction on the wallet, and the rows of the history view. The object holds a
  flag and two references: every definition takes the flag \<^verbatim>\<open>is_testnet\<close>, the library \<^verbatim>\<open>L\<close> and
  the client \<^verbatim>\<open>E\<close>, and acts on the wallet state.
\<close>

section \<open>Data\<close>

text \<open>The signed \<^verbatim>\<open>balance_delta\<close> is kept as its 64 bits.\<close>

record TxBalanceInput =
  funding_tx :: string
  funding_idx :: int
  tbi_value :: u64
  tbi_in_wallet :: bool
  tbi_address :: string

record TxBalanceOutput =
  tbo_address :: string
  script_kind :: int
  tbo_value :: u64
  tbo_in_wallet :: bool

record TxBalance =
  tb_tx_id :: string
  tb_inputs :: "TxBalanceInput list"
  tb_outputs :: "TxBalanceOutput list"

record TxWalletImpact =
  balance_delta :: u64
  twi_is_p2sh :: bool
  funding_amount :: u64
  funding_address :: string

section \<open>Analysing a transaction\<close>

definition get_addresses :: "libbitcoin \<Rightarrow> bool \<Rightarrow> txout \<Rightarrow> payment_address list" where
  "get_addresses L is_testnet o1 =
     (if is_testnet then lb_addresses L (lb_testnet_p2kh L) (lb_testnet_p2sh L) o1
      else lb_addresses L (lb_mainnet_p2kh L) (lb_mainnet_p2sh L) o1)"

text \<open>\<^verbatim>\<open>outputs().at(funding_idx)\<close>: the \<^verbatim>\<open>int\<close> index becomes a huge \<^verbatim>\<open>size_t\<close> when negative.\<close>

definition at_index :: "'a list \<Rightarrow> int \<Rightarrow> 'a result" where
  "at_index xs i = (if i < 0 then Inl (OutOfRange ''vector'') else vec_at xs (nat i))"

definition balance_input ::
    "libbitcoin \<Rightarrow> ('j, 'w) ElectrumInterface \<Rightarrow> bool \<Rightarrow> txin \<Rightarrow> ('w WalletState \<times> 'w, TxBalanceInput) exec" where
  "balance_input L E is_testnet i =
     (let funding_tx_id = lb_encode_hash L (op_hash (previous_output i));
          idx = sint (op_index (previous_output i))
      in bindE (get_transaction L E funding_tx_id) (\<lambda>ftx.
         bindE (liftR (at_index (tx_outputs ftx) idx)) (\<lambda>prev.
         bindE (getS (\<lambda>(s, w). s)) (\<lambda>s.
           case get_addresses L is_testnet prev of
             ax # _ \<Rightarrow> ret \<lparr>funding_tx = funding_tx_id, funding_idx = idx, tbi_value = out_value prev,
                 tbi_in_wallet = is_in_wallet s (lb_encoded L ax), tbi_address = lb_encoded L ax\<rparr>
           | [] \<Rightarrow> ret \<lparr>funding_tx = funding_tx_id, funding_idx = idx, tbi_value = out_value prev,
                 tbi_in_wallet = False, tbi_address = []\<rparr>))))"

definition balance_output :: "libbitcoin \<Rightarrow> bool \<Rightarrow> 'w WalletState \<Rightarrow> txout \<Rightarrow> TxBalanceOutput" where
  "balance_output L is_testnet s o1 =
     (case get_addresses L is_testnet o1 of
        ax # _ \<Rightarrow> \<lparr>tbo_address = lb_encoded L ax, script_kind = lb_script_pattern L (out_script o1),
           tbo_value = out_value o1, tbo_in_wallet = is_in_wallet s (lb_encoded L ax)\<rparr>
      | [] \<Rightarrow> \<lparr>tbo_address = [], script_kind = -1, tbo_value = out_value o1, tbo_in_wallet = False\<rparr>)"

definition analyse_tx_balances ::
    "libbitcoin \<Rightarrow> ('j, 'w) ElectrumInterface \<Rightarrow> bool \<Rightarrow> string \<Rightarrow> TxBalance list \<Rightarrow>
     ('w WalletState \<times> 'w, TxBalance list) exec" where
  "analyse_tx_balances L E is_testnet txid balance_items =
     bindE (get_transaction L E txid) (\<lambda>tx.
     bindE (foldE (\<lambda>i acc. bindE (balance_input L E is_testnet i) (\<lambda>b. ret (acc @ [b])))
              (tx_inputs tx) []) (\<lambda>balance_inputs.
     bindE (getS (\<lambda>(s, w). map (balance_output L is_testnet s) (tx_outputs tx))) (\<lambda>balance_outputs.
     ret (balance_items @ [\<lparr>tb_tx_id = txid, tb_inputs = balance_inputs, tb_outputs = balance_outputs\<rparr>]))))"

section \<open>The balance of an address\<close>

text \<open>
  The four nested loops of \<^verbatim>\<open>calc_address_balance\<close>: for every output that pays the address,
  the value is added and the inputs of the later items that spend it are subtracted.
\<close>

fun deduct_inputs :: "string \<Rightarrow> int \<Rightarrow> TxBalanceInput list \<Rightarrow> u64 \<Rightarrow> u64" where
  "deduct_inputs cur_tx cur_idx [] balance = balance"
| "deduct_inputs cur_tx cur_idx (i # is) balance =
     deduct_inputs cur_tx cur_idx is
       (if funding_tx i = cur_tx \<and> funding_idx i = cur_idx then balance - tbi_value i else balance)"

fun deduct_items :: "string \<Rightarrow> int \<Rightarrow> TxBalance list \<Rightarrow> u64 \<Rightarrow> u64" where
  "deduct_items cur_tx cur_idx [] balance = balance"
| "deduct_items cur_tx cur_idx (item # items) balance =
     deduct_items cur_tx cur_idx items (deduct_inputs cur_tx cur_idx (tb_inputs item) balance)"

fun add_outputs ::
    "string \<Rightarrow> string \<Rightarrow> TxBalance list \<Rightarrow> int \<Rightarrow> TxBalanceOutput list \<Rightarrow> u64 \<Rightarrow> u64" where
  "add_outputs address cur_tx later oidx [] balance = balance"
| "add_outputs address cur_tx later oidx (o1 # os) balance =
     add_outputs address cur_tx later (oidx + 1) os
       (if tbo_address o1 = address
        then deduct_items cur_tx oidx later (balance + tbo_value o1) else balance)"

fun add_items :: "string \<Rightarrow> TxBalance list \<Rightarrow> u64 \<Rightarrow> u64" where
  "add_items address [] balance = balance"
| "add_items address (item # later) balance =
     add_items address later (add_outputs address (tb_tx_id item) later 0 (tb_outputs item) balance)"

definition calc_address_balance :: "string \<Rightarrow> TxBalance list \<Rightarrow> u64" where
  "calc_address_balance address balance_items = add_items address balance_items 0"

definition calculate_address_balance ::
    "libbitcoin \<Rightarrow> ('j, 'w) ElectrumInterface \<Rightarrow> bool \<Rightarrow> string \<Rightarrow> bool \<Rightarrow> ('w WalletState \<times> 'w, u64) exec" where
  "calculate_address_balance L E is_testnet address unconfirmed_only =
     bindE (get_history L E address []) (\<lambda>history_items.
     bindE (foldE (\<lambda>item balance_items.
              if \<not> unconfirmed_only \<or> ahi_height item \<le> 0
              then analyse_tx_balances L E is_testnet (ahi_txid item) balance_items
              else ret balance_items) history_items []) (\<lambda>balance_items.
     ret (calc_address_balance address balance_items)))"

definition calculate_total_balance ::
    "libbitcoin \<Rightarrow> ('j, 'w) ElectrumInterface \<Rightarrow> bool \<Rightarrow> bool \<Rightarrow> ('w WalletState \<times> 'w, u64) exec" where
  "calculate_total_balance L E is_testnet unconfirmed_only =
     bindE (getS (\<lambda>(s, w). ws_addresses s)) (\<lambda>addresses.
     foldE (\<lambda>address balance.
       bindE (calculate_address_balance L E is_testnet address unconfirmed_only) (\<lambda>b.
       ret (balance + b))) addresses 0)"

definition scan_balances ::
    "libbitcoin \<Rightarrow> ('j, 'w) ElectrumInterface \<Rightarrow> bool \<Rightarrow> ('w WalletState \<times> 'w, unit) exec" where
  "scan_balances L E is_testnet =
     bindE (getS (\<lambda>(s, w). ws_addresses s)) (\<lambda>addresses.
     bindE (foldE (\<lambda>address address_to_balance.
              bindE (calculate_address_balance L E is_testnet address False) (\<lambda>b.
              ret (address_to_balance(address \<mapsto> b)))) addresses Map.empty) (\<lambda>address_to_balance.
     push_balance_update address_to_balance))"

section \<open>Subscriptions and caches\<close>

definition do_addresses_subscriptions ::
    "libbitcoin \<Rightarrow> ('j, 'w) ElectrumInterface \<Rightarrow> ('w WalletState \<times> 'w, unit) exec" where
  "do_addresses_subscriptions L E =
     bindE (getS (\<lambda>(s, w). ws_addresses s)) (\<lambda>addresses.
     bindE (foldE (\<lambda>address m. bindE (subscribe_address L E address) (\<lambda>_. ret (m(address \<mapsto> []))))
              addresses Map.empty) (\<lambda>address_to_historyhash.
     push_historyhash_update address_to_historyhash))"

definition do_addresses_subscriptions_bulk ::
    "libbitcoin \<Rightarrow> ('j, 'w) ElectrumInterface \<Rightarrow> ('w WalletState \<times> 'w, unit) exec" where
  "do_addresses_subscriptions_bulk L E =
     bindE (getS (\<lambda>(s, w). ws_addresses s)) (\<lambda>addresses.
     let address_to_historyhash = foldl (\<lambda>m address. m(address \<mapsto> [])) Map.empty addresses in
     bindE (subscribe_address_bulk L E addresses) (\<lambda>_.
     push_historyhash_update address_to_historyhash))"

definition inspector_clear_caches :: "('w WalletState \<times> 'w, unit) exec" where
  "inspector_clear_caches = clear_caches"

definition inspector_clear_caches_for_address :: "string \<Rightarrow> ('w WalletState \<times> 'w, unit) exec" where
  "inspector_clear_caches_for_address address = clear_caches_for_address address"

section \<open>The effect of a transaction on the wallet\<close>

text \<open>The local variables of \<^verbatim>\<open>calculate_tx_wallet_impact\<close>.\<close>

record impact_sums =
  sum_from_wallet_inputs :: u64
  sum_to_wallet_outputs :: u64
  total_in :: u64
  total_out :: u64
  is_p2sh :: bool
  last_funding_address :: string

definition impact_input :: "TxBalanceInput \<Rightarrow> impact_sums \<Rightarrow> impact_sums" where
  "impact_input i v =
     (let v = (if tbi_in_wallet i
               then v\<lparr>sum_from_wallet_inputs := sum_from_wallet_inputs v + tbi_value i,
                      last_funding_address := tbi_address i\<rparr> else v)
      in v\<lparr>total_in := total_in v + tbi_value i\<rparr>)"

definition impact_output :: "libbitcoin \<Rightarrow> TxBalanceOutput \<Rightarrow> impact_sums \<Rightarrow> impact_sums" where
  "impact_output L o1 v =
     (let v = (if tbo_in_wallet o1
               then v\<lparr>sum_to_wallet_outputs := sum_to_wallet_outputs v + tbo_value o1\<rparr> else v);
          v = (if script_kind o1 = lb_pay_script_hash L then v\<lparr>is_p2sh := True\<rparr> else v)
      in v\<lparr>total_out := total_out v + tbo_value o1\<rparr>)"

definition impact_item :: "libbitcoin \<Rightarrow> TxBalance \<Rightarrow> impact_sums \<Rightarrow> impact_sums" where
  "impact_item L item v = fold (impact_output L) (tb_outputs item) (fold impact_input (tb_inputs item) v)"

definition impact_of_items :: "libbitcoin \<Rightarrow> TxBalance list \<Rightarrow> TxWalletImpact" where
  "impact_of_items L balance_items =
     (let v = fold (impact_item L) balance_items
            \<lparr>sum_from_wallet_inputs = 0, sum_to_wallet_outputs = 0, total_in = 0, total_out = 0,
             is_p2sh = False, last_funding_address = []\<rparr>;
          fee = total_in v - total_out v;
          delta = sum_to_wallet_outputs v - sum_from_wallet_inputs v;
          amount = sum_from_wallet_inputs v - sum_to_wallet_outputs v - fee
      in \<lparr>balance_delta = delta, twi_is_p2sh = is_p2sh v, funding_amount = amount,
          funding_address = last_funding_address v\<rparr>)"

definition calculate_tx_wallet_impact ::
    "libbitcoin \<Rightarrow> ('j, 'w) ElectrumInterface \<Rightarrow> bool \<Rightarrow> string \<Rightarrow> ('w WalletState \<times> 'w, TxWalletImpact) exec" where
  "calculate_tx_wallet_impact L E is_testnet txid =
     bindE (analyse_tx_balances L E is_testnet txid []) (\<lambda>balance_items.
     ret (impact_of_items L balance_items))"

text \<open>
  The loop of the two sums over all transactions, for those whose height passes the test. The confirmed
  balance is added up in a \<^verbatim>\<open>uint64_t\<close>; the unconfirmed impact in an \<^verbatim>\<open>int64_t\<close>, whose overflow is
  undefined.
\<close>

definition unsigned_add :: "u64 \<Rightarrow> u64 \<Rightarrow> u64 result" where
  "unsigned_add a b = Inr (a + b)"

definition signed_add :: "u64 \<Rightarrow> u64 \<Rightarrow> u64 result" where
  "signed_add a b =
     (if - (2 ^ 63) \<le> sint a + sint b \<and> sint a + sint b < 2 ^ 63 then Inr (a + b) else Inl UndefinedBehaviour)"

definition tx_id_of :: "libbitcoin \<Rightarrow> TransactionInfo \<Rightarrow> string" where
  "tx_id_of L tx_info = lb_encode_hash L (lb_tx_hash L (ti_tx tx_info))"

definition sum_impacts ::
    "libbitcoin \<Rightarrow> ('j, 'w) ElectrumInterface \<Rightarrow> bool \<Rightarrow> (u64 \<Rightarrow> u64 \<Rightarrow> u64 result) \<Rightarrow> (int \<Rightarrow> bool) \<Rightarrow>
     TransactionInfo list \<Rightarrow> ('w WalletState \<times> 'w, u64) exec" where
  "sum_impacts L E is_testnet add height_ok sorted_txs =
     foldE (\<lambda>tx_info balance.
       if height_ok (ti_height tx_info)
       then bindE (calculate_tx_wallet_impact L E is_testnet (tx_id_of L tx_info)) (\<lambda>impact.
            liftR (add balance (balance_delta impact)))
       else ret balance) sorted_txs 0"

definition unconfirmed_txs_wallet_impact ::
    "libbitcoin \<Rightarrow> ('j, 'w) ElectrumInterface \<Rightarrow> bool \<Rightarrow> ('w WalletState \<times> 'w, u64) exec" where
  "unconfirmed_txs_wallet_impact L E is_testnet =
     bindE (get_all_txs_sorted L E) (sum_impacts L E is_testnet signed_add (\<lambda>h. h = 0))"

definition calculate_confirmed_balance ::
    "libbitcoin \<Rightarrow> ('j, 'w) ElectrumInterface \<Rightarrow> bool \<Rightarrow> ('w WalletState \<times> 'w, u64) exec" where
  "calculate_confirmed_balance L E is_testnet =
     bindE (get_all_txs_sorted L E) (sum_impacts L E is_testnet unsigned_add (\<lambda>h. h \<noteq> 0))"

section \<open>The history view\<close>

definition append_funding_txs ::
    "libbitcoin \<Rightarrow> ('j, 'w) ElectrumInterface \<Rightarrow> string \<Rightarrow> string list \<Rightarrow> ('w WalletState \<times> 'w, string list) exec" where
  "append_funding_txs L E txid ids0 =
     bindE (get_transaction L E txid) (\<lambda>tx.
     ret (foldl (\<lambda>ids i. let funding_tx_id = lb_encode_hash L (op_hash (previous_output i))
                         in if funding_tx_id \<noteq> [] then ids @ [funding_tx_id] else ids)
            ids0 (tx_inputs tx)))"

definition history_view_row ::
    "libbitcoin \<Rightarrow> ('j, 'w) ElectrumInterface \<Rightarrow> bool \<Rightarrow> TransactionInfo \<Rightarrow> ('w WalletState \<times> 'w, HistoryViewRow) exec" where
  "history_view_row L E is_testnet tx_info =
     bindE (calculate_tx_wallet_impact L E is_testnet (tx_id_of L tx_info)) (\<lambda>impact.
     ret \<lparr>hvr_timestamp = 0, hvr_height = ti_height tx_info, hvr_balance_delta = balance_delta impact,
          hvr_tx_id = tx_id_of L tx_info, hvr_balance = 0, hvr_is_p2sh = twi_is_p2sh impact,
          hvr_funding_amount = funding_amount impact, hvr_funding_address = funding_address impact,
          hvr_fresh = ti_fresh tx_info\<rparr>)"

text \<open>The loop from \<^verbatim>\<open>rbegin\<close> to \<^verbatim>\<open>rend\<close>: the rows and the balance after the first row.\<close>

fun fill_balances :: "HistoryViewRow list \<Rightarrow> HistoryViewRow list \<times> u64" where
  "fill_balances [] = ([], 0)"
| "fill_balances (p # ps) =
     (case fill_balances ps of (ps', balance) \<Rightarrow>
        let balance = balance + hvr_balance_delta p in (p\<lparr>hvr_balance := balance\<rparr> # ps', balance))"

definition create_history_view_rows ::
    "libbitcoin \<Rightarrow> ('j, 'w) ElectrumInterface \<Rightarrow> bool \<Rightarrow> bool \<Rightarrow> ('w WalletState \<times> 'w, unit) exec" where
  "create_history_view_rows L E is_testnet bulk =
     bindE (if bulk then
              bindE (get_all_txs_sorted_bulk L E) (\<lambda>sorted_txs.
              bindE (foldE (\<lambda>tx_info ids. append_funding_txs L E (tx_id_of L tx_info) ids) sorted_txs [])
                (\<lambda>funding_txids.
              bindE (load_txs_bulk E funding_txids) (\<lambda>_. ret sorted_txs)))
            else get_all_txs_sorted L E) (\<lambda>sorted_txs.
     bindE (foldE (\<lambda>tx_info rows. bindE (history_view_row L E is_testnet tx_info) (\<lambda>row. ret (rows @ [row])))
              sorted_txs []) (\<lambda>history_view_rows.
     push_history_update (fst (fill_balances history_view_rows))))"

text \<open>Block headers are decoded by the library; \<^verbatim>\<open>from_data\<close> stands for \<^verbatim>\<open>chain::header::from_data\<close>.\<close>

definition hex_2_header :: "libbitcoin \<Rightarrow> (data_chunk \<Rightarrow> 'hd option) \<Rightarrow> string \<Rightarrow> 'hd result" where
  "hex_2_header L from_data header_hex =
     (case lb_decode_base16 L header_hex of
        None \<Rightarrow> Inl (InvalidArgument ''could not decode raw hex header'')
      | Some header_chunk \<Rightarrow> (case from_data header_chunk of
          None \<Rightarrow> Inl (InvalidArgument ''could not decode header'')
        | Some header \<Rightarrow> Inr header))"

section \<open>Unspent outputs\<close>

text \<open>
  The specification of a balance: the sum over all outputs that pay the address and that no
  input of the list spends.
\<close>

abbreviation all_inputs :: "TxBalance list \<Rightarrow> TxBalanceInput list" where
  "all_inputs items \<equiv> concat (map tb_inputs items)"

definition spends :: "TxBalanceInput \<Rightarrow> string \<times> int" where
  "spends i = (funding_tx i, funding_idx i)"

fun unspent_outputs :: "string \<Rightarrow> (string \<times> int) set \<Rightarrow> string \<Rightarrow> int \<Rightarrow> TxBalanceOutput list \<Rightarrow> u64 list" where
  "unspent_outputs address spent cur_tx oidx [] = []"
| "unspent_outputs address spent cur_tx oidx (o1 # os) =
     (if tbo_address o1 = address \<and> (cur_tx, oidx) \<notin> spent then [tbo_value o1] else []) @
     unspent_outputs address spent cur_tx (oidx + 1) os"

definition unspent_values :: "string \<Rightarrow> TxBalance list \<Rightarrow> u64 list" where
  "unspent_values address items =
     concat (map (\<lambda>item. unspent_outputs address (spends ` set (all_inputs items)) (tb_tx_id item) 0
                          (tb_outputs item)) items)"

text \<open>
  What the order note in the code asks for, and what holds of a block chain: an item spends
  only outputs of items before it, every output is spent at most once, and an input that spends
  an output of the list has its value.
\<close>

fun chronological :: "TxBalance list \<Rightarrow> bool" where
  "chronological [] = True"
| "chronological (item # later) =
     (list_all (\<lambda>i. funding_tx i \<notin> tb_tx_id ` set (item # later)) (tb_inputs item) \<and> chronological later)"

definition value_agrees :: "TxBalance list \<Rightarrow> TxBalanceInput \<Rightarrow> bool" where
  "value_agrees items i \<longleftrightarrow> list_all (\<lambda>item. tb_tx_id item = funding_tx i \<longrightarrow>
     0 \<le> funding_idx i \<and> nat (funding_idx i) < length (tb_outputs item) \<and>
     tbo_value (tb_outputs item ! nat (funding_idx i)) = tbi_value i) items"

lemma deduct_inputs_sum:
  "deduct_inputs tx idx is b = b - sum_list (map tbi_value (filter (\<lambda>i. spends i = (tx, idx)) is))"
  by (induction tx idx "is" b rule: deduct_inputs.induct) (auto simp: spends_def algebra_simps)

lemma deduct_items_sum:
  "deduct_items tx idx items b =
     b - sum_list (map tbi_value (filter (\<lambda>i. spends i = (tx, idx)) (all_inputs items)))"
  by (induction tx idx items b rule: deduct_items.induct) (auto simp: deduct_inputs_sum algebra_simps)

lemma filter_distinct_key:
  assumes "distinct (map f xs)" "x \<in> set xs"
  shows "filter (\<lambda>y. f y = f x) xs = [x]"
  using assms
proof (induction xs)
  case (Cons y ys)
  show ?case
  proof (cases "x = y")
    case True
    from Cons.prems(1) have "f y \<notin> f ` set ys" by simp
    then have "filter (\<lambda>z. f z = f y) ys = []" unfolding filter_empty_conv by (metis imageI)
    with True show ?thesis by simp
  next
    case False
    with Cons show ?thesis by auto
  qed
qed simp

text \<open>Adding an output and deducting its spenders.\<close>

lemma deduct_one:
  assumes "distinct (map spends (all_inputs later))"
    and "\<And>i. i \<in> set (all_inputs later) \<Longrightarrow> spends i = (tx, idx) \<Longrightarrow> tbi_value i = v"
  shows "deduct_items tx idx later (b + v) =
    b + (if (tx, idx) \<in> spends ` set (all_inputs later) then 0 else v)"
proof (cases "(tx, idx) \<in> spends ` set (all_inputs later)")
  case True
  then obtain i where i: "i \<in> set (all_inputs later)" "spends i = (tx, idx)" by (metis imageE)
  with filter_distinct_key [OF assms(1) i(1)] assms(2) True show ?thesis by (simp add: deduct_items_sum)
next
  case False
  then have "filter (\<lambda>i. spends i = (tx, idx)) (all_inputs later) = []"
    unfolding filter_empty_conv by force
  with False show ?thesis by (simp add: deduct_items_sum)
qed

lemma add_outputs_sum:
  assumes "distinct (map spends (all_inputs later))" "0 \<le> oidx"
    and "\<And>i. i \<in> set (all_inputs later) \<Longrightarrow> funding_tx i = tx \<Longrightarrow> oidx \<le> funding_idx i \<Longrightarrow>
           nat (funding_idx i - oidx) < length os \<and> tbo_value (os ! nat (funding_idx i - oidx)) = tbi_value i"
  shows "add_outputs address tx later oidx os b =
    b + sum_list (unspent_outputs address (spends ` set (all_inputs later)) tx oidx os)"
  using assms(2,3)
proof (induction os arbitrary: oidx b)
  case Nil
  then show ?case by simp
next
  case (Cons o1 os)
  have head: "deduct_items tx oidx later (b + tbo_value o1) =
      b + (if (tx, oidx) \<in> spends ` set (all_inputs later) then 0 else tbo_value o1)"
  proof (rule deduct_one [OF assms(1)])
    fix i assume "i \<in> set (all_inputs later)" "spends i = (tx, oidx)"
    with Cons.prems(2) [of i] show "tbi_value i = tbo_value o1" by (simp add: spends_def)
  qed
  have tail: "nat (funding_idx i - (oidx + 1)) < length os \<and>
      tbo_value (os ! nat (funding_idx i - (oidx + 1))) = tbi_value i"
    if "i \<in> set (all_inputs later)" "funding_tx i = tx" "oidx + 1 \<le> funding_idx i" for i
  proof -
    have "nat (funding_idx i - oidx) = Suc (nat (funding_idx i - (oidx + 1)))" using that(3) by simp
    with Cons.prems(2) [of i] that show ?thesis by simp
  qed
  have "add_outputs address tx later (oidx + 1) os b' =
      b' + sum_list (unspent_outputs address (spends ` set (all_inputs later)) tx (oidx + 1) os)" for b'
    using Cons.prems(1) tail by (intro Cons.IH) auto
  with head show ?case by simp
qed

lemma unspent_outputs_cong:
  "(\<And>idx. (tx, idx) \<in> S \<longleftrightarrow> (tx, idx) \<in> S') \<Longrightarrow>
     unspent_outputs address S tx oidx os = unspent_outputs address S' tx oidx os"
  by (induction os arbitrary: oidx) simp_all

lemma unspent_values_Cons:
  assumes "chronological (item # later)"
  shows "unspent_values address (item # later) =
    unspent_outputs address (spends ` set (all_inputs later)) (tb_tx_id item) 0 (tb_outputs item) @
    unspent_values address later"
proof -
  let ?S = "spends ` set (all_inputs (item # later))" and ?T = "spends ` set (all_inputs later)"
  have same: "(tx, idx) \<in> ?S \<longleftrightarrow> (tx, idx) \<in> ?T" if "tx \<in> tb_tx_id ` set (item # later)" for tx idx
  proof -
    from assms have "\<forall>i \<in> set (tb_inputs item). funding_tx i \<notin> tb_tx_id ` set (item # later)"
      by (simp add: list_all_iff)
    with that have "(tx, idx) \<notin> spends ` set (tb_inputs item)" by (auto simp: spends_def)
    then show ?thesis by (simp add: image_Un)
  qed
  have "unspent_outputs address ?S (tb_tx_id it) 0 (tb_outputs it) =
      unspent_outputs address ?T (tb_tx_id it) 0 (tb_outputs it)" if "it \<in> set (item # later)" for it
    using that by (intro unspent_outputs_cong same imageI)
  then have "map (\<lambda>it. unspent_outputs address ?S (tb_tx_id it) 0 (tb_outputs it)) (item # later) =
      map (\<lambda>it. unspent_outputs address ?T (tb_tx_id it) 0 (tb_outputs it)) (item # later)"
    by (intro map_cong refl)
  then show ?thesis unfolding unspent_values_def by (simp only: list.map concat.simps)
qed

lemma add_items_sum:
  assumes "chronological items" "distinct (map spends (all_inputs items))"
    and "list_all (value_agrees items) (all_inputs items)"
  shows "add_items address items b = b + sum_list (unspent_values address items)"
  using assms
proof (induction items arbitrary: b)
  case Nil
  then show ?case by (simp add: unspent_values_def)
next
  case (Cons item later)
  have agree: "value_agrees (item # later) i" if "i \<in> set (all_inputs later)" for i
    using Cons.prems(3) that by (auto simp: list_all_iff)
  then have "list_all (value_agrees later) (all_inputs later)"
    by (auto simp: list_all_iff value_agrees_def)
  with Cons have ih: "add_items address later b' = b' + sum_list (unspent_values address later)" for b'
    by simp
  have "add_outputs address (tb_tx_id item) later 0 (tb_outputs item) b = b + sum_list
      (unspent_outputs address (spends ` set (all_inputs later)) (tb_tx_id item) 0 (tb_outputs item))"
  proof (rule add_outputs_sum)
    show "distinct (map spends (all_inputs later))" using Cons.prems(2) by simp
    fix i assume "i \<in> set (all_inputs later)" "funding_tx i = tb_tx_id item" "0 \<le> funding_idx i"
    with agree [of i] show "nat (funding_idx i - 0) < length (tb_outputs item) \<and>
        tbo_value (tb_outputs item ! nat (funding_idx i - 0)) = tbi_value i"
      by (simp add: value_agrees_def)
  qed simp
  with ih show ?case by (simp add: unspent_values_Cons [OF Cons.prems(1)] algebra_simps)
qed

section \<open>Sums of the wallet impact\<close>

lemma impact_inputs_sums:
  "sum_from_wallet_inputs (fold impact_input is v) =
     sum_from_wallet_inputs v + sum_list (map tbi_value (filter tbi_in_wallet is))"
  "total_in (fold impact_input is v) = total_in v + sum_list (map tbi_value is)"
  "sum_to_wallet_outputs (fold impact_input is v) = sum_to_wallet_outputs v"
  "total_out (fold impact_input is v) = total_out v"
  "is_p2sh (fold impact_input is v) = is_p2sh v"
  by (induction "is" arbitrary: v) (simp_all add: impact_input_def Let_def)

lemma impact_outputs_sums:
  "sum_to_wallet_outputs (fold (impact_output L) os v) =
     sum_to_wallet_outputs v + sum_list (map tbo_value (filter tbo_in_wallet os))"
  "total_out (fold (impact_output L) os v) = total_out v + sum_list (map tbo_value os)"
  "sum_from_wallet_inputs (fold (impact_output L) os v) = sum_from_wallet_inputs v"
  "total_in (fold (impact_output L) os v) = total_in v"
  "is_p2sh (fold (impact_output L) os v) \<longleftrightarrow>
     is_p2sh v \<or> list_ex (\<lambda>o1. script_kind o1 = lb_pay_script_hash L) os"
  by (induction os arbitrary: v) (auto simp: impact_output_def Let_def)

lemma sum_list_partition:
  "sum_list (map f xs) = sum_list (map f (filter P xs)) + sum_list (map f (filter (\<lambda>x. \<not> P x) xs))"
  for f :: "'a \<Rightarrow> u64"
  by (induction xs) simp_all

section \<open>Running balances\<close>

text \<open>The sum of a list, as the loops compute it.\<close>

definition total_of :: "(u64 \<Rightarrow> u64 \<Rightarrow> u64 result) \<Rightarrow> u64 list \<Rightarrow> u64 result" where
  "total_of add ds = foldR (\<lambda>d b. add b d) ds 0"

lemma unsigned_total: "total_of unsigned_add ds = Inr (sum_list ds)"
proof -
  have "foldR (\<lambda>d b. unsigned_add b d) ds b = Inr (b + sum_list ds)" for b
    by (induction ds arbitrary: b) (simp_all add: unsigned_add_def add.assoc)
  from this [of 0] show ?thesis by (simp add: total_of_def)
qed

lemma add_exact: "unsigned_add a b = Inr c \<Longrightarrow> c = a + b" "signed_add a b = Inr c \<Longrightarrow> c = a + b"
  by (auto simp: unsigned_add_def signed_add_def split: if_splits)

lemma signed_total: "total_of signed_add ds = Inr b \<Longrightarrow> b = sum_list ds"
proof -
  have "b = b0 + sum_list ds" if "foldR (\<lambda>d b. signed_add b d) ds b0 = Inr b" for b0
    using that by (induction ds arbitrary: b0) (fastforce simp: bindR_Inr_iff add.assoc dest!: add_exact(2))+
  then show "total_of signed_add ds = Inr b \<Longrightarrow> b = sum_list ds" by (fastforce simp: total_of_def)
qed

lemma signed_total_cases: "total_of signed_add ds = Inr (sum_list ds) \<or> total_of signed_add ds = Inl UndefinedBehaviour"
proof -
  have "e = UndefinedBehaviour" if "foldR (\<lambda>d b. signed_add b d) ds b = Inl e" for b e
    using that
  proof (induction ds arbitrary: b)
    case (Cons d ds)
    show ?case
    proof (cases "signed_add b d")
      case (Inl e')
      with Cons.prems show ?thesis by (auto simp: signed_add_def split: if_splits)
    next
      case (Inr b')
      with Cons.prems have "foldR (\<lambda>d b. signed_add b d) ds b' = Inl e" by simp
      then show ?thesis by (rule Cons.IH)
    qed
  qed simp
  then show ?thesis using signed_total by (cases "total_of signed_add ds") (auto simp: total_of_def)
qed

lemma fill_balances_snd: "snd (fill_balances rows) = sum_list (map hvr_balance_delta rows)"
  by (induction rows) (simp_all add: case_prod_beta Let_def)

lemma fill_balances_length [simp]: "length (fst (fill_balances rows)) = length rows"
  by (induction rows) (simp_all add: case_prod_beta Let_def)

lemma fill_balances_nth:
  "i < length rows \<Longrightarrow> fst (fill_balances rows) ! i =
     (rows ! i)\<lparr>hvr_balance := sum_list (map hvr_balance_delta (drop i rows))\<rparr>"
proof (induction rows arbitrary: i)
  case (Cons p ps)
  then show ?case
    by (cases i) (simp_all add: case_prod_beta Let_def fill_balances_snd)
qed simp

lemma fill_balances_fields:
  "map hvr_tx_id (fst (fill_balances rows)) = map hvr_tx_id rows"
  "map hvr_height (fst (fill_balances rows)) = map hvr_height rows"
  "map hvr_fresh (fst (fill_balances rows)) = map hvr_fresh rows"
  "map hvr_balance_delta (fst (fill_balances rows)) = map hvr_balance_delta rows"
  by (induction rows) (simp_all add: case_prod_beta Let_def)

lemma fill_balances_running:
  "i < length rows \<Longrightarrow> hvr_balance (fst (fill_balances rows) ! i) =
     sum_list (map hvr_balance_delta (drop i (fst (fill_balances rows))))"
  by (simp add: fill_balances_nth drop_map [symmetric] fill_balances_fields)

text \<open>The rows, in the order of the transactions.\<close>

lemma history_view_row_fields:
  "history_view_row L E is_testnet tx s = (Inr row, t) \<Longrightarrow>
     hvr_tx_id row = tx_id_of L tx \<and> hvr_height row = ti_height tx \<and> hvr_fresh row = ti_fresh tx"
  by (auto simp: history_view_row_def exec_simps)

lemma history_rows_acc:
  "foldE (\<lambda>tx_info rows. bindE (history_view_row L E is_testnet tx_info) (\<lambda>row. ret (rows @ [row])))
     txs acc s = (Inr rows, s') \<Longrightarrow>
   map hvr_tx_id rows = map hvr_tx_id acc @ map (tx_id_of L) txs \<and>
   map hvr_height rows = map hvr_height acc @ map ti_height txs \<and>
   map hvr_fresh rows = map hvr_fresh acc @ map ti_fresh txs"
proof (induction txs arbitrary: acc s)
  case (Cons tx txs)
  from Cons.prems obtain row t where row: "history_view_row L E is_testnet tx s = (Inr row, t)"
    and rest: "foldE (\<lambda>tx_info rows. bindE (history_view_row L E is_testnet tx_info)
       (\<lambda>row. ret (rows @ [row]))) txs (acc @ [row]) t = (Inr rows, s')"
    by (auto simp only: foldE.simps bindE_Inr_iff ret_Inr_iff)
  from Cons.IH [OF rest] history_view_row_fields [OF row] show ?case by simp
qed simp

text \<open>Nothing but \<^verbatim>\<open>push_history_update\<close> touches the queue of history updates.\<close>

abbreviation queue_is :: "HistoryViewRow list blocking_queue \<Rightarrow> 'w WalletState \<times> 'w \<Rightarrow> bool" where
  "queue_is q \<equiv> \<lambda>p. history_queue (fst p) = q"

lemma keeps_queue_prims [exec_inv]:
  "keeps (queue_is q) (index_txhex txid)" "keeps (queue_is q) (store_txhex txid h)"
  "keeps (queue_is q) (index_history_empty a)" "keeps (queue_is q) (index_history a)"
  "keeps (queue_is q) (store_history a items)" "keeps (queue_is q) (store_history_empty a b)"
  "keeps (queue_is q) (set_all_history items)" "keeps (queue_is q) sort_all_history"
  "keeps (queue_is q) (on_snd m)"
  by (auto simp: keeps_def index_txhex_def store_txhex_def index_history_empty_def index_history_def
      store_history_def store_history_empty_def set_all_history_def sort_all_history_def on_snd_def
      split: prod.splits)

lemma keeps_queue_get_transaction [exec_inv]: "keeps (queue_is q) (get_transaction L E txid)"
  unfolding get_transaction_def by (intro exec_inv) simp_all

lemma keeps_queue_get_history [exec_inv]: "keeps (queue_is q) (get_history L E a items)"
  unfolding get_history_def Let_def by (intro exec_inv) simp_all

lemma keeps_queue_all_txs:
  "keeps (queue_is q) (if bulk then get_all_txs_sorted_bulk L E else get_all_txs_sorted L E)"
proof (cases bulk)
  case True
  then show ?thesis
    unfolding get_all_txs_sorted_bulk_def refresh_all_history_bulk_def push_progress_event_def
      bulk_refresh_step_def collect_tx_bulk_def case_prod_beta if_P [OF True]
    by (intro exec_inv) simp_all
next
  case False
  then show ?thesis
    unfolding get_all_txs_sorted_def refresh_all_history_def refresh_step_def collect_tx_def if_not_P [OF False]
    by (intro exec_inv)
qed

lemma keeps_queue_load:
  "keeps (queue_is q) (if bulk then bindE (foldE (\<lambda>tx_info ids. append_funding_txs L E (tx_id_of L tx_info) ids) txs [])
     (\<lambda>ids. load_txs_bulk E ids) else ret ())"
  unfolding append_funding_txs_def load_txs_bulk_def load_tx_def case_prod_beta by (intro exec_inv) simp_all

lemma keeps_queue_rows:
  "keeps (queue_is q) (foldE (\<lambda>tx_info rows. bindE (history_view_row L E is_testnet tx_info)
     (\<lambda>row. ret (rows @ [row]))) txs acc)"
  unfolding history_view_row_def calculate_tx_wallet_impact_def analyse_tx_balances_def balance_input_def Let_def
  by (intro exec_inv) (auto split: list.split intro!: exec_inv)

text \<open>The three phases of \<^verbatim>\<open>create_history_view_rows\<close>.\<close>

lemma create_rows_Inr:
  assumes "create_history_view_rows L E is_testnet bulk (s, w) = (Inr u, (s', w'))"
  shows "\<exists>txs t t1 rows s1.
    (if bulk then get_all_txs_sorted_bulk L E else get_all_txs_sorted L E) (s, w) = (Inr txs, t) \<and>
    (if bulk then bindE (foldE (\<lambda>tx_info ids. append_funding_txs L E (tx_id_of L tx_info) ids) txs [])
       (\<lambda>ids. load_txs_bulk E ids) else ret ()) t = (Inr (), t1) \<and>
    foldE (\<lambda>tx_info rows. bindE (history_view_row L E is_testnet tx_info) (\<lambda>row. ret (rows @ [row])))
      txs [] t1 = (Inr rows, (s1, w')) \<and>
    s' = s1\<lparr>history_queue := bq_push (fst (fill_balances rows)) (history_queue s)\<rparr>"
proof -
  from assms obtain txs t t1 rows s1 where
    txs: "(if bulk then get_all_txs_sorted_bulk L E else get_all_txs_sorted L E) (s, w) = (Inr txs, t)"
    and load: "(if bulk then bindE (foldE (\<lambda>tx_info ids. append_funding_txs L E (tx_id_of L tx_info) ids) txs [])
        (\<lambda>ids. load_txs_bulk E ids) else ret ()) t = (Inr (), t1)"
    and rows: "foldE (\<lambda>tx_info rows. bindE (history_view_row L E is_testnet tx_info) (\<lambda>row. ret (rows @ [row])))
        txs [] t1 = (Inr rows, (s1, w'))"
    and s': "s' = s1\<lparr>history_queue := bq_push (fst (fill_balances rows)) (history_queue s1)\<rparr>"
    by (cases bulk) (auto simp: create_history_view_rows_def push_history_update_def exec_simps)
  have "history_queue (fst t) = history_queue s"
    by (rule keepsD [OF keeps_queue_all_txs _ txs]) simp
  moreover have "history_queue (fst t1) = history_queue (fst t)"
    by (rule keepsD [OF keeps_queue_load _ load]) simp
  moreover have "history_queue s1 = history_queue (fst t1)"
    using keepsD [OF keeps_queue_rows _ rows, of "history_queue (fst t1)"] by simp
  ultimately show ?thesis using txs load rows s' by metis
qed

section \<open>Properties\<close>

text \<open>
  C16. The balance of an address is the value of its unspent outputs: for a history in block
  chain order in which every output is spent at most once, the four nested loops (which add
  outputs and subtract their spenders in 64-bit arithmetic) give exactly the sum of the outputs
  that pay the address and are spent by no transaction of the list.
\<close>

theorem address_balance_is_unspent_value:
  assumes "chronological items" "distinct (map spends (all_inputs items))"
    and "list_all (value_agrees items) (all_inputs items)"
    and "sum_list (map unat (unspent_values address items)) < 2 ^ 64"
  shows "unat (calc_address_balance address items) = sum_list (map unat (unspent_values address items))"
  using add_items_sum [OF assms(1-3), of address 0]
    unat_sum_list_bound [of "\<lambda>x. x" "unspent_values address items"] assms(4)
  by (simp add: calc_address_balance_def)

text \<open>A funding transaction with two outputs, one of which is spent, and its spender.\<close>

definition sample_items :: "TxBalance list" where
  "sample_items =
    [\<lparr>tb_tx_id = ''t1'', tb_inputs = [],
      tb_outputs = [\<lparr>tbo_address = ''A'', script_kind = 0, tbo_value = 5, tbo_in_wallet = True\<rparr>,
                    \<lparr>tbo_address = ''A'', script_kind = 0, tbo_value = 7, tbo_in_wallet = True\<rparr>]\<rparr>,
     \<lparr>tb_tx_id = ''t2'',
      tb_inputs = [\<lparr>funding_tx = ''t1'', funding_idx = 1, tbi_value = 7, tbi_in_wallet = True, tbi_address = ''A''\<rparr>],
      tb_outputs = [\<lparr>tbo_address = ''B'', script_kind = 0, tbo_value = 4, tbo_in_wallet = False\<rparr>,
                    \<lparr>tbo_address = ''A'', script_kind = 0, tbo_value = 2, tbo_in_wallet = True\<rparr>]\<rparr>]"

theorem address_balance_is_unspent_value_witness:
  "unat (calc_address_balance ''A'' sample_items) = 7"
proof -
  have "unspent_values ''A'' sample_items = [5, 2]"
    by (simp add: unspent_values_def sample_items_def spends_def)
  moreover have "chronological sample_items" "distinct (map spends (all_inputs sample_items))"
    "list_all (value_agrees sample_items) (all_inputs sample_items)"
    by (simp_all add: sample_items_def value_agrees_def)
  ultimately show ?thesis
    using address_balance_is_unspent_value [of sample_items "''A''"] by simp
qed

text \<open>
  The impact of a transaction on the wallet, in 64-bit arithmetic and for any mixture of
  own and foreign inputs: the balance changes by what the wallet receives minus what it
  spends; the funding amount is what goes to foreign outputs minus what foreign inputs put in
  (so with own inputs only it is exactly the amount paid away, without the fee); and delta,
  funding amount and fee cancel.
\<close>

theorem wallet_impact_accounts:
  shows "balance_delta (impact_of_items L [item]) =
      sum_list (map tbo_value (filter tbo_in_wallet (tb_outputs item))) -
      sum_list (map tbi_value (filter tbi_in_wallet (tb_inputs item))) \<and>
    funding_amount (impact_of_items L [item]) =
      sum_list (map tbo_value (filter (\<lambda>o1. \<not> tbo_in_wallet o1) (tb_outputs item))) -
      sum_list (map tbi_value (filter (\<lambda>i. \<not> tbi_in_wallet i) (tb_inputs item))) \<and>
    balance_delta (impact_of_items L [item]) + funding_amount (impact_of_items L [item]) +
      (sum_list (map tbi_value (tb_inputs item)) - sum_list (map tbo_value (tb_outputs item))) = 0 \<and>
    (twi_is_p2sh (impact_of_items L [item]) \<longleftrightarrow>
      list_ex (\<lambda>o1. script_kind o1 = lb_pay_script_hash L) (tb_outputs item))"
  using sum_list_partition [of tbo_value "tb_outputs item" tbo_in_wallet]
    sum_list_partition [of tbi_value "tb_inputs item" tbi_in_wallet]
  by (simp add: impact_of_items_def Let_def impact_item_def impact_inputs_sums impact_outputs_sums)

text \<open>
  C25. The history view: creating the rows (from single or bulk requests) queues exactly one
  update behind those already there. It has one row for each of the sorted transactions, in
  their order, with their id, height and freshness, and each row shows as its balance the sum
  of the deltas of its own transaction and of all rows below it, so the top row shows the total.
\<close>

theorem history_rows_running_balance:
  assumes "create_history_view_rows L E is_testnet bulk (s, w) = (Inr u, (s', w'))"
  shows "\<exists>rows txs t. history_queue s' = bq_push rows (history_queue s) \<and>
    (if bulk then get_all_txs_sorted_bulk L E else get_all_txs_sorted L E) (s, w) = (Inr txs, t) \<and>
    map hvr_tx_id rows = map (tx_id_of L) txs \<and> map hvr_height rows = map ti_height txs \<and>
    map hvr_fresh rows = map ti_fresh txs \<and>
    (\<forall>i < length rows. hvr_balance (rows ! i) = sum_list (map hvr_balance_delta (drop i rows)))"
proof -
  from create_rows_Inr [OF assms] obtain txs t t1 rows s1 where
    txs: "(if bulk then get_all_txs_sorted_bulk L E else get_all_txs_sorted L E) (s, w) = (Inr txs, t)"
    and rows: "foldE (\<lambda>tx_info rows. bindE (history_view_row L E is_testnet tx_info) (\<lambda>row. ret (rows @ [row])))
        txs [] t1 = (Inr rows, (s1, w'))"
    and s': "s' = s1\<lparr>history_queue := bq_push (fst (fill_balances rows)) (history_queue s)\<rparr>" by blast
  from history_rows_acc [OF rows] have ids: "map hvr_tx_id rows = map (tx_id_of L) txs"
    "map hvr_height rows = map ti_height txs" "map hvr_fresh rows = map ti_fresh txs" by simp_all
  show ?thesis
    unfolding s' using txs ids fill_balances_running [of _ rows] fill_balances_fields [of rows]
    by (intro exI [where x = "fst (fill_balances rows)"] exI [where x = txs] exI [where x = t]) simp
qed

theorem history_rows_running_balance_witness:
  "\<exists>s' rows. create_history_view_rows sample_tx_lib sample_server True False (sample_wallet, ()) = (Inr (), (s', ())) \<and>
    history_queue s' = [rows] \<and>
    (\<forall>i < length rows. hvr_balance (rows ! i) = sum_list (map hvr_balance_delta (drop i rows)))"
proof -
  let ?r = "create_history_view_rows sample_tx_lib sample_server True False (sample_wallet, ())"
  have "fst ?r = Inr ()" by code_simp
  then obtain s' where run: "?r = (Inr (), (s', ()))" by (metis prod.collapse unit.exhaust)
  have empty: "history_queue sample_wallet = []" by (simp add: sample_wallet_def)
  from history_rows_running_balance [OF run] show ?thesis
  proof (elim exE conjE)
    fix rows
    assume "history_queue s' = bq_push rows (history_queue sample_wallet)"
      and "\<forall>i < length rows. hvr_balance (rows ! i) = sum_list (map hvr_balance_delta (drop i rows))"
    with run show ?thesis
      unfolding empty bq_push_def by (intro exI [where x = s'] exI [where x = rows] conjI)
  qed
qed

text \<open>
  A transaction that waits for unconfirmed parents (height -1 in the Electrum protocol) is
  counted as confirmed: \<^verbatim>\<open>calculate_confirmed_balance\<close> includes its impact and
  \<^verbatim>\<open>unconfirmed_txs_wallet_impact\<close> leaves it out, while \<^verbatim>\<open>calculate_address_balance\<close> treats it
  as unconfirmed.
\<close>

theorem negative_height_counts_as_confirmed:
  assumes "get_all_txs_sorted L E (s, w) = (Inr [ti], (s1, w1))" "ti_height ti = -1"
    and "calculate_tx_wallet_impact L E is_testnet (tx_id_of L ti) (s1, w1) = (Inr impact, (s2, w2))"
  shows "unconfirmed_txs_wallet_impact L E is_testnet (s, w) = (Inr 0, (s1, w1)) \<and>
    calculate_confirmed_balance L E is_testnet (s, w) = (Inr (balance_delta impact), (s2, w2))"
  using assms
  by (simp add: unconfirmed_txs_wallet_impact_def calculate_confirmed_balance_def sum_impacts_def unsigned_add_def
      bindE_def)

text \<open>The sample server with one transaction in the mempool whose parents are not confirmed.\<close>

definition sample_mempool :: "(unit, unit) ElectrumInterface" where
  "sample_mempool = sample_server\<lparr>ei_getHistory :=
     \<lambda>_. ret [\<lparr>ahi_txid = ''a'', ahi_height = -1, ahi_fresh = False\<rparr>]\<rparr>"

theorem negative_height_counts_as_confirmed_witness:
  "fst (unconfirmed_txs_wallet_impact sample_tx_lib sample_mempool True (sample_wallet, ())) = Inr 0"
proof -
  let ?r = "get_all_txs_sorted sample_tx_lib sample_mempool (sample_wallet, ())"
  let ?tx = "\<lparr>tx_version = 1, tx_locktime = 0, tx_inputs = [], tx_outputs = []\<rparr> :: transaction"
  let ?ti = "\<lparr>ti_tx = ?tx, ti_height = -1, ti_fresh = True\<rparr>"
  have "fst ?r = Inr [?ti]" by code_simp
  then obtain s1 where r: "?r = (Inr [?ti], (s1, ()))" by (metis prod.collapse unit.exhaust)
  have id1: "tx_id_of sample_tx_lib ?ti = [char_of (1 :: nat)]"
    by (simp add: tx_id_of_def sample_tx_lib_def sample_lb del: One_nat_def)
  obtain p s2 where a: "analyse_tx_balances sample_tx_lib sample_mempool True [char_of (1 :: nat)] [] (s1, ()) = (Inr p, (s2, ()))"
  proof -
    have "\<exists>s2. get_transaction sample_tx_lib sample_mempool [char_of (1 :: nat)] (s1, ()) = (Inr ?tx, (s2, ()))"
    proof (cases "known_txhex s1 [char_of (1 :: nat)] = []")
      case True
      obtain x s2 where g: "get_transaction sample_tx_lib sample_mempool [char_of (1 :: nat)] (s1, ()) = (x, (s2, ()))"
        by (metis prod.collapse unit.exhaust)
      have "ei_getTransaction sample_mempool [char_of (1 :: nat)] () = (Inr [char_of (1 :: nat)], ())"
        by (simp add: sample_mempool_def sample_server_def)
      from get_transaction_fetched [OF True g this] g show ?thesis
        by (simp add: hex_2_tx_def sample_tx_lib_def)
    next
      case False
      then show ?thesis by (simp add: get_transaction_cached hex_2_tx_def sample_tx_lib_def)
    qed
    then show ?thesis using that by (auto simp: analyse_tx_balances_def bindE_def)
  qed
  have ti: "ti_height ?ti = -1" by simp
  from a id1 have "calculate_tx_wallet_impact sample_tx_lib sample_mempool True (tx_id_of sample_tx_lib ?ti) (s1, ()) =
      (Inr (impact_of_items sample_tx_lib p), (s2, ()))"
    by (simp add: calculate_tx_wallet_impact_def bindE_def)
  from negative_height_counts_as_confirmed [OF r ti this] show ?thesis by simp
qed

end
