(* ===== verification/WalletViews.thy ===== *)
theory WalletViews
  imports HistoryInspector
begin

text \<open>
  What the caches of \<^verbatim>\<open>WalletState\<close> promise to the operations of \<^verbatim>\<open>HistoryInspector\<close>: an
  operation that returned can be repeated without the server, and the balances and history rows
  computed from the caches agree. The calculus below lifts this from the two cached lookups to
  the operations built from them, in the style of the invariant calculus of the prelude.
\<close>

section \<open>Knowing more\<close>

text \<open>\<^verbatim>\<open>t\<close> still knows every settled history and every cached transaction of \<^verbatim>\<open>s\<close>.\<close>

definition extends :: "'w WalletState \<Rightarrow> 'w WalletState \<Rightarrow> bool" where
  "extends s t \<longleftrightarrow> ws_addresses t = ws_addresses s \<and>
     (\<forall>a. settled s a \<longrightarrow> settled t a \<and> known_history t a = known_history s a) \<and>
     (\<forall>u. known_txhex s u \<noteq> [] \<longrightarrow> known_txhex t u = known_txhex s u)"

lemma extends_refl [simp]: "extends s s"
  by (simp add: extends_def)

lemma extends_trans: "extends s t \<Longrightarrow> extends t u \<Longrightarrow> extends s u"
  by (simp add: extends_def)

text \<open>In every state that knows as much as \<^verbatim>\<open>s\<close>, \<^verbatim>\<open>m\<close> gives \<^verbatim>\<open>x\<close>, up to \<^verbatim>\<open>R\<close>, and leaves the
  world alone.\<close>

definition answers :: "('a \<Rightarrow> 'b \<Rightarrow> bool) \<Rightarrow> ('w WalletState \<times> 'w, 'b) exec \<Rightarrow> 'w WalletState \<Rightarrow> 'a \<Rightarrow> bool" where
  "answers R m s x \<longleftrightarrow> (\<forall>t w. coherent t \<longrightarrow> extends s t \<longrightarrow>
     (\<exists>y t'. m (t, w) = (Inr y, (t', w)) \<and> R x y \<and> coherent t' \<and> extends t t'))"

text \<open>When \<^verbatim>\<open>m\<close> has returned, \<^verbatim>\<open>n\<close> answers the same from then on.\<close>

definition learns ::
    "('a \<Rightarrow> 'b \<Rightarrow> bool) \<Rightarrow> ('w WalletState \<times> 'w, 'a) exec \<Rightarrow> ('w WalletState \<times> 'w, 'b) exec \<Rightarrow> bool" where
  "learns R m n \<longleftrightarrow> (\<forall>s w x s' w'. m (s, w) = (Inr x, (s', w')) \<longrightarrow> coherent s \<longrightarrow>
     coherent s' \<and> extends s s' \<and> answers R n s' x)"

named_theorems learn \<open>rules that lift repeatability through the combinators\<close>

lemma answersD:
  assumes "answers R m s x" "coherent t" "extends s t"
  obtains y t' where "m (t, w) = (Inr y, (t', w))" "R x y" "coherent t'" "extends t t'"
  using assms unfolding answers_def by blast

lemma learnsD:
  assumes "learns R m n" "m (s, w) = (Inr x, (s', w'))" "coherent s"
  shows "coherent s'" "extends s s'" "answers R n s' x"
  using assms unfolding learns_def by blast+

lemma answers_extends: "answers R m s x \<Longrightarrow> extends s t \<Longrightarrow> answers R m t x"
  unfolding answers_def using extends_trans by blast

lemma answers_bind:
  assumes "answers R m s x" "\<And>y. R x y \<Longrightarrow> answers R' (f y) s z"
  shows "answers R' (bindE m f) s z"
  unfolding answers_def
proof (intro allI impI)
  fix t w assume t: "coherent t" "extends s t"
  from assms(1) t obtain y t' where y: "m (t, w) = (Inr y, (t', w))" "R x y" "coherent t'" "extends t t'"
    by (rule answersD)
  from assms(2) [OF y(2)] y(3) extends_trans [OF t(2) y(4)] obtain z' t'' where
    "f y (t', w) = (Inr z', (t'', w))" "R' z z'" "coherent t''" "extends t' t''" by (rule answersD)
  with y show "\<exists>z' t'. bindE m f (t, w) = (Inr z', (t', w)) \<and> R' z z' \<and> coherent t' \<and> extends t t'"
    using extends_trans by (auto simp: bindE_def)
qed

lemma answers_ret: "R x y \<Longrightarrow> answers R (ret y) s x"
  by (simp add: answers_def)

subsection \<open>The combinators\<close>

lemma learns_ret [learn]: "R x y \<Longrightarrow> learns R (ret x) (ret y)"
  by (simp add: learns_def answers_def)

lemma learns_throw [learn]: "learns R (throw e) n"
  by (simp add: learns_def)

lemma learns_liftR: "learns (=) (liftR r) (liftR r)"
  by (simp add: learns_def answers_def)

lemma learns_getS: "(\<And>s t v w. extends s t \<Longrightarrow> R (f (s, v)) (g (t, w))) \<Longrightarrow> learns R (getS f) (getS g)"
  by (simp add: learns_def answers_def)

lemma learns_addresses: "learns (=) (getS (\<lambda>(s, w). ws_addresses s)) (getS (\<lambda>(s, w). ws_addresses s))"
  by (rule learns_getS) (simp add: extends_def)

lemma learns_bind:
  assumes "learns R m n" "\<And>x y. R x y \<Longrightarrow> learns R' (f x) (g y)"
  shows "learns R' (bindE m f) (bindE n g)"
  unfolding learns_def
proof (intro allI impI)
  fix s w z s' w' assume run: "bindE m f (s, w) = (Inr z, (s', w'))" and s: "coherent s"
  from run obtain x s1 w1 where x: "m (s, w) = (Inr x, (s1, w1))" "f x (s1, w1) = (Inr z, (s', w'))"
    by (auto simp: bindE_Inr_iff)
  note one = learnsD [OF assms(1) x(1) s]
  obtain y0 where "R x y0" using answersD [OF one(3,1) extends_refl] by blast
  note two = learnsD(1,2) [OF assms(2) [OF this] x(2) one(1)]
  have "answers R' (g y) s' z" if "R x y" for y
    using learnsD(3) [OF assms(2) [OF that] x(2) one(1)] .
  from answers_bind [where f = g, OF answers_extends [OF one(3) two(2)] this] two extends_trans [OF one(2)]
  show "coherent s' \<and> extends s s' \<and> answers R' (bindE n g) s' z" by blast
qed

lemma learns_bind_eq [learn]:
  "learns (=) m n \<Longrightarrow> (\<And>x. learns R (f x) (g x)) \<Longrightarrow> learns R (bindE m f) (bindE n g)"
  by (rule learns_bind [where R = "(=)"]) simp_all

lemma learns_if [learn]: "learns R m n \<Longrightarrow> learns R m' n' \<Longrightarrow> learns R (if c then m else m') (if c then n else n')"
  by simp

lemma learns_foldE:
  assumes "list_all2 Q xs ys" "R a b"
    and "\<And>x y a b. Q x y \<Longrightarrow> R a b \<Longrightarrow> learns R (f x a) (g y b)"
  shows "learns R (foldE f xs a) (foldE g ys b)"
  using assms(1,2)
proof (induction xs ys arbitrary: a b rule: list_all2_induct)
  case Nil
  then show ?case unfolding foldE.simps by (intro learns_ret)
next
  case (Cons x xs y ys)
  then show ?case unfolding foldE.simps by (intro learns_bind [of R] assms(3)) simp_all
qed

lemma learns_foldE_eq [learn]:
  assumes "\<And>x a. learns (=) (f x a) (g x a)"
  shows "learns (=) (foldE f xs a) (foldE g xs a)"
  by (rule learns_foldE [where Q = "(=)"]) (simp_all add: assms list_all2_refl)

lemmas [learn] = learns_liftR learns_addresses

section \<open>The cached lookups\<close>

lemma same_histories_extends:
  assumes "same_histories s s'" "\<forall>u. known_txhex s u \<noteq> [] \<longrightarrow> known_txhex s' u = known_txhex s u"
  shows "extends s s'"
  using assms by (auto simp: extends_def same_histories_def settled_def known_history_def)

lemma learns_get_transaction:
  assumes "hex_2_tx L [] = Inl e"
  shows "learns (=) (get_transaction L E txid) (get_transaction L E' txid)"
  unfolding learns_def
proof (intro allI impI)
  fix s w x s' w'
  assume get: "get_transaction L E txid (s, w) = (Inr x, (s', w'))" and s: "coherent s"
  from get_transaction_spec [OF get] have x: "hex_2_tx L (known_txhex s' txid) = Inr x" "same_histories s s'"
    "\<forall>u. known_txhex s u \<noteq> [] \<longrightarrow> known_txhex s' u = known_txhex s u" by auto
  with assms have "known_txhex s' txid \<noteq> []" by auto
  then have "answers (=) (get_transaction L E' txid) s' x"
    using x(1) by (auto simp: answers_def extends_def get_transaction_cached)
  with x s show "coherent s' \<and> extends s s' \<and> answers (=) (get_transaction L E' txid) s' x"
    using same_histories_simps(4) same_histories_extends by blast
qed

text \<open>Histories are equal up to the \<^verbatim>\<open>fresh\<close> flags.\<close>

definition same_items :: "AddressHistoryItem list \<Rightarrow> AddressHistoryItem list \<Rightarrow> bool" where
  "same_items xs ys \<longleftrightarrow> mark_fresh False xs = mark_fresh False ys"

lemma get_history_txhex:
  assumes "get_history L E a items (s, w) = (r, (s', w'))"
  shows "known_txhex s' = known_txhex s"
proof -
  have "keeps (\<lambda>p. known_txhex (fst p) = known_txhex s) (get_history L E a items)"
    unfolding get_history_def Let_def
    by (intro exec_inv) (auto simp: keeps_def index_history_empty_def index_history_def store_history_def
        store_history_empty_def known_txhex_def fun_eq_iff split: prod.splits)
  from keepsD [OF this _ assms] show ?thesis by simp
qed

lemma get_history_settled:
  assumes "coherent t" "settled t a"
  shows "\<exists>t'. get_history L E a [] (t, w) = (Inr (mark_fresh False (known_history t a)), (t', w)) \<and>
    coherent t' \<and> extends t t'"
proof (cases "address_2_history_cache_empty t a = Some True")
  case True
  with assms(1) show ?thesis by (auto simp: get_history_flagged coherent_def)
next
  case False
  with assms(2) have "known_history t a \<noteq> []" by (simp add: settled_def)
  from get_history_cached [OF False this, of L E "[]" w] obtain m where
    m: "get_history L E a [] (t, w) = (Inr (mark_fresh False (known_history t a)),
      (t\<lparr>address_2_history_cache_empty := m\<rparr>, w))"
    "\<forall>b. m b = Some True \<longleftrightarrow> address_2_history_cache_empty t b = Some True" by auto
  with assms(1) show ?thesis
    by (auto simp: coherent_def extends_def settled_def known_history_def known_txhex_def)
qed

lemma learns_get_history: "learns same_items (get_history L E a []) (get_history L E' a [])"
  unfolding learns_def
proof (intro allI impI)
  fix s w x s' w'
  assume get: "get_history L E a [] (s, w) = (Inr x, (s', w'))" and s: "coherent s"
  note spec = get_history_spec [OF get s] get_history_same_entries [OF get s] get_history_txhex [OF get]
  have "extends s s'" using spec by (simp add: extends_def)
  moreover have "answers same_items (get_history L E' a []) s' x"
    unfolding answers_def
  proof (intro allI impI)
    fix t w assume t: "coherent t" "extends s' t"
    with spec have "settled t a" "known_history t a = known_history s' a" by (auto simp: extends_def)
    with get_history_settled [OF t(1), of a L E' w] spec(2)
    show "\<exists>y t'. get_history L E' a [] (t, w) = (Inr y, (t', w)) \<and> same_items x y \<and> coherent t' \<and> extends t t'"
      by (auto simp: same_items_def)
  qed
  ultimately show "coherent s' \<and> extends s s' \<and> answers same_items (get_history L E' a []) s' x"
    using spec(1) by simp
qed

section \<open>The operations\<close>

lemma learns_history_state:
  "learns (=) (set_all_history items) (set_all_history items')"
  "learns (=) sort_all_history sort_all_history"
  unfolding learns_def answers_def set_all_history_def sort_all_history_def modifyS_eval
  by (auto simp: coherent_def extends_def settled_def known_history_def known_txhex_def)

lemma mark_fresh_insert: "mark_fresh b (ahi_insert x ys) = ahi_insert (hd (mark_fresh b [x])) (mark_fresh b ys)"
  by (induction x ys rule: ahi_insert.induct) (simp_all add: mark_fresh_def)

lemma mark_fresh_fold_insert:
  "mark_fresh b (fold ahi_insert xs ys) = fold ahi_insert (mark_fresh b xs) (mark_fresh b ys)"
proof (induction xs arbitrary: ys)
  case (Cons x xs)
  have "mark_fresh b (x # xs) = hd (mark_fresh b [x]) # mark_fresh b xs" by (simp add: mark_fresh_def)
  with Cons show ?case by (simp add: mark_fresh_insert)
qed simp

lemma map_insert_before:
  "(\<And>x y. lt (f x) (f y) = lt x y) \<Longrightarrow> map f (insert_before lt x ys) = insert_before lt (f x) (map f ys)"
  by (induction ys) simp_all

lemma map_std_sort: "(\<And>x y. lt (f x) (f y) = lt x y) \<Longrightarrow> map f (std_sort lt xs) = std_sort lt (map f xs)"
  by (induction xs) (simp_all add: std_sort_def map_insert_before)

lemma mark_fresh_sort: "mark_fresh b (std_sort history_before xs) = std_sort history_before (mark_fresh b xs)"
  unfolding mark_fresh_def by (rule map_std_sort) (simp add: history_before_def)

lemma same_items_all2:
  "same_items xs ys \<longleftrightarrow> list_all2 (\<lambda>x y. ahi_txid x = ahi_txid y \<and> ahi_height x = ahi_height y) xs ys"
  unfolding same_items_def mark_fresh_def
  by (induction xs arbitrary: ys) (auto simp: list_all2_Cons1 Cons_eq_map_conv)

lemma learns_refresh_step:
  "same_items acc acc' \<Longrightarrow> learns same_items (refresh_step L E a acc) (refresh_step L E' a acc')"
  unfolding refresh_step_def
  by (rule learns_bind [OF learns_get_history], rule learns_ret)
     (simp add: same_items_def mark_fresh_fold_insert)

text \<open>Reading the combined history back right after it was set and sorted.\<close>

lemma set_sort_get:
  "bindE (set_all_history items) (\<lambda>_. bindE sort_all_history (\<lambda>_. bindE (getS (\<lambda>(s, w). all_history s)) K)) =
   bindE (set_all_history items) (\<lambda>_. bindE sort_all_history (\<lambda>_. K (std_sort history_before items)))"
  by (auto simp: fun_eq_iff bindE_def set_all_history_def sort_all_history_def)

definition same_tx :: "TransactionInfo \<Rightarrow> TransactionInfo \<Rightarrow> bool" where
  "same_tx x y \<longleftrightarrow> ti_tx x = ti_tx y \<and> ti_height x = ti_height y"

lemma learns_get_all_txs_sorted:
  assumes "hex_2_tx L [] = Inl e"
  shows "learns (list_all2 same_tx) (get_all_txs_sorted L E) (get_all_txs_sorted L E')"
proof -
  have collect: "learns (list_all2 same_tx) (collect_tx L E x txs) (collect_tx L E' y txs')"
    if "ahi_txid x = ahi_txid y \<and> ahi_height x = ahi_height y" "list_all2 same_tx txs txs'" for x y txs txs'
    using that unfolding collect_tx_def
    by (auto intro!: learn learns_get_transaction [OF assms] list_all2_appendI simp: same_tx_def simp del: ret_eval)
  have loop: "learns same_items (foldE (refresh_step L E) as []) (foldE (refresh_step L E') as [])" for as
    by (rule learns_foldE [where Q = "(=)"]) (auto intro: learns_refresh_step simp: same_items_def list_all2_refl)
  have rest: "learns (list_all2 same_tx)
      (foldE (collect_tx L E) (std_sort history_before xs) [])
      (foldE (collect_tx L E') (std_sort history_before ys) [])" if "same_items xs ys" for xs ys
    using that by (intro learns_foldE [OF _ _ collect])
      (simp_all add: same_items_all2 [symmetric] same_items_def mark_fresh_sort)
  show ?thesis
    unfolding get_all_txs_sorted_def refresh_all_history_def bindE_assoc set_sort_get
    by (intro learns_bind_eq learns_addresses learns_bind [OF loop] learns_history_state rest)
qed

lemma extends_in_wallet: "extends s t \<Longrightarrow> is_in_wallet t = is_in_wallet s"
  by (simp add: fun_eq_iff is_in_wallet_def extends_def)

definition input_row :: "libbitcoin \<Rightarrow> bool \<Rightarrow> txin \<Rightarrow> txout \<Rightarrow> (string \<Rightarrow> bool) \<Rightarrow> TxBalanceInput" where
  "input_row L is_testnet i prev inside =
     (case get_addresses L is_testnet prev of
        ax # _ \<Rightarrow> \<lparr>funding_tx = lb_encode_hash L (op_hash (previous_output i)),
             funding_idx = sint (op_index (previous_output i)), tbi_value = out_value prev,
             tbi_in_wallet = inside (lb_encoded L ax), tbi_address = lb_encoded L ax\<rparr>
      | [] \<Rightarrow> \<lparr>funding_tx = lb_encode_hash L (op_hash (previous_output i)),
             funding_idx = sint (op_index (previous_output i)), tbi_value = out_value prev,
             tbi_in_wallet = False, tbi_address = []\<rparr>)"

lemma balance_input_rows:
  "balance_input L E is_testnet i =
     bindE (get_transaction L E (lb_encode_hash L (op_hash (previous_output i)))) (\<lambda>ftx.
     bindE (liftR (at_index (tx_outputs ftx) (sint (op_index (previous_output i))))) (\<lambda>prev.
     bindE (getS (\<lambda>(s, w). s)) (\<lambda>s. ret (input_row L is_testnet i prev (is_in_wallet s)))))"
  by (auto simp: balance_input_def input_row_def Let_def fun_eq_iff bindE_def
      split: prod.splits sum.splits list.splits)

lemma learns_in_wallet:
  "learns (=) (bindE (getS (\<lambda>(s, w). s)) (\<lambda>s. ret (f (is_in_wallet s))))
     (bindE (getS (\<lambda>(s, w). s)) (\<lambda>s. ret (f (is_in_wallet s))))"
  by (auto simp: learns_def answers_def bindE_def extends_in_wallet)

lemma learns_analyse:
  assumes "hex_2_tx L [] = Inl e"
  shows "learns (=) (analyse_tx_balances L E is_testnet txid items) (analyse_tx_balances L E' is_testnet txid items)"
proof -
  note tx = learns_get_transaction [OF assms]
  have "learns (=) (balance_input L E is_testnet i) (balance_input L E' is_testnet i)" for i
    unfolding balance_input_rows
    by (rule learns_bind_eq [OF tx], rule learns_bind_eq [OF learns_liftR], rule learns_in_wallet)
  moreover have "learns (=) (getS (\<lambda>(s, w). map (balance_output L is_testnet s) outs))
      (getS (\<lambda>(s, w). map (balance_output L is_testnet s) outs))" for outs
    by (rule learns_getS) (simp add: balance_output_def is_in_wallet_def extends_def split: list.splits)
  ultimately show ?thesis
    unfolding analyse_tx_balances_def by (intro learn tx refl)
qed

lemma learns_impact:
  "hex_2_tx L [] = Inl e \<Longrightarrow>
   learns (=) (calculate_tx_wallet_impact L E is_testnet txid) (calculate_tx_wallet_impact L E' is_testnet txid)"
  unfolding calculate_tx_wallet_impact_def by (intro learn learns_analyse refl)

lemma tx_id_of_same: "same_tx x y \<Longrightarrow> tx_id_of L x = tx_id_of L y"
  by (simp add: same_tx_def tx_id_of_def)

lemma learns_sum_impacts:
  assumes "hex_2_tx L [] = Inl e" "list_all2 same_tx txs txs'"
  shows "learns (=) (sum_impacts L E is_testnet add ok txs) (sum_impacts L E' is_testnet add ok txs')"
  unfolding sum_impacts_def
proof (rule learns_foldE [OF assms(2)])
  fix x y and a b :: u64
  assume "same_tx x y" "a = b"
  then show "learns (=)
      (if ok (ti_height x) then bindE (calculate_tx_wallet_impact L E is_testnet (tx_id_of L x))
         (\<lambda>impact. liftR (add a (balance_delta impact))) else ret a)
      (if ok (ti_height y) then bindE (calculate_tx_wallet_impact L E' is_testnet (tx_id_of L y))
         (\<lambda>impact. liftR (add b (balance_delta impact))) else ret b)"
    using tx_id_of_same [of x y L] by (auto simp: same_tx_def simp del: ret_eval intro!: learn learns_impact [OF assms(1)])
qed simp

lemma learns_address_balance:
  assumes "hex_2_tx L [] = Inl e"
  shows "learns (=) (calculate_address_balance L E is_testnet a unconfirmed_only)
    (calculate_address_balance L E' is_testnet a unconfirmed_only)"
  unfolding calculate_address_balance_def
proof (rule learns_bind [OF learns_get_history])
  fix xs ys assume "same_items xs ys"
  then have "learns (=)
     (foldE (\<lambda>item items. if \<not> unconfirmed_only \<or> ahi_height item \<le> 0
        then analyse_tx_balances L E is_testnet (ahi_txid item) items else ret items) xs [])
     (foldE (\<lambda>item items. if \<not> unconfirmed_only \<or> ahi_height item \<le> 0
        then analyse_tx_balances L E' is_testnet (ahi_txid item) items else ret items) ys [])"
    unfolding same_items_all2
    by (rule learns_foldE) (auto intro!: learn learns_analyse [OF assms] simp del: ret_eval)
  then show "learns (=)
     (bindE (foldE (\<lambda>item items. if \<not> unconfirmed_only \<or> ahi_height item \<le> 0
        then analyse_tx_balances L E is_testnet (ahi_txid item) items else ret items) xs [])
        (\<lambda>items. ret (calc_address_balance a items)))
     (bindE (foldE (\<lambda>item items. if \<not> unconfirmed_only \<or> ahi_height item \<le> 0
        then analyse_tx_balances L E' is_testnet (ahi_txid item) items else ret items) ys [])
        (\<lambda>items. ret (calc_address_balance a items)))"
    by (intro learn refl)
qed

lemma learns_total_balance:
  "hex_2_tx L [] = Inl e \<Longrightarrow> learns (=) (calculate_total_balance L E is_testnet unconfirmed_only)
    (calculate_total_balance L E' is_testnet unconfirmed_only)"
  unfolding calculate_total_balance_def by (intro learn learns_address_balance refl)

lemma learns_confirmed_balance:
  assumes "hex_2_tx L [] = Inl e"
  shows "learns (=) (calculate_confirmed_balance L E is_testnet) (calculate_confirmed_balance L E' is_testnet)"
  unfolding calculate_confirmed_balance_def
  by (rule learns_bind [OF learns_get_all_txs_sorted [OF assms]], rule learns_sum_impacts [OF assms])

lemma learns_again:
  assumes "learns (=) m n" "m (s, w) = (Inr x, (s1, w1))" "coherent s" "coherent t" "extends s1 t"
  shows "\<exists>t'. n (t, v) = (Inr x, (t', v)) \<and> coherent t' \<and> extends t t'"
  using learnsD(3) [OF assms(1-3)] assms(4,5) by (auto elim: answersD)

section \<open>The rows and the balances\<close>

text \<open>A row holds what the impact of its transaction will be from now on.\<close>

definition row_answers ::
    "libbitcoin \<Rightarrow> ('j, 'w) ElectrumInterface \<Rightarrow> bool \<Rightarrow> 'w WalletState \<Rightarrow> TransactionInfo \<Rightarrow> HistoryViewRow \<Rightarrow> bool" where
  "row_answers L E is_testnet s tx_info row \<longleftrightarrow> hvr_height row = ti_height tx_info \<and>
     answers (\<lambda>d impact. balance_delta impact = d) (calculate_tx_wallet_impact L E is_testnet (tx_id_of L tx_info)) s
       (hvr_balance_delta row)"

lemma row_answers_extends:
  "row_answers L E is_testnet s tx_info row \<Longrightarrow> extends s t \<Longrightarrow> row_answers L E is_testnet t tx_info row"
  by (auto simp: row_answers_def intro: answers_extends)

lemma history_view_row_learned:
  assumes "hex_2_tx L [] = Inl e" "history_view_row L E is_testnet tx_info (s, w) = (Inr row, (s', w'))" "coherent s"
  shows "coherent s' \<and> extends s s' \<and> row_answers L E' is_testnet s' tx_info row"
proof -
  from assms(2) obtain impact where
    run: "calculate_tx_wallet_impact L E is_testnet (tx_id_of L tx_info) (s, w) = (Inr impact, (s', w'))" and
    row: "hvr_height row = ti_height tx_info" "hvr_balance_delta row = balance_delta impact"
    by (auto simp: history_view_row_def exec_simps)
  from learnsD [OF learns_impact [OF assms(1), of E is_testnet _ E'] run assms(3)] row show ?thesis
    unfolding row_answers_def answers_def by fastforce
qed

lemma history_rows_learned:
  assumes "hex_2_tx L [] = Inl e" "coherent s"
    and "foldE (\<lambda>tx_info rows. bindE (history_view_row L E is_testnet tx_info) (\<lambda>row. ret (rows @ [row])))
      txs acc (s, w) = (Inr rows', (s', w'))"
  shows "\<exists>rows. rows' = acc @ rows \<and> coherent s' \<and> extends s s' \<and> list_all2 (row_answers L E' is_testnet s') txs rows"
  using assms(2,3)
proof (induction txs arbitrary: acc s w)
  case Nil
  then show ?case by simp
next
  case (Cons tx_info txs)
  from Cons.prems(2) obtain row s1 w1 where
    one: "history_view_row L E is_testnet tx_info (s, w) = (Inr row, (s1, w1))" and
    rest: "foldE (\<lambda>tx_info rows. bindE (history_view_row L E is_testnet tx_info) (\<lambda>row. ret (rows @ [row])))
      txs (acc @ [row]) (s1, w1) = (Inr rows', (s', w'))"
    by (auto simp only: foldE.simps bindE_Inr_iff ret_Inr_iff)
  from history_view_row_learned [OF assms(1) one Cons.prems(1)] have
    l: "coherent s1" "extends s s1" "row_answers L E' is_testnet s1 tx_info row" by auto
  from Cons.IH [OF l(1) rest] obtain rows where "rows' = (acc @ [row]) @ rows" "coherent s'" "extends s1 s'"
    "list_all2 (row_answers L E' is_testnet s') txs rows" by blast
  with l show ?case
    by (intro exI [where x = "row # rows"]) (auto intro: extends_trans row_answers_extends)
qed

text \<open>The sums are computed from the caches, or fail as the addition does.\<close>

lemma sum_impacts_answers:
  assumes "list_all2 (row_answers L E is_testnet s) txs rows" "list_all2 same_tx txs txs'"
    and "coherent t" "extends s t"
  shows "\<exists>t'. sum_impacts L E is_testnet add ok txs' (t, w) =
      (total_of add (map hvr_balance_delta (filter (\<lambda>r. ok (hvr_height r)) rows)), (t', w)) \<and>
    coherent t' \<and> extends t t'"
proof -
  let ?step = "\<lambda>tx_info balance. if ok (ti_height tx_info)
       then bindE (calculate_tx_wallet_impact L E is_testnet (tx_id_of L tx_info)) (\<lambda>impact.
            liftR (add balance (balance_delta impact)))
       else ret balance"
  have "\<exists>t'. foldE ?step txs' b (t, w) =
      (foldR (\<lambda>d b. add b d) (map hvr_balance_delta (filter (\<lambda>r. ok (hvr_height r)) rows)) b, (t', w)) \<and>
      coherent t' \<and> extends t t'" for b
    using assms
  proof (induction txs rows arbitrary: b t txs' rule: list_all2_induct)
    case Nil
    then show ?case by auto
  next
    case (Cons tx txs row rows)
    then obtain tx' txs'' where txs': "txs' = tx' # txs''" "same_tx tx tx'" "list_all2 same_tx txs txs''"
      by (auto simp: list_all2_Cons1)
    from Cons.hyps(1) txs'(2) have row: "hvr_height row = ti_height tx'"
      "answers (\<lambda>d impact. balance_delta impact = d)
        (calculate_tx_wallet_impact L E is_testnet (tx_id_of L tx')) s (hvr_balance_delta row)"
      using tx_id_of_same [OF txs'(2), of L] by (auto simp: row_answers_def same_tx_def)
    show ?case
    proof (cases "ok (hvr_height row)")
      case False
      with Cons.IH [OF txs'(3) Cons.prems(2,3)] txs'(1) row(1) show ?thesis by simp
    next
      case True
      obtain impact t1 where one: "calculate_tx_wallet_impact L E is_testnet (tx_id_of L tx') (t, w) = (Inr impact, (t1, w))"
        "balance_delta impact = hvr_balance_delta row" "coherent t1" "extends t t1"
        by (rule answersD [OF row(2) Cons.prems(2,3)]) blast
      show ?thesis
      proof (cases "add b (hvr_balance_delta row)")
        case (Inl e)
        with one True txs'(1) row(1) show ?thesis by (simp add: bindE_def)
      next
        case (Inr b')
        note ih = Cons.IH [OF txs'(3) one(3) extends_trans [OF Cons.prems(3) one(4)], of b']
        with Inr one True txs'(1) row(1) show ?thesis by (auto simp: bindE_def intro: extends_trans)
      qed
    qed
  qed
  from this [of 0] show ?thesis by (simp add: sum_impacts_def total_of_def)
qed

lemma fill_balances_split:
  "map hvr_balance_delta (filter (\<lambda>r. ok (hvr_height r)) (fst (fill_balances rows))) =
     map hvr_balance_delta (filter (\<lambda>r. ok (hvr_height r)) rows)"
  "sum_list (map hvr_balance_delta (filter (\<lambda>r. hvr_height r \<noteq> 0) rows)) +
     sum_list (map hvr_balance_delta (filter (\<lambda>r. hvr_height r = 0) rows)) =
     (case fst (fill_balances rows) of [] \<Rightarrow> 0 | r # rs \<Rightarrow> hvr_balance r)"
proof -
  show "map hvr_balance_delta (filter (\<lambda>r. ok (hvr_height r)) (fst (fill_balances rows))) =
     map hvr_balance_delta (filter (\<lambda>r. ok (hvr_height r)) rows)"
    by (induction rows) (simp_all add: case_prod_beta Let_def)
  have "sum_list (map hvr_balance_delta (filter (\<lambda>r. hvr_height r \<noteq> 0) rows)) +
     sum_list (map hvr_balance_delta (filter (\<lambda>r. hvr_height r = 0) rows)) = sum_list (map hvr_balance_delta rows)"
    by (induction rows) (simp_all add: algebra_simps)
  moreover have "sum_list (map hvr_balance_delta rows) =
      (case fst (fill_balances rows) of [] \<Rightarrow> 0 | r # rs \<Rightarrow> hvr_balance r)"
    by (cases rows) (simp_all add: case_prod_beta Let_def fill_balances_snd)
  ultimately show "sum_list (map hvr_balance_delta (filter (\<lambda>r. hvr_height r \<noteq> 0) rows)) +
     sum_list (map hvr_balance_delta (filter (\<lambda>r. hvr_height r = 0) rows)) =
     (case fst (fill_balances rows) of [] \<Rightarrow> 0 | r # rs \<Rightarrow> hvr_balance r)" by simp
qed

section \<open>Properties\<close>

text \<open>
  C26. Balances can be computed again without the server, from coherent caches: once the balance of an
  address, the total and the confirmed balance have been computed, in that order, computing them again
  gives the same numbers, whatever client is used, without a call to it.
\<close>

theorem balances_are_repeatable:
  assumes "hex_2_tx L [] = Inl e" "coherent s"
    and "calculate_address_balance L E is_testnet a unconfirmed_only (s, w) = (Inr b, (s1, w1))"
    and "calculate_total_balance L E is_testnet unconfirmed_only (s1, w1) = (Inr sum_of_all, (s2, w2))"
    and "calculate_confirmed_balance L E is_testnet (s2, w2) = (Inr c, (s3, w3))"
  shows "\<exists>t1 t2 t3.
    calculate_address_balance L E' is_testnet a unconfirmed_only (s3, v) = (Inr b, (t1, v)) \<and>
    calculate_total_balance L E' is_testnet unconfirmed_only (t1, v) = (Inr sum_of_all, (t2, v)) \<and>
    calculate_confirmed_balance L E' is_testnet (t2, v) = (Inr c, (t3, v))"
proof -
  note l = learns_address_balance [OF assms(1)] learns_total_balance [OF assms(1)] learns_confirmed_balance [OF assms(1)]
  note a = learnsD(1,2) [OF l(1) assms(3,2)]
  note b = learnsD(1,2) [OF l(2) assms(4) a(1)]
  note c = learnsD(1,2) [OF l(3) assms(5) b(1)]
  from learns_again [OF l(1) assms(3,2) c(1) extends_trans [OF b(2) c(2)], of E' v] obtain t1 where
    t1: "calculate_address_balance L E' is_testnet a unconfirmed_only (s3, v) = (Inr b, (t1, v))"
    "coherent t1" "extends s3 t1" by blast
  from learns_again [OF l(2) assms(4) a(1) t1(2) extends_trans [OF c(2) t1(3)], of E' v] obtain t2 where
    t2: "calculate_total_balance L E' is_testnet unconfirmed_only (t1, v) = (Inr sum_of_all, (t2, v))"
    "coherent t2" "extends t1 t2" by blast
  from learns_again [OF l(3) assms(5) b(1) t2(2) extends_trans [OF t1(3) t2(3)], of E' v] t1 t2
  show ?thesis by blast
qed

theorem balances_are_repeatable_witness:
  "\<exists>s3 b t1. calculate_address_balance sample_tx_lib sample_server True ''A'' False (s3, ()) = (Inr b, (t1, ()))"
proof -
  let ?a = "calculate_address_balance sample_tx_lib sample_server True ''A'' False"
  let ?t = "calculate_total_balance sample_tx_lib sample_server True False"
  let ?c = "calculate_confirmed_balance sample_tx_lib sample_server True"
  let ?run = "bindE ?a (\<lambda>b. bindE ?t (\<lambda>t. bindE ?c (\<lambda>c. ret ()))) (sample_wallet, ())"
  have "fst ?run = Inr ()" by code_simp
  then obtain p4 where "?run = (Inr (), p4)" by (metis prod.collapse)
  then obtain b p1 where a: "?a (sample_wallet, ()) = (Inr b, p1)"
    and "bindE ?t (\<lambda>t. bindE ?c (\<lambda>c. ret ())) p1 = (Inr (), p4)" by (rule bindE_InrE)
  then obtain t p2 where t: "?t p1 = (Inr t, p2)" and "bindE ?c (\<lambda>c. ret ()) p2 = (Inr (), p4)"
    by (blast elim: bindE_InrE)
  then obtain c p3 where c: "?c p2 = (Inr c, p3)" by (blast elim: bindE_InrE)
  obtain s1 s2 s3 where "p1 = (s1, ())" "p2 = (s2, ())" "p3 = (s3, ())"
    by (metis prod.collapse unit.exhaust)
  note runs = a [unfolded this] t [unfolded this] c [unfolded this]
  from balances_are_repeatable [OF sample_tx_lib_empty sample_wallet_coherent runs, of sample_server "()"]
  show ?thesis by blast
qed

text \<open>
  C10. The views of the wallet agree, when its caches are coherent (no address is marked empty while
  history entries are cached for it; a bulk refresh can break that, C38) and single requests are used.
  After the history rows have been created, the confirmed balance and the unconfirmed impact are
  computed without the server. The confirmed balance is the sum of the changes in the rows with a
  height other than zero. The unconfirmed impact is the sum of the other changes, added up with
  \<^verbatim>\<open>signed_add\<close>: if the signed sum overflows, the call is undefined behaviour; otherwise both together are
  the balance in the top row.
\<close>

theorem views_agree:
  assumes "hex_2_tx L [] = Inl e" "coherent s"
    and "create_history_view_rows L E is_testnet False (s, w) = (Inr (), (s1, w1))"
  shows "\<exists>rows c r t t'. history_queue s1 = bq_push rows (history_queue s) \<and>
    calculate_confirmed_balance L E' is_testnet (s1, v) = (Inr c, (t, v)) \<and>
    unconfirmed_txs_wallet_impact L E' is_testnet (t, v) = (r, (t', v)) \<and>
    c = sum_list (map hvr_balance_delta (filter (\<lambda>r. hvr_height r \<noteq> 0) rows)) \<and>
    r = total_of signed_add (map hvr_balance_delta (filter (\<lambda>r. hvr_height r = 0) rows)) \<and>
    (\<forall>u. r = Inr u \<longrightarrow> c + u = (case rows of [] \<Rightarrow> 0 | r # rs \<Rightarrow> hvr_balance r))"
proof -
  from create_rows_Inr [OF assms(3)] obtain txs sa wa rows sb where
    txs: "get_all_txs_sorted L E (s, w) = (Inr txs, (sa, wa))"
    and rows: "foldE (\<lambda>tx_info rows. bindE (history_view_row L E is_testnet tx_info) (\<lambda>row. ret (rows @ [row])))
      txs [] (sa, wa) = (Inr rows, (sb, w1))"
    and s1: "s1 = sb\<lparr>history_queue := bq_push (fst (fill_balances rows)) (history_queue s)\<rparr>"
    by (auto simp: ret_Inr_iff)
  let ?rows = "fst (fill_balances rows)"
  let ?deltas = "\<lambda>ok rows. map hvr_balance_delta (filter (\<lambda>r. ok (hvr_height r)) rows)"
  note all = learns_get_all_txs_sorted [OF assms(1), of E E']
  note a = learnsD [OF all txs assms(2)]
  from history_rows_learned [OF assms(1) a(1) rows, of E'] have
    b: "coherent sb" "extends sa sb" "list_all2 (row_answers L E' is_testnet sb) txs rows" by auto
  have c: "coherent s1" "extends sb s1" using b(1)
    by (auto simp: s1 coherent_def extends_def settled_def known_history_def known_txhex_def)
  have all_s1: "answers (list_all2 same_tx) (get_all_txs_sorted L E') s1 txs"
    using answers_extends [OF a(3)] extends_trans [OF b(2) c(2)] by blast
  have known: "list_all2 (row_answers L E' is_testnet s1) txs rows"
    by (rule list_all2_mono [OF b(3)]) (rule row_answers_extends [OF _ c(2)])
  have sums: "\<exists>t2. bindE (get_all_txs_sorted L E') (sum_impacts L E' is_testnet add ok) (t, v) =
      (total_of add (?deltas ok rows), (t2, v)) \<and> coherent t2 \<and> extends t t2"
    if t: "coherent t" "extends s1 t" for t add ok
  proof -
    obtain txs' t1 where one: "get_all_txs_sorted L E' (t, v) = (Inr txs', (t1, v))" "list_all2 same_tx txs txs'"
      "coherent t1" "extends t t1" by (rule answersD [OF all_s1 t]) blast
    from sum_impacts_answers [OF known one(2,3) extends_trans [OF t(2) one(4)]] one extends_trans [OF one(4)]
    show ?thesis by (fastforce simp: bindE_def)
  qed
  from sums [OF c(1) extends_refl, of unsigned_add "\<lambda>h. h \<noteq> 0"] obtain t where
    conf: "calculate_confirmed_balance L E' is_testnet (s1, v) = (Inr (sum_list (?deltas (\<lambda>h. h \<noteq> 0) rows)), (t, v))"
    and t: "coherent t" "extends s1 t" by (auto simp: calculate_confirmed_balance_def unsigned_total)
  from sums [OF t, of signed_add "\<lambda>h. h = 0"] obtain t' where
    unconf: "unconfirmed_txs_wallet_impact L E' is_testnet (t, v) = (total_of signed_add (?deltas (\<lambda>h. h = 0) rows), (t', v))"
    by (auto simp: unconfirmed_txs_wallet_impact_def)
  have "\<forall>u. total_of signed_add (?deltas (\<lambda>h. h = 0) rows) = Inr u \<longrightarrow>
      sum_list (?deltas (\<lambda>h. h \<noteq> 0) rows) + u = (case ?rows of [] \<Rightarrow> 0 | r # rs \<Rightarrow> hvr_balance r)"
    using fill_balances_split(2) [of rows] by (auto dest: signed_total)
  moreover have "history_queue s1 = bq_push ?rows (history_queue s)" by (simp add: s1)
  ultimately show ?thesis using conf unconf fill_balances_split(1) [of "\<lambda>h. h \<noteq> 0" rows] fill_balances_split(1) [of "\<lambda>h. h = 0" rows]
    by (intro exI [where x = ?rows] exI [where x = "sum_list (?deltas (\<lambda>h. h \<noteq> 0) rows)"]
        exI [where x = "total_of signed_add (?deltas (\<lambda>h. h = 0) rows)"] exI [where x = t] exI [where x = t'])
       (simp only: simp_thms)
qed

theorem views_agree_witness:
  "\<exists>s1 rows c u t t'.
    create_history_view_rows sample_tx_lib sample_server True False (sample_wallet, ()) = (Inr (), (s1, ())) \<and>
    history_queue s1 = bq_push rows (history_queue sample_wallet) \<and>
    calculate_confirmed_balance sample_tx_lib sample_server True (s1, ()) = (Inr c, (t, ())) \<and>
    unconfirmed_txs_wallet_impact sample_tx_lib sample_server True (t, ()) = (Inr u, (t', ())) \<and>
    c + u = (case rows of [] \<Rightarrow> 0 | r # rs \<Rightarrow> hvr_balance r)"
proof -
  let ?r = "create_history_view_rows sample_tx_lib sample_server True False (sample_wallet, ())"
  let ?all = "bindE (create_history_view_rows sample_tx_lib sample_server True False) (\<lambda>_.
    bindE (calculate_confirmed_balance sample_tx_lib sample_server True) (\<lambda>_.
    unconfirmed_txs_wallet_impact sample_tx_lib sample_server True)) (sample_wallet, ())"
  have "fst ?r = Inr ()" by code_simp
  then obtain s1 where run: "?r = (Inr (), (s1, ()))" by (metis prod.collapse unit.exhaust)
  from views_agree [OF sample_tx_lib_empty sample_wallet_coherent run, of sample_server "()"] obtain rows c r t t' where
    v: "history_queue s1 = bq_push rows (history_queue sample_wallet)"
    "calculate_confirmed_balance sample_tx_lib sample_server True (s1, ()) = (Inr c, (t, ()))"
    "unconfirmed_txs_wallet_impact sample_tx_lib sample_server True (t, ()) = (r, (t', ()))"
    "\<forall>u. r = Inr u \<longrightarrow> c + u = (case rows of [] \<Rightarrow> 0 | r # rs \<Rightarrow> hvr_balance r)"
    by (elim exE conjE) (rule that)
  have "\<not> (case fst ?all of Inl e \<Rightarrow> True | Inr u \<Rightarrow> False)" by code_simp
  then obtain u where "r = Inr u" using run v(2,3) by (auto simp: bindE_def split: sum.splits)
  with v run show ?thesis by (intro exI conjI) (assumption | simp)+
qed

end
