(* ===== verification/BulkLoad.thy ===== *)
theory BulkLoad
  imports WalletViews
begin

text \<open>
  The bulk load of \<^verbatim>\<open>WalletState\<close> against the one-by-one operations: what
  \<^verbatim>\<open>get_all_txs_sorted_bulk\<close> puts into the caches is what \<^verbatim>\<open>get_all_txs_sorted\<close> reads.
\<close>

section \<open>The loops over the replies\<close>

text \<open>The histories are filed under their addresses, and an empty one is marked.\<close>

lemma bulk_refresh_loop:
  assumes "distinct (ws_addresses s)" "n + length hs \<le> length (ws_addresses s)"
    and "foldE bulk_refresh_step (enumerate n hs) acc (s, w) = (r, (s', w'))"
  shows "r = Inr (fold ahi_insert (concat hs) acc) \<and> w' = w \<and> ws_addresses s' = ws_addresses s \<and>
    known_txhex s' = known_txhex s \<and> progress_callbacks s' = progress_callbacks s \<and>
    (\<forall>i < length hs. known_history s' (ws_addresses s ! (n + i)) = hs ! i \<and>
       (address_2_history_cache_empty s' (ws_addresses s ! (n + i)) = Some True \<longleftrightarrow>
          hs ! i = [] \<or> address_2_history_cache_empty s (ws_addresses s ! (n + i)) = Some True)) \<and>
    (\<forall>a. a \<notin> set (take (length hs) (drop n (ws_addresses s))) \<longrightarrow>
       known_history s' a = known_history s a \<and>
       address_2_history_cache_empty s' a = address_2_history_cache_empty s a)"
  using assms
proof (induction hs arbitrary: n acc s)
  case Nil
  then show ?case by simp
next
  case (Cons h hs)
  let ?as = "ws_addresses s"
  let ?a = "?as ! n"
  let ?s1 = "s\<lparr>address_2_history_cache := (address_2_history_cache s)(?a \<mapsto> h),
    address_2_history_cache_empty := if h = [] then (address_2_history_cache_empty s)(?a \<mapsto> True)
      else address_2_history_cache_empty s\<rparr>"
  from Cons.prems(2) have n: "n < length ?as" "Suc n + length hs \<le> length ?as" by simp_all
  have "bulk_refresh_step (n, h) acc (s, w) = (Inr (fold ahi_insert h acc), (?s1, w))"
    using n(1) by (simp add: bulk_refresh_step_def bindE_def store_history_def store_history_empty_def)
  with Cons.prems(3) have rest: "foldE bulk_refresh_step (enumerate (Suc n) hs) (fold ahi_insert h acc) (?s1, w) = (r, (s', w'))"
    by (simp add: bindE_def del: fold_simps)
  have s1: "known_history ?s1 = (known_history s)(?a := h)" "known_txhex ?s1 = known_txhex s"
    "address_2_history_cache_empty ?s1 = (address_2_history_cache_empty s)
       (?a := if h = [] then Some True else address_2_history_cache_empty s ?a)"
    by (auto simp: known_history_def known_txhex_def fun_eq_iff)
  have drop: "drop n ?as = ?a # drop (Suc n) ?as" using n(1) by (rule Cons_nth_drop_Suc [symmetric])
  have distinct: "?a \<notin> set (drop (Suc n) ?as)"
    using distinct_drop [OF Cons.prems(1), of n] by (simp add: drop)
  have ih: "r = Inr (fold ahi_insert (concat hs) (fold ahi_insert h acc))" "w' = w" "ws_addresses s' = ?as"
      "known_txhex s' = known_txhex s" "progress_callbacks s' = progress_callbacks s"
    and at: "\<And>i. i < length hs \<Longrightarrow> known_history s' (?as ! (Suc n + i)) = hs ! i \<and>
      (address_2_history_cache_empty s' (?as ! (Suc n + i)) = Some True \<longleftrightarrow>
        hs ! i = [] \<or> address_2_history_cache_empty ?s1 (?as ! (Suc n + i)) = Some True)"
    and others: "\<And>a. a \<notin> set (take (length hs) (drop (Suc n) ?as)) \<Longrightarrow>
      known_history s' a = known_history ?s1 a \<and>
      address_2_history_cache_empty s' a = address_2_history_cache_empty ?s1 a"
    using Cons.IH [of ?s1 "Suc n", OF _ _ rest] Cons.prems(1) n(2) s1(2) by auto
  have ne: "?as ! (Suc n + i) \<noteq> ?a" if "i < length hs" for i
    using Cons.prems(1) n that by (simp add: nth_eq_iff_index_eq)
  have a: "?a \<notin> set (take (length hs) (drop (Suc n) ?as))" using distinct by (auto dest: in_set_takeD)
  show ?case
    unfolding list.size(4) add_Suc_right add_0_right All_less_Suc2
    using ih at ne others [OF a] others s1 by (simp add: drop)
qed

lemma on_snd_eq_iff: "on_snd m (a, b) = (r, (a', b')) \<longleftrightarrow> a' = a \<and> m b = (r, b')"
  by (auto split: prod.splits)

lemma spkhs_length:
  "foldR (\<lambda>a acc. bindR (base58_to_spkh_hex L a) (\<lambda>h. Inr (acc @ [h]))) as acc = Inr hs \<Longrightarrow>
   length hs = length acc + length as"
  by (induction as arbitrary: acc) (auto simp: bindR_Inr_iff)

text \<open>Notifying the progress listeners does not touch the object.\<close>

lemma push_progress_event_object: "push_progress_event ev (s, w) = (r, (s', w')) \<Longrightarrow> s' = s"
proof -
  have "keeps (\<lambda>p. fst p = s) (push_progress_event ev)"
    unfolding push_progress_event_def by (intro exec_inv) simp_all
  from keepsD [OF this, of "(s, w)"] show "push_progress_event ev (s, w) = (r, (s', w')) \<Longrightarrow> s' = s" by fastforce
qed

text \<open>The state after a bulk refresh: everything is settled, with the server's histories.\<close>

lemma refresh_bulk_spec:
  assumes "bulk_service (ei_getHistoryBulk E) tb" "distinct (ws_addresses s)" "coherent s"
    and "\<forall>a \<in> set (ws_addresses s). address_2_history_cache_empty s a \<noteq> Some True"
    and "refresh_all_history_bulk L E (s, w) = (Inr u, (s', w'))"
  shows "coherent s' \<and> ws_addresses s' = ws_addresses s \<and> known_txhex s' = known_txhex s \<and>
    progress_callbacks s' = progress_callbacks s \<and> (\<forall>a \<in> set (ws_addresses s). settled s' a) \<and>
    all_history s' = fold ahi_insert (concat (map (known_history s') (ws_addresses s))) []"
proof -
  let ?as = "ws_addresses s"
  from assms(5) obtain s0 w0 spkhs hs w1 acc s1 w2 where
    ev: "push_progress_event \<lparr>history_read_delta = 0, history_total = int (length ?as),
       txs_read_delta = 0, txs_total = 0\<rparr> (s, w) = (Inr (), (s0, w0))" and
    spkhs: "foldR (\<lambda>a acc. bindR (base58_to_spkh_hex L a) (\<lambda>h. Inr (acc @ [h]))) ?as [] = Inr spkhs" and
    call: "ei_getHistoryBulk E spkhs (progress_callbacks s0) w0 = (Inr hs, w1)" and
    loop: "foldE bulk_refresh_step (enumerate 0 hs) [] (s0, w1) = (Inr acc, (s1, w2))" and
    s': "s' = s1\<lparr>all_history := acc\<rparr>"
    by (auto simp: refresh_all_history_bulk_def set_all_history_def bindE_Inr_iff on_snd_eq_iff simp del: on_snd_eval)
  have s0: "s0 = s" by (rule push_progress_event_object [OF ev])
  have len: "length hs = length ?as"
    using bulk_service.history_bulk_complete [OF assms(1) call] spkhs_length [OF spkhs] by simp
  from bulk_refresh_loop [OF assms(2) _ loop [unfolded s0]] len have
    l: "acc = fold ahi_insert (concat hs) []" "ws_addresses s1 = ?as" "known_txhex s1 = known_txhex s"
      "progress_callbacks s1 = progress_callbacks s"
    and at: "\<And>i. i < length ?as \<Longrightarrow> known_history s1 (?as ! i) = hs ! i \<and>
      (address_2_history_cache_empty s1 (?as ! i) = Some True \<longleftrightarrow>
         hs ! i = [] \<or> address_2_history_cache_empty s (?as ! i) = Some True)"
    and others: "\<And>a. a \<notin> set ?as \<Longrightarrow> known_history s1 a = known_history s a \<and>
      address_2_history_cache_empty s1 a = address_2_history_cache_empty s a" by auto
  have one: "settled s1 a" "address_2_history_cache_empty s1 a = Some True \<longleftrightarrow> known_history s1 a = []"
    if "a \<in> set ?as" for a
  proof -
    from that obtain i where i: "i < length ?as" "a = ?as ! i" by (auto simp: in_set_conv_nth)
    with at [OF i(1)] that assms(4) show "settled s1 a"
      "address_2_history_cache_empty s1 a = Some True \<longleftrightarrow> known_history s1 a = []" by (auto simp: settled_def)
  qed
  have "hs = map (known_history s1) ?as" using at len by (intro nth_equalityI) simp_all
  moreover have "coherent s1"
    unfolding coherent_def using one(2) others assms(3) by (metis coherent_def)
  moreover have "known_history s' = known_history s1" "known_txhex s' = known_txhex s1"
    "coherent s' = coherent s1" "settled s' = settled s1"
    by (auto simp: s' known_history_def known_txhex_def coherent_def settled_def fun_eq_iff)
  ultimately show ?thesis using l one(1) s' by simp
qed

lemma collect_txs_bulk_loop:
  assumes "foldE (collect_tx_bulk L hexes) (enumerate n items) txs (s, w) = (Inr txs', (s', w'))"
    and "distinct (map ahi_txid items)"
  shows "\<exists>new. txs' = txs @ new \<and> list_all2 (tx_of_item L s') items new \<and> same_histories s s' \<and>
    (\<forall>u. u \<notin> txids items \<longrightarrow> known_txhex s' u = known_txhex s u)"
  using assms
proof (induction items arbitrary: n txs s w)
  case Nil
  then show ?case by (simp add: same_histories_refl)
next
  case (Cons item items)
  let ?id = "ahi_txid item"
  from Cons.prems(1) obtain tx where
    n: "n < length hexes" "hex_2_tx L (hexes ! n) = Inr tx" and
    rest: "foldE (collect_tx_bulk L hexes) (enumerate (Suc n) items)
      (txs @ [\<lparr>ti_tx = tx, ti_height = ahi_height item, ti_fresh = ahi_fresh item\<rparr>])
      (s\<lparr>txid_2_txhex_cache := (txid_2_txhex_cache s)(?id \<mapsto> hexes ! n)\<rparr>, w) = (Inr txs', (s', w'))"
    by (auto simp: collect_tx_bulk_def store_txhex_def exec_simps vec_at_Inr_iff)
  let ?s1 = "s\<lparr>txid_2_txhex_cache := (txid_2_txhex_cache s)(?id \<mapsto> hexes ! n)\<rparr>"
  have s1: "known_txhex ?s1 = (known_txhex s)(?id := hexes ! n)" "same_histories s ?s1"
    by (auto simp: known_txhex_def same_histories_def fun_eq_iff)
  from Cons.IH [OF rest] Cons.prems(2) obtain new where
    ih: "txs' = (txs @ [\<lparr>ti_tx = tx, ti_height = ahi_height item, ti_fresh = ahi_fresh item\<rparr>]) @ new"
    "list_all2 (tx_of_item L s') items new" "same_histories ?s1 s'"
    "\<forall>u. u \<notin> txids items \<longrightarrow> known_txhex s' u = known_txhex ?s1 u" by auto
  have "tx_of_item L s' item \<lparr>ti_tx = tx, ti_height = ahi_height item, ti_fresh = ahi_fresh item\<rparr>"
    using n(2) ih(4) s1(1) Cons.prems(2) by (simp add: tx_of_item_def)
  with ih s1 show ?case
    by (intro exI [where x = "\<lparr>ti_tx = tx, ti_height = ahi_height item, ti_fresh = ahi_fresh item\<rparr> # new"])
       (auto intro: same_histories_trans)
qed

lemma distinct_union_ids: "distinct (map ahi_txid (fold ahi_insert items []))"
  by (intro by_txid_distinct by_txid_fold_insert) (simp add: by_txid_def)

section \<open>Reading what was loaded\<close>

lemma answers_settled: "settled s a \<Longrightarrow> answers same_items (get_history L E a []) s (known_history s a)"
  unfolding answers_def
proof (intro allI impI)
  fix t w assume "settled s a" and t: "coherent t" "extends s t"
  then have "settled t a" "known_history t a = known_history s a" by (simp_all add: extends_def)
  with get_history_settled [OF t(1), of a L E w]
  show "\<exists>y t'. get_history L E a [] (t, w) = (Inr y, (t', w)) \<and> same_items (known_history s a) y \<and>
    coherent t' \<and> extends t t'" by (auto simp: same_items_def)
qed

lemma answers_history_state: "answers (=) (set_all_history items) s ()" "answers (=) sort_all_history s ()"
  unfolding answers_def set_all_history_def sort_all_history_def modifyS_eval
  by (auto simp: coherent_def extends_def settled_def known_history_def known_txhex_def)

lemma answers_refresh:
  assumes "\<forall>a \<in> set as. settled s a" "same_items acc acc'"
  shows "answers same_items (foldE (refresh_step L E) as acc') s
    (fold ahi_insert (concat (map (known_history s) as)) acc)"
  using assms
proof (induction as arbitrary: acc acc')
  case Nil
  then show ?case unfolding foldE.simps by (intro answers_ret) simp
next
  case (Cons a as)
  have "answers same_items (refresh_step L E a acc') s (fold ahi_insert (known_history s a) acc)"
    unfolding refresh_step_def
    using Cons.prems answers_settled [of s a L E]
    by (intro answers_bind [OF answers_settled] answers_ret) (simp_all add: same_items_def mark_fresh_fold_insert)
  then show ?case
    unfolding foldE.simps list.map concat.simps fold_append comp_def
    by (rule answers_bind) (use Cons in simp)
qed

lemma answers_txs:
  assumes "list_all2 (tx_of_item L s) items txs" "same_items items items'" "[] \<notin> txids items"
    and "hex_2_tx L [] = Inl e" "list_all2 same_tx acc acc'"
  shows "answers (list_all2 same_tx) (foldE (collect_tx L E) items' acc') s (acc @ txs)"
  using assms
proof (induction items txs arbitrary: items' acc acc' rule: list_all2_induct)
  case Nil
  then have "items' = []" by (simp add: same_items_all2)
  with Nil show ?case by (simp add: answers_def)
next
  case (Cons item items tx txs)
  from Cons.prems(1) obtain item' rest' where items': "items' = item' # rest'" "ahi_txid item' = ahi_txid item"
    "ahi_height item' = ahi_height item" "same_items items rest'"
    by (auto simp: same_items_all2 list_all2_Cons1)
  from Cons.hyps(1) Cons.prems(3) have tx: "hex_2_tx L (known_txhex s (ahi_txid item)) = Inr (ti_tx tx)"
    "known_txhex s (ahi_txid item) \<noteq> []" "ti_height tx = ahi_height item" by (auto simp: tx_of_item_def)
  have "answers (=) (get_transaction L E (ahi_txid item)) s (ti_tx tx)"
    using tx by (auto simp: answers_def extends_def get_transaction_cached)
  moreover have same: "same_tx tx \<lparr>ti_tx = ti_tx tx, ti_height = ahi_height item', ti_fresh = ahi_fresh item'\<rparr>"
    using tx(3) items'(3) by (simp add: same_tx_def)
  ultimately have "answers (list_all2 same_tx) (collect_tx L E item' acc') s (acc @ [tx])"
    unfolding collect_tx_def items'(2) using Cons.prems(2,4) same
    by (auto intro!: answers_bind [where R = "(=)"] answers_ret list_all2_appendI simp del: ret_eval)
  then show ?case
    unfolding items'(1) foldE.simps
    by (rule answers_bind) (use Cons.IH [OF items'(4)] Cons.prems(2,3) in fastforce)
qed

lemma get_all_txs_sorted_bulk_Inr:
  assumes "get_all_txs_sorted_bulk L E (s, w) = (Inr txs, (s', w'))"
  obtains s1 w1 hexes w2 where "refresh_all_history_bulk L E (s, w) = (Inr (), (s1, w1))"
    "foldE (collect_tx_bulk L hexes) (enumerate 0 (std_sort history_before (all_history s1))) []
       (s1\<lparr>all_history := std_sort history_before (all_history s1)\<rparr>, w2) = (Inr txs, (s', w'))"
    "ei_getTransactionBulk E (map ahi_txid (std_sort history_before (all_history s1))) (progress_callbacks s1) w1
       = (Inr hexes, w2)"
  using assms
  by (auto simp: get_all_txs_sorted_bulk_def sort_all_history_def bindE_Inr_iff on_snd_eq_iff
      simp del: on_snd_eval)

text \<open>After a bulk load the one-by-one operation gives the loaded list from the caches.\<close>

lemma bulk_load_answers:
  assumes "bulk_service (ei_getHistoryBulk E) (ei_getTransactionBulk E)" "hex_2_tx L [] = Inl e"
    and "distinct (ws_addresses s)" "coherent s"
    and "\<forall>a \<in> set (ws_addresses s). address_2_history_cache_empty s a \<noteq> Some True"
    and "get_all_txs_sorted_bulk L E (s, w) = (Inr txs, (s', w'))" "[] \<notin> txids (all_history s')"
  shows "coherent s' \<and> answers (list_all2 same_tx) (get_all_txs_sorted L E') s' txs"
proof -
  from assms(6) obtain s1 w1 hexes w2 where
    ref: "refresh_all_history_bulk L E (s, w) = (Inr (), (s1, w1))" and
    loop: "foldE (collect_tx_bulk L hexes) (enumerate 0 (std_sort history_before (all_history s1))) []
       (s1\<lparr>all_history := std_sort history_before (all_history s1)\<rparr>, w2) = (Inr txs, (s', w'))"
    by (rule get_all_txs_sorted_bulk_Inr)
  let ?sorted = "std_sort history_before (all_history s1)"
  let ?s2 = "s1\<lparr>all_history := ?sorted\<rparr>"
  from refresh_bulk_spec [OF assms(1,3,4,5) ref] have
    r: "coherent s1" "ws_addresses s1 = ws_addresses s" "\<forall>a \<in> set (ws_addresses s). settled s1 a"
    "all_history s1 = fold ahi_insert (concat (map (known_history s1) (ws_addresses s))) []" by auto
  have "distinct (map ahi_txid ?sorted)" unfolding r(4) by (simp add: distinct_union_ids)
  from collect_txs_bulk_loop [OF loop this] have
    l: "list_all2 (tx_of_item L s') ?sorted txs" "same_histories ?s2 s'" by auto
  have eq: "known_history s' = known_history s1" "ws_addresses s' = ws_addresses s" "coherent s'"
    "all_history s' = ?sorted" "settled s' = settled s1"
    using l(2) r(1,2) by (auto simp: same_histories_def known_history_def coherent_def settled_def fun_eq_iff)
  have addresses: "answers (=) (getS (\<lambda>(s, w). ws_addresses s)) s' (ws_addresses s')"
    by (simp add: answers_def extends_def)
  have refresh: "answers same_items (foldE (refresh_step L E') (ws_addresses s') []) s' (all_history s1)"
    using answers_refresh [of "ws_addresses s'" s' "[]" "[]" L E'] r(3,4) eq by (simp add: same_items_def)
  have rest: "answers (list_all2 same_tx) (foldE (collect_tx L E') (std_sort history_before items) []) s' txs"
    if "same_items (all_history s1) items" for items
    using that assms(7) answers_txs [OF l(1) _ _ assms(2), of "std_sort history_before items" "[]" "[]" E'] eq(4)
    by (simp add: same_items_def mark_fresh_sort)
  have "answers (list_all2 same_tx) (get_all_txs_sorted L E') s' txs"
    unfolding get_all_txs_sorted_def refresh_all_history_def bindE_assoc set_sort_get
  proof (rule answers_bind [OF addresses])
    fix as assume "ws_addresses s' = as"
    then show "answers (list_all2 same_tx) (bindE (foldE (refresh_step L E') as []) (\<lambda>items.
        bindE (set_all_history items) (\<lambda>_. bindE sort_all_history (\<lambda>_.
        foldE (collect_tx L E') (std_sort history_before items) [])))) s' txs"
      using refresh by (auto intro!: answers_bind [OF _ answers_bind [OF answers_history_state(1)
        answers_bind [OF answers_history_state(2)]]] rest)
  qed
  with eq(3) show ?thesis by blast
qed

section \<open>Property\<close>

text \<open>
  C27. Loading in bulk and loading one by one show the same transactions: when a bulk load
  has returned, over a service that replies once per request, the one-by-one operation gives the
  same transactions at the same heights in the same order, from the caches alone, whatever client
  it is given. It takes coherent caches in which no address is marked as empty before the load (such a
  mark hides the history the load brings, C38), distinct addresses, and ids that are not empty: the
  bulk operation does not refuse an empty id, the other one does.
\<close>

theorem bulk_load_matches_single_loads:
  assumes "bulk_service (ei_getHistoryBulk E) (ei_getTransactionBulk E)" "hex_2_tx L [] = Inl e"
    and "distinct (ws_addresses s)" "coherent s"
    and "\<forall>a \<in> set (ws_addresses s). address_2_history_cache_empty s a \<noteq> Some True"
    and "get_all_txs_sorted_bulk L E (s, w) = (Inr txs, (s', w'))" "[] \<notin> txids (all_history s')"
  shows "coherent s' \<and> (\<exists>txs' t. get_all_txs_sorted L E' (s', v) = (Inr txs', (t, v)) \<and>
    map ti_tx txs' = map ti_tx txs \<and> map ti_height txs' = map ti_height txs)"
proof -
  from bulk_load_answers [OF assms, of E'] have
    c: "coherent s'" "answers (list_all2 same_tx) (get_all_txs_sorted L E') s' txs" by auto
  obtain txs' t where "get_all_txs_sorted L E' (s', v) = (Inr txs', (t, v))" "list_all2 same_tx txs txs'"
    by (rule answersD [OF c(2,1) extends_refl, of v])
  moreover from this(2) have "map ti_tx txs' = map ti_tx txs" "map ti_height txs' = map ti_height txs"
    by (induction rule: list_all2_induct) (simp_all add: same_tx_def)
  ultimately show ?thesis using c(1) by blast
qed

lemma sample_server_bulk: "bulk_service (ei_getHistoryBulk sample_server) (ei_getTransactionBulk sample_server)"
  by unfold_locales (auto simp: sample_server_def)

theorem bulk_load_matches_single_loads_witness:
  "\<exists>txs txs' s' t. get_all_txs_sorted_bulk sample_tx_lib sample_server (sample_wallet, ()) = (Inr txs, (s', ())) \<and>
    get_all_txs_sorted sample_tx_lib sample_server (s', ()) = (Inr txs', (t, ())) \<and>
    map ti_tx txs' = map ti_tx txs \<and> map ti_height txs' = [7]"
proof -
  let ?r = "get_all_txs_sorted_bulk sample_tx_lib sample_server (sample_wallet, ())"
  have "map_sum (\<lambda>_. ()) (map ti_height) (fst ?r) = Inr [7]" "map ahi_txid (all_history (fst (snd ?r))) = [''c'']"
    by code_simp+
  moreover obtain x s' where r: "?r = (x, (s', ()))" by (metis prod.collapse unit.exhaust)
  ultimately obtain txs where x: "x = Inr txs" "map ti_height txs = [7]" "map ahi_txid (all_history s') = [''c'']"
    by (cases x) auto
  have ids: "[] \<notin> txids (all_history s')" unfolding set_map [symmetric] x(3) by simp
  have wallet: "distinct (ws_addresses sample_wallet)"
    "\<forall>a \<in> set (ws_addresses sample_wallet). address_2_history_cache_empty sample_wallet a \<noteq> Some True"
    by (simp_all add: sample_wallet_def)
  from bulk_load_matches_single_loads [OF sample_server_bulk sample_tx_lib_empty wallet(1)
      sample_wallet_coherent wallet(2) r [unfolded x(1)] ids, of sample_server "()"] r x(1,2)
  show ?thesis by auto
qed

end
