(* ===== verification/WalletSync.thy ===== *)
theory WalletSync
  imports BulkLoad PromptServer
begin

text \<open>
  The bulk load of the wallet over the Ronghua client, against a server that answers: the two bulk
  requests, the caches and the order of the result in one.
\<close>

section \<open>The loop over complete replies\<close>

lemma collect_txs_bulk_eval:
  assumes "n + length items = length hexes" "list_all2 (\<lambda>h tx. hex_2_tx L h = Inr tx) (drop n hexes) decoded"
  shows "foldE (collect_tx_bulk L hexes) (enumerate n items) txs (s, w) =
    (Inr (txs @ map2 (\<lambda>item tx. \<lparr>ti_tx = tx, ti_height = ahi_height item, ti_fresh = ahi_fresh item\<rparr>) items decoded),
     (s\<lparr>txid_2_txhex_cache := (txid_2_txhex_cache s)(map ahi_txid items [\<mapsto>] drop n hexes)\<rparr>, w))"
  using assms
proof (induction items arbitrary: n txs s decoded)
  case Nil
  then show ?case by simp
next
  case (Cons item items)
  from Cons.prems(1) have n: "n < length hexes" by simp
  then have drop: "drop n hexes = hexes ! n # drop (Suc n) hexes" by (rule Cons_nth_drop_Suc [symmetric])
  with Cons.prems(2) obtain tx decoded' where d: "decoded = tx # decoded'" "hex_2_tx L (hexes ! n) = Inr tx"
    "list_all2 (\<lambda>h tx. hex_2_tx L h = Inr tx) (drop (Suc n) hexes) decoded'"
    by (auto simp: list_all2_Cons1)
  have "collect_tx_bulk L hexes (n, item) txs (s, w) =
      (Inr (txs @ [\<lparr>ti_tx = tx, ti_height = ahi_height item, ti_fresh = ahi_fresh item\<rparr>]),
       (s\<lparr>txid_2_txhex_cache := (txid_2_txhex_cache s)(ahi_txid item \<mapsto> hexes ! n)\<rparr>, w))"
    using n d(2) by (simp add: collect_tx_bulk_def bindE_def store_txhex_def)
  with Cons.IH [OF _ d(3)] Cons.prems(1) d(1) drop show ?case
    by (simp add: bindE_def map_upds_Cons del: fun_upd_apply)
qed

text \<open>Listeners that leave the client alone.\<close>

definition quiet :: "'w ProgressCallback list \<Rightarrow> bool" where
  "quiet cbs \<longleftrightarrow> (\<forall>c \<in> set cbs. \<forall>ev w. c ev w = (Inr (), w))"

lemma push_progress_quiet:
  assumes "quiet (progress_callbacks s)"
  shows "push_progress_event ev (s, w) = (Inr (), (s, w))"
proof -
  have "forE (\<lambda>c. on_snd (c ev)) cbs (s, w) = (Inr (), (s, w))" if "quiet cbs" for cbs
    using that by (induction cbs) (auto simp: quiet_def bindE_def)
  with assms show ?thesis by (simp add: push_progress_event_def bindE_def)
qed

lemma spkhs_eval:
  "list_all2 (\<lambda>a h. base58_to_spkh_hex L a = Inr h) as hs \<Longrightarrow>
   foldR (\<lambda>a acc. bindR (base58_to_spkh_hex L a) (\<lambda>h. Inr (acc @ [h]))) as acc = Inr (acc @ hs)"
  by (induction as hs arbitrary: acc rule: list_all2_induct) simp_all

text \<open>A bulk refresh whose request is answered.\<close>

lemma refresh_bulk_answered:
  assumes "quiet (progress_callbacks s)" "distinct (ws_addresses s)"
    and "list_all2 (\<lambda>a h. base58_to_spkh_hex L a = Inr h) (ws_addresses s) spkhs"
    and "ei_getHistoryBulk E spkhs (progress_callbacks s) w = (Inr hists, w1)" "length hists = length (ws_addresses s)"
  shows "\<exists>s1. refresh_all_history_bulk L E (s, w) = (Inr (), (s1, w1)) \<and>
    all_history s1 = fold ahi_insert (concat hists) [] \<and> map (known_history s1) (ws_addresses s) = hists \<and>
    ws_addresses s1 = ws_addresses s \<and> progress_callbacks s1 = progress_callbacks s \<and> known_txhex s1 = known_txhex s"
proof -
  obtain r s1 w2 where loop: "foldE bulk_refresh_step (enumerate 0 hists) [] (s, w1) = (r, (s1, w2))"
    by (metis prod.collapse)
  from bulk_refresh_loop [OF assms(2) _ loop] assms(5) have
    l: "r = Inr (fold ahi_insert (concat hists) [])" "w2 = w1" "ws_addresses s1 = ws_addresses s"
      "known_txhex s1 = known_txhex s" "progress_callbacks s1 = progress_callbacks s"
    and at: "\<And>i. i < length hists \<Longrightarrow> known_history s1 (ws_addresses s ! i) = hists ! i" by auto
  let ?s1 = "s1\<lparr>all_history := fold ahi_insert (concat hists) []\<rparr>"
  have "refresh_all_history_bulk L E (s, w) = (Inr (), (?s1, w1))"
    using spkhs_eval [OF assms(3), of "[]"] push_progress_quiet [OF assms(1)] assms(4) loop l(1,2)
    by (simp add: refresh_all_history_bulk_def bindE_def set_all_history_def)
  moreover have "map (known_history ?s1) (ws_addresses s) = hists"
    using at assms(5) by (intro nth_equalityI) (simp_all add: known_history_def)
  ultimately show ?thesis
    using l by (intro exI [where x = ?s1]) (simp add: known_txhex_def fun_eq_iff)
qed

section \<open>Two bulk requests\<close>

lemma sync_answered:
  assumes "json_documented J" "idle w" "0 \<le> id_counter w"
    and "id_counter w + int (length spkhs) + int (length items) < 2 ^ 31"
    and "distinct (ws_addresses s)" "quiet (progress_callbacks s)"
    and "list_all2 (\<lambda>a h. base58_to_spkh_hex L a = Inr h) (ws_addresses s) spkhs"
    and "events w = map (ReadSome None) (concat history_reads @ concat text_reads) @ es"
    and "prompt_replies J ''blockchain.scripthash.get_history'' 25
           (index_result J (\<lambda>v. address_history_from_json J ahi0 v [])) (id_counter w) spkhs history_reads hists"
    and "items = std_sort history_before (fold ahi_insert (concat hists) [])"
    and "prompt_replies J ''blockchain.transaction.get'' 100 (at_result J (js_get_string J))
           (id_counter w + int (length spkhs)) (map ahi_txid items) text_reads texts"
    and "list_all2 (\<lambda>t tx. hex_2_tx L t = Inr tx) texts txs"
  shows "\<exists>infos s' w'. get_all_txs_sorted_bulk L (ronghua_interface J ahi0) (s, w) = (Inr infos, (s', w')) \<and>
    map ti_tx infos = txs \<and> map ti_height infos = map ahi_height items \<and> all_history s' = items \<and>
    map (known_history s') (ws_addresses s) = hists \<and> map (known_txhex s') (map ahi_txid items) = texts \<and>
    length (sent w') = length (sent w) + length spkhs + length items \<and> idle w' \<and> events w' = es \<and>
    id_counter w' = id_counter w + int (length spkhs) + int (length items) \<and> ws_addresses s' = ws_addresses s \<and>
    progress_callbacks s' = progress_callbacks s \<and>
    (\<forall>txid. txid \<notin> set (map ahi_txid items) \<longrightarrow> known_txhex s' txid = known_txhex s txid)"
proof -
  let ?E = "ronghua_interface J ahi0 :: ('a, 'a RonghuaClient) ElectrumInterface"
  have ev: "events w = map (ReadSome None) (concat history_reads) @ (map (ReadSome None) (concat text_reads) @ es)"
    using assms(8) by simp
  from history_bulk_returns [OF assms(1-3) _ assms(9) ev, of "progress_callbacks s"] assms(4) obtain w1 where
    h: "getHistoryBulk J ahi0 spkhs (progress_callbacks s) w = (Inr hists, w1)"
    "length (sent w1) = length (sent w) + length spkhs" "idle w1"
    "id_counter w1 = id_counter w + int (length spkhs)" "events w1 = map (ReadSome None) (concat text_reads) @ es"
    by auto
  have len: "length hists = length (ws_addresses s)"
    using prompt_replies_length [OF assms(9)] list_all2_lengthD [OF assms(7)] by simp
  have "ei_getHistoryBulk ?E spkhs (progress_callbacks s) w = (Inr hists, w1)"
    using h(1) by (simp add: ronghua_interface_def)
  from refresh_bulk_answered [OF assms(6,5,7) this len] obtain s1 where
    ref: "refresh_all_history_bulk L ?E (s, w) = (Inr (), (s1, w1))"
    "all_history s1 = fold ahi_insert (concat hists) []" "map (known_history s1) (ws_addresses s) = hists"
    "ws_addresses s1 = ws_addresses s" "progress_callbacks s1 = progress_callbacks s" "known_txhex s1 = known_txhex s" by blast
  from transaction_bulk_returns [OF assms(1) h(3) _ _ assms(11) [folded h(4)] h(5), of "progress_callbacks s"] assms(3,4) h(4) obtain w2 where
    t: "getTransactionBulk J (map ahi_txid items) (progress_callbacks s) w1 = (Inr texts, w2)"
    "length (sent w2) = length (sent w1) + length items" "idle w2" "events w2 = es"
    "id_counter w2 = id_counter w + int (length spkhs) + int (length items)"
    by auto
  let ?s2 = "s1\<lparr>all_history := items\<rparr>"
  let ?s3 = "?s2\<lparr>txid_2_txhex_cache := (txid_2_txhex_cache ?s2)(map ahi_txid items [\<mapsto>] texts)\<rparr>"
  let ?infos = "map2 (\<lambda>item tx. \<lparr>ti_tx = tx, ti_height = ahi_height item, ti_fresh = ahi_fresh item\<rparr>) items txs"
  have texts: "length texts = length items" using prompt_replies_length [OF assms(11)] by simp
  have "foldE (collect_tx_bulk L texts) (enumerate 0 items) [] (?s2, w2) = (Inr ?infos, (?s3, w2))"
    using collect_txs_bulk_eval [of 0 items texts L txs "[]" ?s2 w2] assms(12) texts by simp
  with ref t(1) assms(10) have run: "get_all_txs_sorted_bulk L ?E (s, w) = (Inr ?infos, (?s3, w2))"
    by (simp add: get_all_txs_sorted_bulk_def bindE_def sort_all_history_def ronghua_interface_def)
  have "distinct (map ahi_txid items)" unfolding assms(10) by (simp add: distinct_union_ids)
  then have "known_txhex ?s3 (ahi_txid (items ! i)) = texts ! i" if "i < length items" for i
    using map_upds_nth [of "map ahi_txid items" texts i "txid_2_txhex_cache s1"] texts that by (simp add: known_txhex_def)
  then have "map (known_txhex ?s3) (map ahi_txid items) = texts"
    using texts by (simp add: list_eq_iff_nth_eq)
  moreover have "known_history ?s3 = known_history s1" by (simp add: fun_eq_iff known_history_def)
  moreover have "known_txhex ?s3 txid = known_txhex s txid" if "txid \<notin> set (map ahi_txid items)" for txid
    unfolding ref(6) [symmetric] using that by (simp add: known_txhex_def map_upds_apply_nontin)
  moreover obtain infos where infos: "infos = ?infos" by blast
  moreover from this have "map ti_tx infos = txs" "map ti_height infos = map ahi_height items"
    using list_all2_lengthD [OF assms(12)] texts by (simp_all add: list_eq_iff_nth_eq)
  ultimately show ?thesis
    using run [folded infos] h(2) t(2-5) ref(3-5) by (intro exI [where x = infos] exI [where x = ?s3] exI [where x = w2] conjI) simp_all
qed

section \<open>Property\<close>


text \<open>
  An empty wallet with one address, in front of a client whose server knows two transactions of
  it; the texts are asked for in display order and answered in the opposite order.
\<close>

definition sample_front :: "json RonghuaClient WalletState" where
  "sample_front = \<lparr>ws_addresses = [],
     ws_spkh_2_address = Map.empty, txid_2_txhex_cache = Map.empty, address_2_history_cache = Map.empty,
     address_2_history_cache_empty = Map.empty, all_history = [], ws_address_to_data = Map.empty,
     history_queue = [], balance_queue = [], historyhash_queue = [], progress_callbacks = []\<rparr>"

definition sample_sync_replies :: "(string \<times> (string \<times> json) list) list" where
  "sample_sync_replies =
    [(''H'', [(''id'', JInt 1), (''result'', JArray
        [JObject [(''height'', JInt 7), (''tx_hash'', JString ''x'')],
         JObject [(''height'', JInt 0), (''tx_hash'', JString ''y'')]])]),
     (''Y'', [(''id'', JInt 2), (''result'', JString ''yy'')]),
     (''X'', [(''id'', JInt 3), (''result'', JString ''xx'')])]"


end
