(* ===== verification/LedgerBalance.thy ===== *)
theory LedgerBalance
  imports WalletViews
begin

text \<open>
  The two balances of \<^verbatim>\<open>HistoryInspector\<close>, address by address and transaction by transaction: for
  a wallet whose caches hold a complete ledger they are the same number.
\<close>

section \<open>The items of a ledger\<close>

text \<open>The transaction the cache holds for an id, and the analysed form of it.\<close>

definition known_tx :: "libbitcoin \<Rightarrow> 'w WalletState \<Rightarrow> string \<Rightarrow> transaction" where
  "known_tx L s txid = projr (hex_2_tx L (known_txhex s txid))"

definition funding_id :: "libbitcoin \<Rightarrow> txin \<Rightarrow> string" where
  "funding_id L i = lb_encode_hash L (op_hash (previous_output i))"

definition previous_out :: "libbitcoin \<Rightarrow> 'w WalletState \<Rightarrow> txin \<Rightarrow> txout" where
  "previous_out L s i = tx_outputs (known_tx L s (funding_id L i)) ! nat (sint (op_index (previous_output i)))"

definition item_of :: "libbitcoin \<Rightarrow> bool \<Rightarrow> 'w WalletState \<Rightarrow> string \<Rightarrow> TxBalance" where
  "item_of L is_testnet s txid =
     \<lparr>tb_tx_id = txid,
      tb_inputs = map (\<lambda>i. input_row L is_testnet i (previous_out L s i) (is_in_wallet s)) (tx_inputs (known_tx L s txid)),
      tb_outputs = map (balance_output L is_testnet s) (tx_outputs (known_tx L s txid))\<rparr>"

text \<open>The cache holds the transaction and the outputs its inputs spend.\<close>

definition input_known :: "libbitcoin \<Rightarrow> 'w WalletState \<Rightarrow> txin \<Rightarrow> bool" where
  "input_known L s i \<longleftrightarrow> known_txhex s (funding_id L i) \<noteq> [] \<and> 0 \<le> sint (op_index (previous_output i)) \<and>
     nat (sint (op_index (previous_output i))) < length (tx_outputs (known_tx L s (funding_id L i)))"

definition analysed :: "libbitcoin \<Rightarrow> 'w WalletState \<Rightarrow> string \<Rightarrow> bool" where
  "analysed L s txid \<longleftrightarrow> known_txhex s txid \<noteq> [] \<and> list_all (input_known L s) (tx_inputs (known_tx L s txid))"

lemma known_tx_extends: "extends s t \<Longrightarrow> known_txhex s txid \<noteq> [] \<Longrightarrow> known_tx L t txid = known_tx L s txid"
  by (simp add: extends_def known_tx_def)

lemma input_known_extends:
  assumes "extends s t" "input_known L s i"
  shows "input_known L t i" "previous_out L t i = previous_out L s i"
  using assms known_tx_extends [OF assms(1), of "funding_id L i" L]
  by (auto simp: input_known_def previous_out_def extends_def)

lemma balance_output_extends: "extends s t \<Longrightarrow> balance_output L is_testnet t = balance_output L is_testnet s"
  by (simp add: fun_eq_iff balance_output_def extends_in_wallet split: list.splits)

lemma analysed_extends:
  assumes "extends s t" "analysed L s txid"
  shows "analysed L t txid" "item_of L is_testnet t txid = item_of L is_testnet s txid"
proof -
  from assms have tx: "known_tx L t txid = known_tx L s txid" by (simp add: analysed_def known_tx_extends)
  from assms(2) have inputs: "\<forall>i \<in> set (tx_inputs (known_tx L s txid)). input_known L s i"
    by (simp add: analysed_def list_all_iff)
  show "analysed L t txid"
    using assms inputs input_known_extends(1) [OF assms(1)]
    by (auto simp: analysed_def tx list_all_iff) (auto simp: extends_def)
  show "item_of L is_testnet t txid = item_of L is_testnet s txid"
    unfolding item_of_def tx using inputs input_known_extends(2) [OF assms(1)] extends_in_wallet [OF assms(1)]
      balance_output_extends [OF assms(1)] by simp
qed

section \<open>What the operations compute\<close>

lemma get_transaction_known:
  assumes "hex_2_tx L [] = Inl e" "get_transaction L E txid (s, w) = (Inr tx, (s', w'))" "coherent s"
  shows "coherent s' \<and> extends s s' \<and> known_txhex s' txid \<noteq> [] \<and> known_tx L s' txid = tx"
  using learnsD(1,2) [OF learns_get_transaction [OF assms(1), of _ _ E] assms(2,3)] get_transaction_spec [OF assms(2)]
    assms(1) by (auto simp: known_tx_def)

lemma balance_input_known:
  assumes "hex_2_tx L [] = Inl e" "balance_input L E is_testnet i (s, w) = (Inr b, (s', w'))" "coherent s"
  shows "coherent s' \<and> extends s s' \<and> input_known L s' i \<and>
    b = input_row L is_testnet i (previous_out L s' i) (is_in_wallet s')"
proof -
  from assms(2) obtain ftx prev where
    get: "get_transaction L E (funding_id L i) (s, w) = (Inr ftx, (s', w'))" and
    prev: "at_index (tx_outputs ftx) (sint (op_index (previous_output i))) = Inr prev" and
    b: "b = input_row L is_testnet i prev (is_in_wallet s')"
    by (auto simp: balance_input_rows funding_id_def bindE_Inr_iff)
  from get_transaction_known [OF assms(1) get assms(3)] prev b show ?thesis
    by (auto simp: input_known_def previous_out_def at_index_def vec_at_Inr_iff split: if_splits)
qed

lemma balance_inputs_known:
  assumes "hex_2_tx L [] = Inl e" "coherent s"
    and "foldE (\<lambda>i acc. bindE (balance_input L E is_testnet i) (\<lambda>b. ret (acc @ [b]))) is acc (s, w) = (Inr bs, (s', w'))"
  shows "coherent s' \<and> extends s s' \<and> list_all (input_known L s') is \<and>
    bs = acc @ map (\<lambda>i. input_row L is_testnet i (previous_out L s' i) (is_in_wallet s')) is"
  using assms(2,3)
proof (induction "is" arbitrary: acc s w)
  case Nil
  then show ?case by simp
next
  case (Cons i "is")
  from Cons.prems(2) obtain b s1 w1 where
    one: "balance_input L E is_testnet i (s, w) = (Inr b, (s1, w1))" and
    rest: "foldE (\<lambda>i acc. bindE (balance_input L E is_testnet i) (\<lambda>b. ret (acc @ [b]))) is (acc @ [b]) (s1, w1)
      = (Inr bs, (s', w'))"
    by (auto simp only: foldE.simps bindE_Inr_iff ret_Inr_iff)
  from balance_input_known [OF assms(1) one Cons.prems(1)] have
    b: "coherent s1" "extends s s1" "input_known L s1 i"
    "b = input_row L is_testnet i (previous_out L s1 i) (is_in_wallet s1)" by auto
  from Cons.IH [OF b(1) rest] have ih: "coherent s'" "extends s1 s'" "list_all (input_known L s') is"
    "bs = (acc @ [b]) @ map (\<lambda>i. input_row L is_testnet i (previous_out L s' i) (is_in_wallet s')) is" by auto
  from ih b input_known_extends [OF ih(2) b(3)] extends_in_wallet [OF ih(2)] extends_trans [OF b(2) ih(2)]
  show ?case by simp
qed

lemma analyse_known:
  assumes "hex_2_tx L [] = Inl e" "coherent s"
    and "analyse_tx_balances L E is_testnet txid items (s, w) = (Inr r, (s', w'))"
  shows "coherent s' \<and> extends s s' \<and> analysed L s' txid \<and> r = items @ [item_of L is_testnet s' txid]"
proof -
  from assms(3) obtain tx s1 w1 bs where
    get: "get_transaction L E txid (s, w) = (Inr tx, (s1, w1))" and
    bs: "foldE (\<lambda>i acc. bindE (balance_input L E is_testnet i) (\<lambda>b. ret (acc @ [b]))) (tx_inputs tx) [] (s1, w1)
      = (Inr bs, (s', w'))" and
    r: "r = items @ [\<lparr>tb_tx_id = txid, tb_inputs = bs, tb_outputs = map (balance_output L is_testnet s') (tx_outputs tx)\<rparr>]"
    by (auto simp: analyse_tx_balances_def bindE_Inr_iff)
  from get_transaction_known [OF assms(1) get assms(2)] have
    tx: "coherent s1" "extends s s1" "known_txhex s1 txid \<noteq> []" "known_tx L s1 txid = tx" by auto
  from balance_inputs_known [OF assms(1) tx(1) bs] have
    b: "coherent s'" "extends s1 s'" "list_all (input_known L s') (tx_inputs tx)"
    "bs = map (\<lambda>i. input_row L is_testnet i (previous_out L s' i) (is_in_wallet s')) (tx_inputs tx)" by auto
  from known_tx_extends [OF b(2) tx(3), of L] tx(4) have "known_tx L s' txid = tx" by simp
  moreover have "known_txhex s' txid \<noteq> []" using b(2) tx(3) by (simp add: extends_def)
  ultimately show ?thesis using r b extends_trans [OF tx(2) b(2)] by (simp add: item_of_def analysed_def)
qed

text \<open>The items a balance is computed from.\<close>

definition ledger_items :: "libbitcoin \<Rightarrow> bool \<Rightarrow> 'w WalletState \<Rightarrow> string \<Rightarrow> TxBalance list" where
  "ledger_items L is_testnet s a = map (item_of L is_testnet s) (map ahi_txid (known_history s a))"

lemma items_extend:
  assumes "extends s t" "list_all (analysed L s) ids"
  shows "list_all (analysed L t) ids \<and> map (item_of L is_testnet t) ids = map (item_of L is_testnet s) ids"
  using assms(2) by (induction ids) (simp_all add: analysed_extends [OF assms(1)])

lemma items_extend_map:
  assumes "extends s t" "list_all (analysed L s) ids"
  shows "map (\<lambda>txid. f (item_of L is_testnet t txid)) ids = map (\<lambda>txid. f (item_of L is_testnet s txid)) ids"
  using assms(2) by (induction ids) (simp_all add: analysed_extends [OF assms(1)])

lemma ledger_items_extend:
  assumes "extends s t" "settled s a" "list_all (analysed L s) (map ahi_txid (known_history s a))"
  shows "list_all (analysed L t) (map ahi_txid (known_history t a))"
    "ledger_items L is_testnet t a = ledger_items L is_testnet s a"
  using items_extend [OF assms(1,3)] assms(1,2) by (simp_all add: extends_def ledger_items_def)

lemma analyse_all_known:
  assumes "hex_2_tx L [] = Inl e" "coherent s"
    and "foldE (\<lambda>item. analyse_tx_balances L E is_testnet (ahi_txid item)) history acc (s, w) = (Inr r, (s', w'))"
  shows "coherent s' \<and> extends s s' \<and> list_all (analysed L s') (map ahi_txid history) \<and>
    r = acc @ map (item_of L is_testnet s') (map ahi_txid history)"
  using assms(2,3)
proof (induction history arbitrary: acc s w)
  case Nil
  then show ?case by simp
next
  case (Cons item history)
  from Cons.prems(2) obtain acc1 s1 w1 where
    one: "analyse_tx_balances L E is_testnet (ahi_txid item) acc (s, w) = (Inr acc1, (s1, w1))" and
    rest: "foldE (\<lambda>item. analyse_tx_balances L E is_testnet (ahi_txid item)) history acc1 (s1, w1) = (Inr r, (s', w'))"
    by (auto simp: bindE_Inr_iff)
  note a = analyse_known [OF assms(1) Cons.prems(1) one]
  from a have "coherent s1" by simp
  note ih = Cons.IH [OF this rest]
  from a ih have "extends s1 s'" "analysed L s1 (ahi_txid item)" by simp_all
  note analysed_extends [OF this]
  with a ih show ?case using extends_trans by auto
qed

lemma address_balance_known:
  assumes "hex_2_tx L [] = Inl e" "coherent s"
    and "calculate_address_balance L E is_testnet a False (s, w) = (Inr b, (s', w'))"
  shows "coherent s' \<and> extends s s' \<and> settled s' a \<and>
    list_all (analysed L s') (map ahi_txid (known_history s' a)) \<and>
    b = calc_address_balance a (ledger_items L is_testnet s' a)"
proof -
  from assms(3) obtain history s1 w1 items where
    get: "get_history L E a [] (s, w) = (Inr history, (s1, w1))" and
    loop: "foldE (\<lambda>item. analyse_tx_balances L E is_testnet (ahi_txid item)) history [] (s1, w1) = (Inr items, (s', w'))" and
    b: "b = calc_address_balance a items"
    by (auto simp: calculate_address_balance_def bindE_Inr_iff)
  have s1: "coherent s1" "extends s s1" using learnsD(1,2) [OF learns_get_history [of L E a E] get assms(2)] by auto
  from get_history_spec [OF get assms(2)] have
    h: "settled s1 a" "map ahi_txid history = map ahi_txid (known_history s1 a)" by auto
  note all = analyse_all_known [OF assms(1) s1(1) loop]
  from all have "extends s1 s'" by simp
  with h(1) have "settled s' a" "known_history s' a = known_history s1 a" by (simp_all add: extends_def)
  with all b h(2) extends_trans [OF s1(2)] show ?thesis by (simp add: ledger_items_def)
qed

lemma total_balance_known:
  assumes "hex_2_tx L [] = Inl e" "coherent s"
    and "calculate_total_balance L E is_testnet False (s, w) = (Inr b, (s', w'))"
  shows "coherent s' \<and> extends s s' \<and> (\<forall>a \<in> set (ws_addresses s'). settled s' a \<and>
      list_all (analysed L s') (map ahi_txid (known_history s' a))) \<and>
    b = sum_list (map (\<lambda>a. calc_address_balance a (ledger_items L is_testnet s' a)) (ws_addresses s'))"
proof -
  have "coherent s' \<and> extends s s' \<and> (\<forall>a \<in> set as. settled s' a \<and>
      list_all (analysed L s') (map ahi_txid (known_history s' a))) \<and>
    b = b0 + sum_list (map (\<lambda>a. calc_address_balance a (ledger_items L is_testnet s' a)) as)"
    if "foldE (\<lambda>address balance. bindE (calculate_address_balance L E is_testnet address False)
        (\<lambda>b. ret (balance + b))) as b0 (s, w) = (Inr b, (s', w'))" "coherent s" for as b0 s w
    using that
  proof (induction as arbitrary: b0 s w)
    case Nil
    then show ?case by simp
  next
    case (Cons a as)
    from Cons.prems(1) obtain c s1 w1 where
      one: "calculate_address_balance L E is_testnet a False (s, w) = (Inr c, (s1, w1))" and
      rest: "foldE (\<lambda>address balance. bindE (calculate_address_balance L E is_testnet address False)
        (\<lambda>b. ret (balance + b))) as (b0 + c) (s1, w1) = (Inr b, (s', w'))"
      by (auto simp only: foldE.simps bindE_Inr_iff ret_Inr_iff)
    note a = address_balance_known [OF assms(1) Cons.prems(2) one]
    from a have "coherent s1" by simp
    note ih = Cons.IH [OF rest this]
    from a ih have "extends s1 s'" "settled s1 a" "list_all (analysed L s1) (map ahi_txid (known_history s1 a))"
      by simp_all
    note ledger_items_extend [OF this]
    moreover have "settled s' a" using \<open>extends s1 s'\<close> \<open>settled s1 a\<close> by (simp add: extends_def)
    ultimately show ?case using a ih extends_trans by (auto simp: add.assoc)
  qed
  from this [of "ws_addresses s" 0 s w] assms(2,3) show ?thesis
    by (auto simp: calculate_total_balance_def extends_def)
qed

text \<open>The sum of the impacts over a list of transactions.\<close>

lemma impact_known:
  assumes "hex_2_tx L [] = Inl e" "coherent s"
    and "calculate_tx_wallet_impact L E is_testnet txid (s, w) = (Inr impact, (s', w'))"
  shows "coherent s' \<and> extends s s' \<and> analysed L s' txid \<and>
    balance_delta impact = balance_delta (impact_of_items L [item_of L is_testnet s' txid])"
proof -
  from assms(3) obtain items where "analyse_tx_balances L E is_testnet txid [] (s, w) = (Inr items, (s', w'))"
    "impact = impact_of_items L items"
    by (auto simp: calculate_tx_wallet_impact_def bindE_Inr_iff)
  with analyse_known [OF assms(1,2) this(1)] show ?thesis by simp
qed

lemma sum_impacts_known:
  assumes "hex_2_tx L [] = Inl e" "coherent s"
    and "sum_impacts L E is_testnet add ok txs (s, w) = (Inr b, (s', w'))"
    and "\<And>a b c. add a b = Inr c \<Longrightarrow> c = a + b"
  shows "coherent s' \<and> extends s s' \<and> list_all (analysed L s') (map (tx_id_of L) (filter (\<lambda>ti. ok (ti_height ti)) txs)) \<and>
    b = sum_list (map (\<lambda>txid. balance_delta (impact_of_items L [item_of L is_testnet s' txid]))
      (map (tx_id_of L) (filter (\<lambda>ti. ok (ti_height ti)) txs)))"
proof -
  let ?step = "\<lambda>tx_info balance. if ok (ti_height tx_info)
       then bindE (calculate_tx_wallet_impact L E is_testnet (tx_id_of L tx_info)) (\<lambda>impact.
            liftR (add balance (balance_delta impact)))
       else ret balance"
  let ?ids = "\<lambda>txs. map (tx_id_of L) (filter (\<lambda>ti. ok (ti_height ti)) txs)"
  have "coherent s' \<and> extends s s' \<and> list_all (analysed L s') (?ids txs) \<and>
    b = b0 + sum_list (map (\<lambda>txid. balance_delta (impact_of_items L [item_of L is_testnet s' txid])) (?ids txs))"
    if "foldE ?step txs b0 (s, w) = (Inr b, (s', w'))" "coherent s" for b0 s w
    using that
  proof (induction txs arbitrary: b0 s w)
    case Nil
    then show ?case by simp
  next
    case (Cons ti txs)
    show ?case
    proof (cases "ok (ti_height ti)")
      case False
      with Cons.prems(1) have "foldE ?step txs b0 (s, w) = (Inr b, (s', w'))" by simp
      from Cons.IH [OF this Cons.prems(2)] False show ?thesis by simp
    next
      case True
      with Cons.prems(1) obtain impact s1 w1 b1 where
        one: "calculate_tx_wallet_impact L E is_testnet (tx_id_of L ti) (s, w) = (Inr impact, (s1, w1))" and
        add: "add b0 (balance_delta impact) = Inr b1" and
        rest: "foldE ?step txs b1 (s1, w1) = (Inr b, (s', w'))"
        by (auto simp only: foldE.simps bindE_Inr_iff ret_Inr_iff if_True liftR_def prod.inject)
      note assms(4) [OF add]
      note a = impact_known [OF assms(1) Cons.prems(2) one]
      from a have "coherent s1" by simp
      note ih = Cons.IH [OF rest this]
      from a ih have "extends s1 s'" "analysed L s1 (tx_id_of L ti)" by simp_all
      note analysed_extends [OF this]
      with a ih True \<open>b1 = b0 + balance_delta impact\<close> show ?thesis using extends_trans by (auto simp: add.assoc)
    qed
  qed
  from this [of 0 s w] assms(2,3) show ?thesis by (simp add: sum_impacts_def)
qed

section \<open>Sums over a ledger\<close>

text \<open>What a transaction pays to an address and takes from it.\<close>

definition paid :: "string \<Rightarrow> TxBalance \<Rightarrow> u64" where
  "paid a item = sum_list (map tbo_value (filter (\<lambda>o1. tbo_address o1 = a) (tb_outputs item)))"

definition taken :: "string \<Rightarrow> TxBalance \<Rightarrow> u64" where
  "taken a item = sum_list (map tbi_value (filter (\<lambda>i. tbi_address i = a) (tb_inputs item)))"

lemma sum_filter_disjoint:
  fixes f :: "'a \<Rightarrow> u64"
  assumes "\<And>x. x \<in> set xs \<Longrightarrow> R x \<longleftrightarrow> P x \<or> Q x" "\<And>x. \<not> (P x \<and> Q x)"
  shows "sum_list (map f (filter R xs)) = sum_list (map f (filter P xs)) + sum_list (map f (filter Q xs))"
  using assms(1)
proof (induction xs)
  case (Cons x xs)
  then have "sum_list (map f (filter R xs)) = sum_list (map f (filter P xs)) + sum_list (map f (filter Q xs))" by simp
  with Cons.prems [of x] assms(2) [of x] show ?case by (auto simp: algebra_simps)
qed simp

lemma sum_by_key:
  fixes f :: "'a \<Rightarrow> u64"
  assumes "distinct as"
  shows "sum_list (map (\<lambda>a. sum_list (map f (filter (\<lambda>x. k x = a) xs))) as) =
    sum_list (map f (filter (\<lambda>x. k x \<in> set as) xs))"
  using assms
proof (induction as)
  case (Cons a as)
  have "sum_list (map f (filter (\<lambda>x. k x \<in> set (a # as)) xs)) =
      sum_list (map f (filter (\<lambda>x. k x = a) xs)) + sum_list (map f (filter (\<lambda>x. k x \<in> set as) xs))"
    using Cons.prems by (intro sum_filter_disjoint) auto
  with Cons show ?case by simp
qed simp

lemma sum_list_swap:
  fixes f :: "'a \<Rightarrow> 'b \<Rightarrow> u64"
  shows "sum_list (map (\<lambda>x. sum_list (map (f x) ys)) xs) = sum_list (map (\<lambda>y. sum_list (map (\<lambda>x. f x y) xs)) ys)"
  by (induction xs) (simp_all add: sum_list_addf)

lemma sum_list_support:
  fixes f :: "'a \<Rightarrow> u64"
  assumes "distinct xs" "distinct ys" "set xs \<subseteq> set ys" "\<And>y. y \<in> set ys \<Longrightarrow> y \<notin> set xs \<Longrightarrow> f y = 0"
  shows "sum_list (map f xs) = sum_list (map f ys)"
  unfolding sum_list_distinct_conv_sum_set [OF assms(1)] sum_list_distinct_conv_sum_set [OF assms(2)]
  using assms(3,4) by (intro sum.mono_neutral_left) auto

text \<open>The inputs that spend an output of \<^verbatim>\<open>os\<close>, numbered from \<^verbatim>\<open>oidx\<close>, that pays \<^verbatim>\<open>a\<close>.\<close>

definition spends_paid :: "string \<Rightarrow> string \<Rightarrow> int \<Rightarrow> TxBalanceOutput list \<Rightarrow> TxBalanceInput \<Rightarrow> bool" where
  "spends_paid a tx oidx os i \<longleftrightarrow> funding_tx i = tx \<and> oidx \<le> funding_idx i \<and>
     nat (funding_idx i - oidx) < length os \<and> tbo_address (os ! nat (funding_idx i - oidx)) = a"

lemma spends_paid_Cons:
  "spends_paid a tx oidx (o1 # os) i \<longleftrightarrow>
     spends i = (tx, oidx) \<and> tbo_address o1 = a \<or> spends_paid a tx (oidx + 1) os i"
proof (cases "oidx < funding_idx i")
  case True
  then have "nat (funding_idx i - oidx) = Suc (nat (funding_idx i - (oidx + 1)))" by simp
  with True show ?thesis by (auto simp: spends_paid_def spends_def)
next
  case False
  then show ?thesis by (auto simp: spends_paid_def spends_def)
qed

lemma add_outputs_paid:
  "add_outputs a tx later oidx os b =
     b + sum_list (map tbo_value (filter (\<lambda>o1. tbo_address o1 = a) os)) -
     sum_list (map tbi_value (filter (spends_paid a tx oidx os) (all_inputs later)))"
proof (induction os arbitrary: oidx b)
  case Nil
  have "filter (spends_paid a tx oidx []) (all_inputs later) = []" by (simp add: spends_paid_def filter_empty_conv)
  then show ?case by simp
next
  case (Cons o1 os)
  let ?spent = "\<lambda>P. sum_list (map tbi_value (filter P (all_inputs later)))"
  have "?spent (spends_paid a tx oidx (o1 # os)) =
      ?spent (\<lambda>i. spends i = (tx, oidx) \<and> tbo_address o1 = a) + ?spent (spends_paid a tx (oidx + 1) os)"
    by (rule sum_filter_disjoint [OF spends_paid_Cons]) (auto simp: spends_paid_def spends_def)
  moreover have "filter (\<lambda>i. spends i = (tx, oidx) \<and> tbo_address o1 = a) (all_inputs later) =
      (if tbo_address o1 = a then filter (\<lambda>i. spends i = (tx, oidx)) (all_inputs later) else [])" by simp
  ultimately show ?case by (simp add: Cons.IH deduct_items_sum algebra_simps)
qed

text \<open>An input refers to an output that exists and pays the address the input names.\<close>

definition address_agrees :: "TxBalance list \<Rightarrow> TxBalanceInput \<Rightarrow> bool" where
  "address_agrees items i \<longleftrightarrow> list_all (\<lambda>item. tb_tx_id item = funding_tx i \<longrightarrow>
     0 \<le> funding_idx i \<and> nat (funding_idx i) < length (tb_outputs item) \<and>
     tbo_address (tb_outputs item ! nat (funding_idx i)) = tbi_address i) items"

lemma add_items_paid:
  assumes "chronological items" "distinct (map tb_tx_id items)" "list_all (address_agrees items) (all_inputs items)"
  shows "add_items a items b = b + sum_list (map (paid a) items) -
    sum_list (map tbi_value (filter (\<lambda>i. funding_tx i \<in> tb_tx_id ` set items \<and> tbi_address i = a) (all_inputs items)))"
  using assms
proof (induction items arbitrary: b)
  case Nil
  then show ?case by simp
next
  case (Cons item later)
  let ?tx = "tb_tx_id item"
  let ?ids = "tb_tx_id ` set later"
  let ?spent = "\<lambda>P. sum_list (map tbi_value (filter P (all_inputs later)))"
  from Cons.prems(3) have agree: "address_agrees (item # later) i" if "i \<in> set (all_inputs later)" for i
    using that by (auto simp: list_all_iff)
  then have "list_all (address_agrees later) (all_inputs later)"
    by (auto simp: list_all_iff address_agrees_def)
  with Cons have ih: "add_items a later b' = b' + sum_list (map (paid a) later) -
      ?spent (\<lambda>i. funding_tx i \<in> ?ids \<and> tbi_address i = a)" for b'
    by simp
  have "filter (\<lambda>i. funding_tx i \<in> insert ?tx ?ids \<and> tbi_address i = a) (tb_inputs item) = []"
    using Cons.prems(1) by (auto simp: filter_empty_conv list_all_iff)
  then have own: "filter (\<lambda>i. funding_tx i \<in> insert ?tx ?ids \<and> tbi_address i = a) (all_inputs (item # later)) =
      filter (\<lambda>i. funding_tx i \<in> insert ?tx ?ids \<and> tbi_address i = a) (all_inputs later)" by simp
  have "filter (spends_paid a ?tx 0 (tb_outputs item)) (all_inputs later) =
      filter (\<lambda>i. funding_tx i = ?tx \<and> tbi_address i = a) (all_inputs later)"
  proof (rule filter_cong [OF refl])
    fix i assume "i \<in> set (all_inputs later)"
    from agree [OF this] show "spends_paid a ?tx 0 (tb_outputs item) i \<longleftrightarrow> funding_tx i = ?tx \<and> tbi_address i = a"
      by (auto simp: spends_paid_def address_agrees_def)
  qed
  moreover have "?spent (\<lambda>i. funding_tx i \<in> insert ?tx ?ids \<and> tbi_address i = a) =
      ?spent (\<lambda>i. funding_tx i = ?tx \<and> tbi_address i = a) + ?spent (\<lambda>i. funding_tx i \<in> ?ids \<and> tbi_address i = a)"
    using Cons.prems(2) by (intro sum_filter_disjoint) auto
  ultimately show ?case
    unfolding list.set(2) image_insert own by (simp add: ih add_outputs_paid paid_def [of a item] algebra_simps)
qed

text \<open>When every input from \<^verbatim>\<open>a\<close> spends an output of the list, the balance is what was paid minus
  what was taken.\<close>

lemma address_balance_paid_taken:
  assumes "chronological items" "distinct (map tb_tx_id items)" "list_all (address_agrees items) (all_inputs items)"
    and "\<And>i. i \<in> set (all_inputs items) \<Longrightarrow> tbi_address i = a \<Longrightarrow> funding_tx i \<in> tb_tx_id ` set items"
  shows "calc_address_balance a items = sum_list (map (\<lambda>item. paid a item - taken a item) items)"
proof -
  have "filter (\<lambda>i. funding_tx i \<in> tb_tx_id ` set items \<and> tbi_address i = a) (all_inputs items) =
      filter (\<lambda>i. tbi_address i = a) (all_inputs items)"
    using assms(4) by (intro filter_cong refl) auto
  then have "calc_address_balance a items = sum_list (map (paid a) items) -
      sum_list (map tbi_value (filter (\<lambda>i. tbi_address i = a) (all_inputs items)))"
    using add_items_paid [OF assms(1-3), of a 0] by (simp add: calc_address_balance_def)
  also have "sum_list (map tbi_value (filter (\<lambda>i. tbi_address i = a) (all_inputs items))) =
      sum_list (map (taken a) items)"
    by (induction items) (simp_all add: taken_def)
  finally show ?thesis by (simp add: sum_list_subtractf)
qed

text \<open>The impact of a transaction, address by address.\<close>

lemma impact_paid_taken:
  assumes "distinct as" "\<And>o1. o1 \<in> set (tb_outputs item) \<Longrightarrow> tbo_in_wallet o1 \<longleftrightarrow> tbo_address o1 \<in> set as"
    and "\<And>i. i \<in> set (tb_inputs item) \<Longrightarrow> tbi_in_wallet i \<longleftrightarrow> tbi_address i \<in> set as"
  shows "balance_delta (impact_of_items L [item]) = sum_list (map (\<lambda>a. paid a item - taken a item) as)"
proof -
  have "filter tbo_in_wallet (tb_outputs item) = filter (\<lambda>o1. tbo_address o1 \<in> set as) (tb_outputs item)"
    "filter tbi_in_wallet (tb_inputs item) = filter (\<lambda>i. tbi_address i \<in> set as) (tb_inputs item)"
    using assms(2,3) by (simp_all cong: filter_cong)
  then show ?thesis
    by (simp add: impact_of_items_def Let_def impact_item_def impact_inputs_sums impact_outputs_sums
        paid_def taken_def sum_list_subtractf sum_by_key [OF assms(1)])
qed

text \<open>
  Balances by address and by transaction: the histories \<^verbatim>\<open>H a\<close> are parts of one list of
  transactions, and a transaction that concerns an address is in its history.
\<close>

lemma balances_by_address_and_transaction:
  fixes item :: "string \<Rightarrow> TxBalance"
  assumes "distinct as" "distinct ids" "\<And>txid. tb_tx_id (item txid) = txid"
    and "\<And>a. a \<in> set as \<Longrightarrow> distinct (H a) \<and> chronological (map item (H a)) \<and> set (H a) \<subseteq> set ids"
    and "\<And>a. a \<in> set as \<Longrightarrow> list_all (address_agrees (map item (H a))) (all_inputs (map item (H a)))"
    and "\<And>a txid. a \<in> set as \<Longrightarrow> txid \<in> set ids \<Longrightarrow> a \<in> tbo_address ` set (tb_outputs (item txid)) \<Longrightarrow> txid \<in> set (H a)"
    and "\<And>a txid i. a \<in> set as \<Longrightarrow> txid \<in> set ids \<Longrightarrow> i \<in> set (tb_inputs (item txid)) \<Longrightarrow> tbi_address i = a \<Longrightarrow>
      txid \<in> set (H a) \<and> funding_tx i \<in> set (H a)"
    and "\<And>txid o1. txid \<in> set ids \<Longrightarrow> o1 \<in> set (tb_outputs (item txid)) \<Longrightarrow>
      tbo_in_wallet o1 \<longleftrightarrow> tbo_address o1 \<in> set as"
    and "\<And>txid i. txid \<in> set ids \<Longrightarrow> i \<in> set (tb_inputs (item txid)) \<Longrightarrow>
      tbi_in_wallet i \<longleftrightarrow> tbi_address i \<in> set as"
  shows "sum_list (map (\<lambda>a. calc_address_balance a (map item (H a))) as) =
    sum_list (map (\<lambda>txid. balance_delta (impact_of_items L [item txid])) ids)"
proof -
  have address: "calc_address_balance a (map item (H a)) =
      sum_list (map (\<lambda>txid. paid a (item txid) - taken a (item txid)) ids)" if a: "a \<in> set as" for a
  proof -
    have ids: "map tb_tx_id (map item (H a)) = H a" by (simp add: comp_def assms(3))
    have "calc_address_balance a (map item (H a)) =
        sum_list (map (\<lambda>item. paid a item - taken a item) (map item (H a)))"
    proof (rule address_balance_paid_taken)
      show "distinct (map tb_tx_id (map item (H a)))" unfolding ids using assms(4) [OF a] by blast
      fix i assume "i \<in> set (all_inputs (map item (H a)))" "tbi_address i = a"
      then obtain txid where "txid \<in> set (H a)" "i \<in> set (tb_inputs (item txid))" by auto
      with assms(4,7) a \<open>tbi_address i = a\<close> have "funding_tx i \<in> set (H a)" by blast
      then show "funding_tx i \<in> tb_tx_id ` set (map item (H a))" by (simp add: image_image assms(3))
    qed (use assms(4,5) a in auto)
    also have "\<dots> = sum_list (map (\<lambda>txid. paid a (item txid) - taken a (item txid)) (H a))" by (simp add: comp_def)
    also have "\<dots> = sum_list (map (\<lambda>txid. paid a (item txid) - taken a (item txid)) ids)"
    proof (rule sum_list_support)
      fix txid assume txid: "txid \<in> set ids" "txid \<notin> set (H a)"
      with assms(6) a have "filter (\<lambda>o1. tbo_address o1 = a) (tb_outputs (item txid)) = []"
        by (fastforce simp: filter_empty_conv)
      moreover from assms(7) a txid have "filter (\<lambda>i. tbi_address i = a) (tb_inputs (item txid)) = []"
        by (fastforce simp: filter_empty_conv)
      ultimately show "paid a (item txid) - taken a (item txid) = 0" by (simp add: paid_def taken_def)
    qed (use assms(2,4) a in auto)
    finally show ?thesis .
  qed
  have tx: "balance_delta (impact_of_items L [item txid]) =
      sum_list (map (\<lambda>a. paid a (item txid) - taken a (item txid)) as)" if "txid \<in> set ids" for txid
    using that assms(8,9) by (intro impact_paid_taken [OF assms(1)]) auto
  have "sum_list (map (\<lambda>a. calc_address_balance a (map item (H a))) as) =
      sum_list (map (\<lambda>a. sum_list (map (\<lambda>txid. paid a (item txid) - taken a (item txid)) ids)) as)"
    using address by (simp cong: map_cong)
  also have "\<dots> = sum_list (map (\<lambda>txid. balance_delta (impact_of_items L [item txid])) ids)"
    unfolding sum_list_swap [of _ ids as] using tx by (simp cong: map_cong)
  finally show ?thesis .
qed

section \<open>A complete ledger\<close>

text \<open>
  What an honest and complete set of caches looks like: every id is the hash of its transaction;
  the history of an address has no id twice and is in block chain order; a known transaction that
  pays an address of the wallet, and a transaction of the wallet that takes from one, is in the
  history of that address.
\<close>

definition ids_are_hashes :: "libbitcoin \<Rightarrow> 'w WalletState \<Rightarrow> bool" where
  "ids_are_hashes L s \<longleftrightarrow>
     (\<forall>txid. known_txhex s txid \<noteq> [] \<longrightarrow> lb_encode_hash L (lb_tx_hash L (known_tx L s txid)) = txid)"

definition history_complete :: "libbitcoin \<Rightarrow> bool \<Rightarrow> 'w WalletState \<Rightarrow> string \<Rightarrow> bool" where
  "history_complete L is_testnet s a \<longleftrightarrow>
     (\<forall>txid. known_txhex s txid \<noteq> [] \<longrightarrow> a \<in> tbo_address ` set (tb_outputs (item_of L is_testnet s txid)) \<longrightarrow>
        txid \<in> txids (known_history s a)) \<and>
     (\<forall>b \<in> set (ws_addresses s). \<forall>txid \<in> txids (known_history s b).
        a \<in> tbi_address ` set (tb_inputs (item_of L is_testnet s txid)) \<longrightarrow> txid \<in> txids (known_history s a))"

definition ledger :: "libbitcoin \<Rightarrow> bool \<Rightarrow> 'w WalletState \<Rightarrow> bool" where
  "ledger L is_testnet s \<longleftrightarrow> distinct (ws_addresses s) \<and> [] \<notin> set (ws_addresses s) \<and> ids_are_hashes L s \<and>
     (\<forall>a \<in> set (ws_addresses s). distinct (map ahi_txid (known_history s a)) \<and>
        chronological (ledger_items L is_testnet s a) \<and> history_complete L is_testnet s a)"

lemma item_of_simps [simp]: "tb_tx_id (item_of L is_testnet s txid) = txid"
  by (simp add: item_of_def)

lemma input_row_simps:
  "funding_tx (input_row L is_testnet i prev inside) = funding_id L i"
  "funding_idx (input_row L is_testnet i prev inside) = sint (op_index (previous_output i))"
  "tbi_address (input_row L is_testnet i prev inside) = tbo_address (balance_output L is_testnet s prev)"
  "[] \<notin> set (ws_addresses s) \<Longrightarrow> tbi_in_wallet (input_row L is_testnet i prev (is_in_wallet s)) \<longleftrightarrow>
     tbi_address (input_row L is_testnet i prev (is_in_wallet s)) \<in> set (ws_addresses s)"
  by (auto simp: input_row_def balance_output_def funding_id_def is_in_wallet_def split: list.splits)

lemma balance_output_in_wallet:
  "[] \<notin> set (ws_addresses s) \<Longrightarrow> tbo_in_wallet (balance_output L is_testnet s o1) \<longleftrightarrow>
     tbo_address (balance_output L is_testnet s o1) \<in> set (ws_addresses s)"
  by (auto simp: balance_output_def is_in_wallet_def split: list.splits)

text \<open>An analysed input names the address its output pays.\<close>

lemma item_input:
  assumes "analysed L s txid" "i \<in> set (tb_inputs (item_of L is_testnet s txid))"
  shows "known_txhex s (funding_tx i) \<noteq> [] \<and> 0 \<le> funding_idx i \<and>
    nat (funding_idx i) < length (tb_outputs (item_of L is_testnet s (funding_tx i))) \<and>
    tbo_address (tb_outputs (item_of L is_testnet s (funding_tx i)) ! nat (funding_idx i)) = tbi_address i"
proof -
  from assms(2) obtain j where j: "j \<in> set (tx_inputs (known_tx L s txid))"
    "i = input_row L is_testnet j (previous_out L s j) (is_in_wallet s)" by (auto simp: item_of_def)
  from assms(1) j(1) have "input_known L s j" by (simp add: analysed_def list_all_iff)
  then show ?thesis
    by (simp add: j(2) input_row_simps(1,2) input_row_simps(3) [of _ _ _ _ _ s] input_known_def item_of_def previous_out_def)
qed

lemma ledger_balances:
  assumes "ledger L is_testnet s" "distinct ids"
    and "set ids = (\<Union>a \<in> set (ws_addresses s). txids (known_history s a))" "list_all (analysed L s) ids"
  shows "sum_list (map (\<lambda>a. calc_address_balance a (ledger_items L is_testnet s a)) (ws_addresses s)) =
    sum_list (map (\<lambda>txid. balance_delta (impact_of_items L [item_of L is_testnet s txid])) ids)"
  unfolding ledger_items_def
proof (rule balances_by_address_and_transaction)
  let ?item = "item_of L is_testnet s" and ?H = "\<lambda>a. map ahi_txid (known_history s a)"
  from assms(1) have empty: "[] \<notin> set (ws_addresses s)"
    and H: "\<And>a. a \<in> set (ws_addresses s) \<Longrightarrow> distinct (?H a) \<and> chronological (ledger_items L is_testnet s a) \<and>
      history_complete L is_testnet s a" by (auto simp: ledger_def)
  from assms(4) have an: "analysed L s txid" if "txid \<in> set ids" for txid using that by (simp add: list_all_iff)
  show "distinct (ws_addresses s)" using assms(1) by (simp add: ledger_def)
  show "distinct ids" by (rule assms(2))
  show "tb_tx_id (?item txid) = txid" for txid by simp
  show "tbo_in_wallet o1 \<longleftrightarrow> tbo_address o1 \<in> set (ws_addresses s)" if "o1 \<in> set (tb_outputs (?item txid))" for txid o1
    using that balance_output_in_wallet [OF empty] by (auto simp: item_of_def)
  show "tbi_in_wallet i \<longleftrightarrow> tbi_address i \<in> set (ws_addresses s)" if "i \<in> set (tb_inputs (?item txid))" for txid i
    using that input_row_simps(4) [OF empty] by (auto simp: item_of_def)
  fix a assume a: "a \<in> set (ws_addresses s)"
  have sub: "set (?H a) \<subseteq> set ids" using a assms(3) by auto
  show "distinct (?H a) \<and> chronological (map ?item (?H a)) \<and> set (?H a) \<subseteq> set ids"
    using H [OF a] sub by (simp add: ledger_items_def)
  show "list_all (address_agrees (map ?item (?H a))) (all_inputs (map ?item (?H a)))"
    using item_input [OF an] sub by (fastforce simp: list_all_iff address_agrees_def)
  show "txid \<in> set (?H a)" if "txid \<in> set ids" "a \<in> tbo_address ` set (tb_outputs (?item txid))" for txid
    using that an [of txid] H [OF a] by (auto simp: history_complete_def analysed_def)
  show "txid \<in> set (?H a) \<and> funding_tx i \<in> set (?H a)"
    if "txid \<in> set ids" "i \<in> set (tb_inputs (?item txid))" "tbi_address i = a" for txid i
  proof
    note i = item_input [OF an [OF that(1)] that(2)]
    from that(1) assms(3) obtain b where "b \<in> set (ws_addresses s)" "txid \<in> txids (known_history s b)" by auto
    with H [OF a] that(2,3) show "txid \<in> set (?H a)" unfolding history_complete_def by (metis imageI list.set_map)
    from i have "a \<in> tbo_address ` set (tb_outputs (?item (funding_tx i)))" using that(3) by (metis imageI nth_mem)
    with i H [OF a] show "funding_tx i \<in> set (?H a)" by (simp add: history_complete_def)
  qed
qed

section \<open>The two sums over the sorted transactions\<close>

lemma same_tx_filter:
  "list_all2 same_tx txs txs' \<Longrightarrow>
   map (tx_id_of L) (filter (\<lambda>ti. ok (ti_height ti)) txs') = map (tx_id_of L) (filter (\<lambda>ti. ok (ti_height ti)) txs)"
  by (induction txs txs' rule: list_all2_induct) (auto simp: tx_id_of_same, auto simp: same_tx_def)

lemma sorted_ids:
  assumes "list_all2 (tx_of_item L s) items txs" "ids_are_hashes L s" "hex_2_tx L [] = Inl e"
  shows "map (tx_id_of L) txs = map ahi_txid items"
  using assms(1)
proof (induction items txs rule: list_all2_induct)
  case (Cons item items ti txs)
  then have "hex_2_tx L (known_txhex s (ahi_txid item)) = Inr (ti_tx ti)" by (simp add: tx_of_item_def)
  moreover from this assms(3) have "known_txhex s (ahi_txid item) \<noteq> []" by auto
  ultimately have "tx_id_of L ti = ahi_txid item"
    using assms(2) by (fastforce simp: ids_are_hashes_def known_tx_def tx_id_of_def)
  with Cons.IH show ?case by simp
qed simp

lemma tx_of_item_extends:
  assumes "extends s t" "hex_2_tx L [] = Inl e" "list_all2 (tx_of_item L s) items txs"
  shows "list_all2 (tx_of_item L t) items txs"
  using assms(3)
proof (rule list_all2_mono)
  fix item ti assume "tx_of_item L s item ti"
  with assms(1,2) show "tx_of_item L t item ti" by (cases "known_txhex s (ahi_txid item) = []") (auto simp: tx_of_item_def extends_def)
qed

lemma confirmed_and_unconfirmed:
  assumes "hex_2_tx L [] = Inl e" "coherent s"
    and "calculate_confirmed_balance L E is_testnet (s, w) = (Inr c, (s1, w1))"
    and "unconfirmed_txs_wallet_impact L E is_testnet (s1, w1) = (Inr u, (s2, w2))"
    and "ids_are_hashes L s2" "\<forall>a \<in> set (ws_addresses s). settled s a"
  shows "extends s s2 \<and> (\<exists>ids. distinct ids \<and> list_all (analysed L s2) ids \<and>
    set ids = (\<Union>a \<in> set (ws_addresses s2). txids (known_history s2 a)) \<and>
    c + u = sum_list (map (\<lambda>txid. balance_delta (impact_of_items L [item_of L is_testnet s2 txid])) ids))"
proof -
  let ?delta = "\<lambda>s txid. balance_delta (impact_of_items L [item_of L is_testnet s txid])"
  let ?ids = "\<lambda>ok txs. map (tx_id_of L) (filter (\<lambda>ti. ok (ti_height ti)) txs)"
  note learn_txs = learns_get_all_txs_sorted [OF assms(1), of E E]
  from assms(3) obtain txs sa wa where txs: "get_all_txs_sorted L E (s, w) = (Inr txs, (sa, wa))"
    and c: "sum_impacts L E is_testnet unsigned_add (\<lambda>h. h \<noteq> 0) txs (sa, wa) = (Inr c, (s1, w1))"
    by (auto simp: calculate_confirmed_balance_def bindE_Inr_iff)
  note a = learnsD [OF learn_txs txs assms(2)] and spec = get_all_txs_sorted_spec [OF txs assms(1,2)]
  note c' = sum_impacts_known [OF assms(1) a(1) c add_exact(1)]
  from c' have s1: "coherent s1" "extends sa s1" by simp_all
  from assms(4) obtain txs' sb wb where txs': "get_all_txs_sorted L E (s1, w1) = (Inr txs', (sb, wb))"
    and u: "sum_impacts L E is_testnet signed_add (\<lambda>h. h = 0) txs' (sb, wb) = (Inr u, (s2, w2))"
    by (auto simp: unconfirmed_txs_wallet_impact_def bindE_Inr_iff)
  from answersD [OF a(3) s1, of w1] txs' have b: "list_all2 same_tx txs txs'" "coherent sb" "extends s1 sb" by auto
  note u' = sum_impacts_known [OF assms(1) b(2) u add_exact(2)]
  from u' have ext: "extends sb s2" by simp
  then have ext: "extends s1 s2" "extends sa s2" "extends s s2"
    using extends_trans a(2) b(3) s1(2) by blast+
  have same: "?ids (\<lambda>h. h = 0) txs' = ?ids (\<lambda>h. h = 0) txs" by (rule same_tx_filter [OF b(1)])
  have one: "list_all (analysed L s2) (?ids (\<lambda>h. h \<noteq> 0) txs)"
    "c = sum_list (map (?delta s2) (?ids (\<lambda>h. h \<noteq> 0) txs))"
    using c' items_extend [OF ext(1), of L "?ids (\<lambda>h. h \<noteq> 0) txs" is_testnet]
      items_extend_map [OF ext(1), of L "?ids (\<lambda>h. h \<noteq> 0) txs" "\<lambda>item. balance_delta (impact_of_items L [item])"]
    by (simp_all only: simp_thms)
  have "c + u = sum_list (map (?delta s2) (map (tx_id_of L) txs))"
    using u' one(2) same sum_filter_disjoint [of txs "\<lambda>_. True" "\<lambda>ti. ti_height ti \<noteq> 0" "\<lambda>ti. ti_height ti = 0"
        "\<lambda>ti. ?delta s2 (tx_id_of L ti)"] by (simp add: comp_def)
  moreover have "list_all (analysed L s2) (map (tx_id_of L) txs)"
    using one(1) u' same by (fastforce simp: list_all_iff)
  moreover have "map (tx_id_of L) txs = map ahi_txid (all_history sa)"
    using spec by (intro sorted_ids [OF tx_of_item_extends [OF ext(2) assms(1)] assms(5,1)]) simp
  moreover have "known_history s2 a = known_history sa a" "ws_addresses s2 = ws_addresses s"
    if "a \<in> set (ws_addresses s)" for a
    using that assms(6) a(2) ext by (auto simp: extends_def)
  ultimately show ?thesis
    using spec ext(3) by (intro conjI exI [where x = "map ahi_txid (all_history sa)"]) (auto simp: extends_def)
qed

section \<open>Property\<close>

text \<open>
  C5. The wallet's two ways to its balance agree. The total balance adds, address by address,
  the outputs an address received and subtracts the later inputs that spend them; the confirmed
  balance and the unconfirmed impact add what every transaction changes. When the three have been
  computed from coherent caches and the caches then hold a complete ledger -- ids are hashes, the history of an address is in
  block chain order and has every known transaction that pays it and every transaction of the
  wallet that takes from it -- then the total is the sum of the other two, in 64-bit arithmetic.
\<close>

theorem balances_agree:
  assumes "hex_2_tx L [] = Inl e" "coherent s"
    and "calculate_total_balance L E is_testnet False (s, w) = (Inr b, (s1, w1))"
    and "calculate_confirmed_balance L E is_testnet (s1, w1) = (Inr c, (s2, w2))"
    and "unconfirmed_txs_wallet_impact L E is_testnet (s2, w2) = (Inr u, (s3, w3))"
    and "ledger L is_testnet s3"
  shows "b = c + u"
proof -
  from total_balance_known [OF assms(1-3)] have
    t: "coherent s1" "\<And>a. a \<in> set (ws_addresses s1) \<Longrightarrow> settled s1 a \<and>
      list_all (analysed L s1) (map ahi_txid (known_history s1 a))"
    "b = sum_list (map (\<lambda>a. calc_address_balance a (ledger_items L is_testnet s1 a)) (ws_addresses s1))" by auto
  from assms(6) have "ids_are_hashes L s3" by (simp add: ledger_def)
  from confirmed_and_unconfirmed [OF assms(1) t(1) assms(4,5) this] t(2) obtain ids where
    ids: "extends s1 s3" "distinct ids" "list_all (analysed L s3) ids"
    "set ids = (\<Union>a \<in> set (ws_addresses s3). txids (known_history s3 a))"
    "c + u = sum_list (map (\<lambda>txid. balance_delta (impact_of_items L [item_of L is_testnet s3 txid])) ids)" by auto
  have "b = sum_list (map (\<lambda>a. calc_address_balance a (ledger_items L is_testnet s3 a)) (ws_addresses s3))"
    using t(2,3) ids(1) ledger_items_extend(2) [OF ids(1)] by (auto simp: extends_def cong: map_cong)
  with ledger_balances [OF assms(6) ids(2,4,3)] ids(5) show ?thesis by simp
qed

text \<open>
  A ledger for a closed example: transaction \<^verbatim>\<open>a\<close> pays 5 and 7 to the wallet, transaction \<^verbatim>\<open>b\<close>
  spends the second output, paying 4 to somebody else and 2 back. Both are cached, and the client
  is not connected.
\<close>

definition pay_to :: "u8 \<Rightarrow> u64 \<Rightarrow> txout" where
  "pay_to b v = \<lparr>out_value = v, out_script = [Push [b]]\<rparr>"

definition funding_example :: transaction where
  "funding_example = \<lparr>tx_version = 97, tx_locktime = 0, tx_inputs = [], tx_outputs = [pay_to 65 5, pay_to 65 7]\<rparr>"

definition spending_example :: transaction where
  "spending_example = \<lparr>tx_version = 98, tx_locktime = 0,
     tx_inputs = [\<lparr>previous_output = \<lparr>op_hash = [97], op_index = 1\<rparr>, in_script = [], in_sequence = 0\<rparr>],
     tx_outputs = [pay_to 66 4, pay_to 65 2]\<rparr>"

definition ledger_lib :: libbitcoin where
  "ledger_lib = sample_libbitcoin\<lparr>lb_tx_from_data := \<lambda>d. if d = [97] then Some funding_example
     else if d = [98] then Some spending_example else None\<rparr>"

definition ledger_wallet :: "unit WalletState" where
  "ledger_wallet = sample_wallet\<lparr>ws_addresses := [''A''],
     txid_2_txhex_cache := [''a'' \<mapsto> ''a'', ''b'' \<mapsto> ''b''],
     address_2_history_cache := [''A'' \<mapsto> [\<lparr>ahi_txid = ''a'', ahi_height = 5, ahi_fresh = False\<rparr>,
       \<lparr>ahi_txid = ''b'', ahi_height = 0, ahi_fresh = False\<rparr>]]\<rparr>"

definition offline :: "(unit, unit) ElectrumInterface" where
  "offline = sample_server\<lparr>ei_getTransaction := \<lambda>_. throw UndefinedBehaviour,
     ei_getHistory := \<lambda>_. throw UndefinedBehaviour\<rparr>"

text \<open>Without a server nothing is learned.\<close>

abbreviation knows_as :: "unit WalletState \<Rightarrow> unit WalletState \<times> unit \<Rightarrow> bool" where
  "knows_as s0 \<equiv> \<lambda>p. ws_addresses (fst p) = ws_addresses s0 \<and> known_txhex (fst p) = known_txhex s0 \<and>
     known_history (fst p) = known_history s0"

lemma offline_lookups:
  "keeps (knows_as s0) (get_transaction L offline txid)" "keeps (knows_as s0) (get_history L offline a items)"
  by (auto simp: keeps_def offline_def get_transaction_def index_txhex_def get_history_defs map_index_def
      known_txhex_def known_history_def fun_eq_iff split: sum.splits option.splits)

lemma offline_state:
  "keeps (knows_as s0) (set_all_history items)" "keeps (knows_as s0) sort_all_history"
  by (auto simp: keeps_def set_all_history_def sort_all_history_def known_txhex_def known_history_def fun_eq_iff)

lemma offline_balances:
  "keeps (knows_as s0) (calculate_total_balance L offline is_testnet False)"
  "keeps (knows_as s0) (calculate_confirmed_balance L offline is_testnet)"
  "keeps (knows_as s0) (unconfirmed_txs_wallet_impact L offline is_testnet)"
proof -
  have input: "keeps (knows_as s0) (balance_input L offline is_testnet i)" for i
    unfolding balance_input_rows by (intro exec_inv offline_lookups)
  have analyse: "keeps (knows_as s0) (analyse_tx_balances L offline is_testnet txid items)" for txid items
    unfolding analyse_tx_balances_def by (intro exec_inv offline_lookups input)
  have txs: "keeps (knows_as s0) (get_all_txs_sorted L offline)"
    unfolding get_all_txs_sorted_def refresh_all_history_def refresh_step_def collect_tx_def
    by (intro exec_inv offline_lookups offline_state)
  have sums: "keeps (knows_as s0) (sum_impacts L offline is_testnet add ok txs)" for add ok txs
    unfolding sum_impacts_def calculate_tx_wallet_impact_def by (intro exec_inv analyse)
  show "keeps (knows_as s0) (calculate_total_balance L offline is_testnet False)"
    unfolding calculate_total_balance_def calculate_address_balance_def
    by (intro exec_inv offline_lookups analyse)
  show "keeps (knows_as s0) (calculate_confirmed_balance L offline is_testnet)"
    "keeps (knows_as s0) (unconfirmed_txs_wallet_impact L offline is_testnet)"
    unfolding calculate_confirmed_balance_def unconfirmed_txs_wallet_impact_def by (intro exec_inv txs sums)+
qed

lemma ledger_cong:
  assumes "ws_addresses s = ws_addresses t" "known_txhex s = known_txhex t" "known_history s = known_history t"
  shows "ledger L is_testnet s = ledger L is_testnet t"
proof -
  have tx: "known_tx L s = known_tx L t" by (simp add: fun_eq_iff known_tx_def assms(2))
  have wallet: "is_in_wallet s = is_in_wallet t" by (simp add: fun_eq_iff is_in_wallet_def assms(1))
  have "balance_output L is_testnet s = balance_output L is_testnet t"
    by (simp add: fun_eq_iff balance_output_def wallet split: list.split)
  then have "item_of L is_testnet s = item_of L is_testnet t"
    by (simp add: fun_eq_iff item_of_def previous_out_def tx wallet)
  then show ?thesis
    by (simp add: ledger_def ids_are_hashes_def history_complete_def ledger_items_def assms tx)
qed

lemma ledger_example: "ledger ledger_lib True ledger_wallet"
proof -
  let ?item = "item_of ledger_lib True ledger_wallet"
  have known: "known_txhex ledger_wallet txid \<noteq> [] \<longleftrightarrow> txid = ''a'' \<or> txid = ''b''" for txid
    by (simp add: known_txhex_def ledger_wallet_def)
  have ids: "lb_encode_hash ledger_lib (lb_tx_hash ledger_lib (known_tx ledger_lib ledger_wallet ''a'')) = ''a''"
    "lb_encode_hash ledger_lib (lb_tx_hash ledger_lib (known_tx ledger_lib ledger_wallet ''b'')) = ''b''"
    by code_simp+
  have outs: "map tbo_address (tb_outputs (?item ''a'')) = [''A'', ''A'']"
    "map tbo_address (tb_outputs (?item ''b'')) = [''B'', ''A'']"
    "map tbi_address (tb_inputs (?item ''a'')) = []" "map tbi_address (tb_inputs (?item ''b'')) = [''A'']"
    by code_simp+
  have "chronological (ledger_items ledger_lib True ledger_wallet ''A'')" by code_simp
  moreover have "map ahi_txid (known_history ledger_wallet ''A'') = [''a'', ''b'']" by code_simp
  moreover have "ids_are_hashes ledger_lib ledger_wallet" unfolding ids_are_hashes_def known using ids by blast
  moreover have "ws_addresses ledger_wallet = [''A'']" by (simp add: ledger_wallet_def)
  ultimately show ?thesis
    unfolding ledger_def history_complete_def known set_map [symmetric] using outs by auto
qed

theorem balances_agree_witness:
  "\<exists>s1 s2 s3. calculate_total_balance ledger_lib offline True False (ledger_wallet, ()) = (Inr 7, (s1, ())) \<and>
    calculate_confirmed_balance ledger_lib offline True (s1, ()) = (Inr 12, (s2, ())) \<and>
    unconfirmed_txs_wallet_impact ledger_lib offline True (s2, ()) = (Inr (- 5), (s3, ())) \<and> (7 :: u64) = 12 + (- 5)"
proof -
  have "(case calculate_total_balance ledger_lib offline True False (ledger_wallet, ()) of (x1, p1) \<Rightarrow>
      case calculate_confirmed_balance ledger_lib offline True p1 of (x2, p2) \<Rightarrow>
      case unconfirmed_txs_wallet_impact ledger_lib offline True p2 of (x3, p3) \<Rightarrow> (x1, x2, x3)) =
      (Inr 7, Inr 12, Inr (- 5))"
    by code_simp
  then obtain s1 s2 s3 where
    runs: "calculate_total_balance ledger_lib offline True False (ledger_wallet, ()) = (Inr 7, (s1, ()))"
    "calculate_confirmed_balance ledger_lib offline True (s1, ()) = (Inr 12, (s2, ()))"
    "unconfirmed_txs_wallet_impact ledger_lib offline True (s2, ()) = (Inr (- 5), (s3, ()))"
    by (auto split: prod.splits)
  note keep = offline_balances [of ledger_wallet _ True, THEN keepsD]
  have "knows_as ledger_wallet (s3, ())" by (rule keep(3) [OF keep(2) [OF keep(1) [OF _ runs(1)] runs(2)] runs(3)]) simp
  then have "ledger ledger_lib True s3" using ledger_example ledger_cong [of s3 ledger_wallet] by simp
  moreover have "hex_2_tx ledger_lib [] = Inl (InvalidArgument ''could not decode transaction'')"
    by (simp add: hex_2_tx_def ledger_lib_def sample_lb)
  moreover have "coherent ledger_wallet" by (simp add: coherent_def ledger_wallet_def sample_wallet_def)
  ultimately have "(7 :: u64) = 12 + (- 5)" using balances_agree [OF _ _ runs] by blast
  with runs show ?thesis by blast
qed

end
