(* ===== verification/HistoryRefresh.thy ===== *)
theory HistoryRefresh
  imports WalletSync LedgerBalance
begin

text \<open>
  The history view of \<^verbatim>\<open>HistoryInspector\<close> over the Ronghua client: three bulk requests (histories,
  transactions, the transactions they spend), and rows computed from the caches alone.
\<close>

section \<open>Operations on complete caches\<close>

definition readable :: "libbitcoin \<Rightarrow> 'w WalletState \<Rightarrow> string \<Rightarrow> bool" where
  "readable L s txid \<longleftrightarrow> known_txhex s txid \<noteq> [] \<and> hex_2_tx L (known_txhex s txid) = Inr (known_tx L s txid)"

lemma get_transaction_readable:
  "readable L s txid \<Longrightarrow> get_transaction L E txid (s, w) = (Inr (known_tx L s txid), (s, w))"
  by (simp add: readable_def get_transaction_cached)

lemma balance_input_readable:
  assumes "input_known L s i" "readable L s (funding_id L i)"
  shows "balance_input L E is_testnet i (s, w) = (Inr (input_row L is_testnet i (previous_out L s i) (is_in_wallet s)), (s, w))"
proof -
  have "at_index (tx_outputs (known_tx L s (funding_id L i))) (sint (op_index (previous_output i))) = Inr (previous_out L s i)"
    using assms(1) by (simp add: input_known_def previous_out_def at_index_def vec_at_def)
  with get_transaction_readable [OF assms(2), of E w] show ?thesis
    unfolding balance_input_rows funding_id_def by (simp add: bindE_def)
qed

text \<open>A transaction that can be analysed without the server.\<close>

definition complete_tx :: "libbitcoin \<Rightarrow> 'w WalletState \<Rightarrow> string \<Rightarrow> bool" where
  "complete_tx L s txid \<longleftrightarrow> readable L s txid \<and>
     list_all (\<lambda>i. input_known L s i \<and> readable L s (funding_id L i)) (tx_inputs (known_tx L s txid))"

lemma analyse_complete:
  assumes "complete_tx L s txid"
  shows "analyse_tx_balances L E is_testnet txid items (s, w) = (Inr (items @ [item_of L is_testnet s txid]), (s, w))"
proof -
  have "foldE (\<lambda>i acc. bindE (balance_input L E is_testnet i) (\<lambda>b. ret (acc @ [b]))) is acc (s, w) =
      (Inr (acc @ map (\<lambda>i. input_row L is_testnet i (previous_out L s i) (is_in_wallet s)) is), (s, w))"
    if "list_all (\<lambda>i. input_known L s i \<and> readable L s (funding_id L i)) is" for "is" acc
    using that by (induction "is" arbitrary: acc) (simp_all add: bindE_def balance_input_readable)
  with assms show ?thesis
    by (simp add: complete_tx_def analyse_tx_balances_def bindE_def get_transaction_readable item_of_def)
qed

text \<open>The row of a transaction, before the balances are filled in.\<close>

definition row_of :: "libbitcoin \<Rightarrow> bool \<Rightarrow> 'w WalletState \<Rightarrow> TransactionInfo \<Rightarrow> HistoryViewRow" where
  "row_of L is_testnet s tx_info =
     (let impact = impact_of_items L [item_of L is_testnet s (tx_id_of L tx_info)]
      in \<lparr>hvr_timestamp = 0, hvr_height = ti_height tx_info, hvr_balance_delta = balance_delta impact,
          hvr_tx_id = tx_id_of L tx_info, hvr_balance = 0, hvr_is_p2sh = twi_is_p2sh impact,
          hvr_funding_amount = funding_amount impact, hvr_funding_address = funding_address impact,
          hvr_fresh = ti_fresh tx_info\<rparr>)"

lemma rows_complete:
  assumes "list_all (\<lambda>ti. complete_tx L s (tx_id_of L ti)) txs"
  shows "foldE (\<lambda>tx_info rows. bindE (history_view_row L E is_testnet tx_info) (\<lambda>row. ret (rows @ [row]))) txs acc (s, w) =
    (Inr (acc @ map (row_of L is_testnet s) txs), (s, w))"
  using assms
  by (induction txs arbitrary: acc)
     (simp_all add: history_view_row_def calculate_tx_wallet_impact_def bindE_def analyse_complete row_of_def Let_def)

text \<open>The transactions that are spent by known ones.\<close>

definition funding_ids :: "libbitcoin \<Rightarrow> transaction list \<Rightarrow> string list" where
  "funding_ids L txs = concat (map (\<lambda>tx. map (funding_id L) (tx_inputs tx)) txs)"

lemma funding_complete:
  assumes "list_all (\<lambda>ti. readable L s (tx_id_of L ti) \<and> known_tx L s (tx_id_of L ti) = ti_tx ti) txs"
    and "[] \<notin> set (funding_ids L (map ti_tx txs))"
  shows "foldE (\<lambda>tx_info ids. append_funding_txs L E (tx_id_of L tx_info) ids) txs acc (s, w) =
    (Inr (acc @ funding_ids L (map ti_tx txs)), (s, w))"
proof -
  have "foldl (\<lambda>ids i. let funding_tx_id = lb_encode_hash L (op_hash (previous_output i))
      in if funding_tx_id \<noteq> [] then ids @ [funding_tx_id] else ids) acc is = acc @ map (funding_id L) is"
    if "[] \<notin> set (map (funding_id L) is)" for acc "is"
    using that by (induction "is" arbitrary: acc) (auto simp: funding_id_def Let_def)
  with assms show ?thesis
    by (induction txs arbitrary: acc)
       (auto simp: funding_ids_def append_funding_txs_def bindE_def get_transaction_readable)
qed

lemma load_txs_answered:
  assumes "ei_getTransactionBulk E ids (progress_callbacks s) w = (Inr hexes, w1)" "length hexes = length ids"
  shows "load_txs_bulk E ids (s, w) =
    (Inr (), (s\<lparr>txid_2_txhex_cache := (txid_2_txhex_cache s)(ids [\<mapsto>] hexes)\<rparr>, w1))"
proof -
  have "forE (load_tx hexes) (enumerate n xs) (t, w1) =
      (Inr (), (t\<lparr>txid_2_txhex_cache := (txid_2_txhex_cache t)(xs [\<mapsto>] drop n hexes)\<rparr>, w1))"
    if "n + length xs = length hexes" for n xs t
    using that
  proof (induction xs arbitrary: n t)
    case (Cons x xs)
    then have "drop n hexes = hexes ! n # drop (Suc n) hexes" by (simp add: Cons_nth_drop_Suc)
    with Cons show ?case
      by (simp add: bindE_def load_tx_def store_txhex_def vec_at_def del: fun_upd_apply)
  qed simp
  from this [of 0 ids] assms show ?thesis by (simp add: load_txs_bulk_def bindE_def)
qed

section \<open>An honest server\<close>

text \<open>
  \<^verbatim>\<open>T\<close> gives the text the server has for an id: it decodes to the transaction with that id, and
  its inputs spend outputs of transactions the server has as well.
\<close>

definition served_input :: "libbitcoin \<Rightarrow> (string \<Rightarrow> string) \<Rightarrow> txin \<Rightarrow> bool" where
  "served_input L T i \<longleftrightarrow> funding_id L i \<noteq> [] \<and> 0 \<le> sint (op_index (previous_output i)) \<and>
     (\<exists>ftx. hex_2_tx L (T (funding_id L i)) = Inr ftx \<and>
        nat (sint (op_index (previous_output i))) < length (tx_outputs ftx))"

definition served_tx :: "libbitcoin \<Rightarrow> (string \<Rightarrow> string) \<Rightarrow> string \<Rightarrow> transaction \<Rightarrow> bool" where
  "served_tx L T txid tx \<longleftrightarrow> hex_2_tx L (T txid) = Inr tx \<and> lb_encode_hash L (lb_tx_hash L tx) = txid \<and>
     list_all (served_input L T) (tx_inputs tx)"

lemma map_upds_function: "(m(xs [\<mapsto>] map f xs)) x = (if x \<in> set xs then Some (f x) else m x)"
  by (induction xs arbitrary: m) auto

lemma known_txhex_upds:
  "known_txhex (s\<lparr>txid_2_txhex_cache := (txid_2_txhex_cache s)(ids [\<mapsto>] map T ids)\<rparr>) txid =
     (if txid \<in> set ids then T txid else known_txhex s txid)"
  by (simp add: known_txhex_def map_upds_function)

lemma served_readable:
  assumes "hex_2_tx L [] = Inl e" "served_tx L T txid tx" "known_txhex s txid = T txid"
  shows "readable L s txid" "known_tx L s txid = tx"
  using assms by (auto simp: readable_def known_tx_def served_tx_def)

lemma served_complete:
  assumes "hex_2_tx L [] = Inl e" "served_tx L T txid tx" "known_txhex s txid = T txid"
    and "\<forall>i \<in> set (tx_inputs tx). known_txhex s (funding_id L i) = T (funding_id L i)"
  shows "complete_tx L s txid"
proof -
  have "input_known L s i \<and> readable L s (funding_id L i)" if "i \<in> set (tx_inputs tx)" for i
    using assms(1,2,4) that
    by (auto simp: served_tx_def served_input_def list_all_iff input_known_def readable_def known_tx_def)
  with served_readable [OF assms(1-3)] show ?thesis by (simp add: complete_tx_def list_all_iff)
qed

lemma item_of_queue [simp]: "item_of L is_testnet (s\<lparr>history_queue := q\<rparr>) = item_of L is_testnet s"
proof -
  have known: "known_txhex (s\<lparr>history_queue := q\<rparr>) = known_txhex s" "is_in_wallet (s\<lparr>history_queue := q\<rparr>) = is_in_wallet s"
    by (simp_all add: fun_eq_iff known_txhex_def is_in_wallet_def)
  then have "balance_output L is_testnet (s\<lparr>history_queue := q\<rparr>) = balance_output L is_testnet s"
    by (simp add: fun_eq_iff balance_output_def split: list.split)
  with known show ?thesis by (intro ext) (simp add: item_of_def previous_out_def known_tx_def)
qed

text \<open>The view after the transactions have been loaded.\<close>

lemma view_after_load:
  assumes "hex_2_tx L [] = Inl e" "get_all_txs_sorted_bulk L E (s, w) = (Inr infos, (s1, w1))"
    and info: "\<And>ti. ti \<in> set infos \<Longrightarrow> served_tx L T (tx_id_of L ti) (ti_tx ti)"
    and text1: "\<And>ti. ti \<in> set infos \<Longrightarrow> known_txhex s1 (tx_id_of L ti) = T (tx_id_of L ti)"
    and "fids = funding_ids L (map ti_tx infos)"
    and "ei_getTransactionBulk E fids (progress_callbacks s1) w1 = (Inr (map T fids), w2)"
  shows "\<exists>s2. create_history_view_rows L E is_testnet True (s, w) = (Inr (), (s2\<lparr>history_queue :=
    bq_push (fst (fill_balances (map (row_of L is_testnet s2) infos))) (history_queue s)\<rparr>, w2)) \<and>
    known_txhex s2 = (\<lambda>txid. if txid \<in> set fids then T txid else known_txhex s1 txid) \<and> ws_addresses s2 = ws_addresses s1"
proof -
  have "served_input L T i" if "ti \<in> set infos" "i \<in> set (tx_inputs (ti_tx ti))" for ti i
    using info [OF that(1)] that(2) by (simp add: served_tx_def list_all_iff)
  then have "[] \<notin> set (funding_ids L (map ti_tx infos))"
    by (auto simp: funding_ids_def served_input_def dest!: sym [of "[]"])
  moreover have "list_all (\<lambda>ti. readable L s1 (tx_id_of L ti) \<and> known_tx L s1 (tx_id_of L ti) = ti_tx ti) infos"
    using served_readable [OF assms(1) info text1] by (simp add: list_all_iff)
  ultimately have funding: "foldE (\<lambda>tx_info ids. append_funding_txs L E (tx_id_of L tx_info) ids) infos [] (s1, w1) =
      (Inr fids, (s1, w1))"
    using funding_complete [where E = E and w = w1 and acc = "[]" and txs = infos] assms(5) by simp
  let ?s2 = "s1\<lparr>txid_2_txhex_cache := (txid_2_txhex_cache s1)(fids [\<mapsto>] map T fids)\<rparr>"
  have load: "load_txs_bulk E fids (s1, w1) = (Inr (), (?s2, w2))" using assms(6) by (intro load_txs_answered) simp_all
  have "list_all (\<lambda>ti. complete_tx L ?s2 (tx_id_of L ti)) infos"
  proof (unfold list_all_iff, intro ballI served_complete [OF assms(1) info])
    fix ti assume ti: "ti \<in> set infos"
    show "known_txhex ?s2 (tx_id_of L ti) = T (tx_id_of L ti)" using text1 [OF ti] by (simp add: known_txhex_upds)
    show "known_txhex ?s2 (funding_id L i) = T (funding_id L i)" if "i \<in> set (tx_inputs (ti_tx ti))" for i
      using that ti by (auto simp: known_txhex_upds assms(5) funding_ids_def)
  qed
  then have "foldE (\<lambda>tx_info rows. bindE (history_view_row L E is_testnet tx_info) (\<lambda>row. ret (rows @ [row])))
      infos [] (?s2, w2) = (Inr (map (row_of L is_testnet ?s2) infos), (?s2, w2))"
    using rows_complete [where E = E and w = w2 and acc = "[]" and txs = infos] by simp
  moreover have "history_queue ?s2 = history_queue s"
    using keepsD [OF keeps_queue_all_txs [where bulk = True], unfolded if_P [OF TrueI], OF _ assms(2)] by simp
  ultimately show ?thesis using assms(2) funding load
    by (intro exI [where x = ?s2])
       (simp add: create_history_view_rows_def bindE_def push_history_update_def fun_eq_iff known_txhex_upds)
qed

section \<open>Property\<close>


text \<open>
  The ledger of the example of \<^verbatim>\<open>LedgerBalance\<close> behind a server: \<^verbatim>\<open>a\<close> pays 5 and 7 to the wallet, \<^verbatim>\<open>b\<close>
  spends the 7 and pays 2 of it back. The texts are asked for in display order and answered in the
  opposite order.
\<close>

definition view_lib :: libbitcoin where
  "view_lib = ledger_lib\<lparr>lb_decode_base58 := \<lambda>_. Some (replicate 25 0), lb_encode_base16 := \<lambda>_. []\<rparr>"

definition view_replies :: "(string \<times> (string \<times> json) list) list" where
  "view_replies =
    [(''H'', [(''id'', JInt 1), (''result'', JArray
        [JObject [(''height'', JInt 5), (''tx_hash'', JString ''a'')],
         JObject [(''height'', JInt 0), (''tx_hash'', JString ''b'')]])]),
     (''B'', [(''id'', JInt 2), (''result'', JString ''b'')]),
     (''A'', [(''id'', JInt 3), (''result'', JString ''a'')]),
     (''F'', [(''id'', JInt 4), (''result'', JString ''a'')])]"

abbreviation view_wallet :: "json RonghuaClient WalletState" where
  "view_wallet \<equiv> sample_front\<lparr>ws_addresses := [''A'']\<rparr>"

abbreviation view_client :: "json RonghuaClient" where
  "view_client \<equiv> sample_ronghua\<lparr>events := [ReadSome None ''H'', ReadSome None ''A'', ReadSome None ''B'', ReadSome None ''F'']\<rparr>"

abbreviation view_interface :: "(json, json RonghuaClient) ElectrumInterface" where
  "view_interface \<equiv> ronghua_interface (table_json view_replies) \<lparr>ahi_txid = [], ahi_height = 0, ahi_fresh = True\<rparr>"

lemma view_server:
  "list_all2 (served_tx view_lib (\<lambda>t. t)) [''b'', ''a''] [spending_example, funding_example]"
  "funding_ids view_lib [spending_example, funding_example] = [''a'']"
proof -
  have "char_of (98 :: nat) = CHR ''b''" "char_of (97 :: nat) = CHR ''a''" by code_simp+
  then show "list_all2 (served_tx view_lib (\<lambda>t. t)) [''b'', ''a''] [spending_example, funding_example]"
    "funding_ids view_lib [spending_example, funding_example] = [''a'']"
    by (simp_all add: served_tx_def served_input_def funding_ids_def funding_id_def hex_2_tx_def view_lib_def
        ledger_lib_def sample_lb spending_example_def funding_example_def)
qed

text \<open>The balance changes depend on the cached texts and the addresses only.\<close>

lemma view_deltas:
  assumes "known_txhex s ''a'' = ''a''" "known_txhex s ''b'' = ''b''" "ws_addresses s = [''A'']"
  shows "balance_delta (impact_of_items view_lib [item_of view_lib True s ''b'']) = - 5"
    "balance_delta (impact_of_items view_lib [item_of view_lib True s ''a'']) = 12"
proof -
  let ?s = "view_wallet\<lparr>txid_2_txhex_cache := [''a'' \<mapsto> ''a'', ''b'' \<mapsto> ''b'']\<rparr>"
  have tx: "known_tx view_lib s ''a'' = known_tx view_lib ?s ''a''" "known_tx view_lib s ''b'' = known_tx view_lib ?s ''b''"
    using assms by (simp_all add: known_tx_def known_txhex_def [of ?s])
  have wallet: "is_in_wallet s = is_in_wallet ?s" using assms(3) by (simp add: fun_eq_iff is_in_wallet_def)
  then have "balance_output view_lib True s = balance_output view_lib True ?s"
    by (simp add: fun_eq_iff balance_output_def split: list.split)
  moreover have "map (funding_id view_lib) (tx_inputs (known_tx view_lib ?s ''a'')) = []"
    "map (funding_id view_lib) (tx_inputs (known_tx view_lib ?s ''b'')) = [''a'']" by code_simp+
  ultimately have "item_of view_lib True s ''a'' = item_of view_lib True ?s ''a''"
    "item_of view_lib True s ''b'' = item_of view_lib True ?s ''b''"
    by (auto simp: item_of_def previous_out_def tx wallet map_eq_Cons_conv)
  moreover have "balance_delta (impact_of_items view_lib [item_of view_lib True ?s ''b'']) = - 5"
    "balance_delta (impact_of_items view_lib [item_of view_lib True ?s ''a'']) = 12" by code_simp+
  ultimately show "balance_delta (impact_of_items view_lib [item_of view_lib True s ''b'']) = - 5"
    "balance_delta (impact_of_items view_lib [item_of view_lib True s ''a'']) = 12" by simp_all
qed

lemma view_requests:
  "list_all2 (request_fits (table_json view_replies) ''blockchain.scripthash.get_history'')
     [[]] (numbers 0 1)"
  "list_all2 (request_fits (table_json view_replies) ''blockchain.transaction.get'')
     [''b'', ''a''] (numbers 1 2)"
  "list_all2 (request_fits (table_json view_replies) ''blockchain.transaction.get'')
     [''a''] (numbers 3 1)"
  unfolding table_request_fits by code_simp+

lemma view_histories:
  fixes ahi0 defines "ahi0 \<equiv> \<lparr>ahi_txid = [], ahi_height = 0, ahi_fresh = True\<rparr>"
  shows "prompt_replies (table_json view_replies) ''blockchain.scripthash.get_history'' 25
    (index_result (table_json view_replies) (\<lambda>v. address_history_from_json (table_json view_replies) ahi0 v []))
    0 [[]] [[''H'']] [[ahi0\<lparr>ahi_txid := ''a'', ahi_height := 5\<rparr>, ahi0\<lparr>ahi_txid := ''b'', ahi_height := 0\<rparr>]]"
    (is "prompt_replies ?J _ _ ?parse _ _ _ [?h]")
proof -
  let ?reply = "snd (hd view_replies)"
  have "fst (?parse (JObject ?reply)) = Inr ?h" unfolding ahi0_def by code_simp
  then have "reply_reads ?J ?parse [''H''] (1, ?h)"
    by (intro table_reply_reads [where reply = ?reply]) (simp_all add: view_replies_def)
  then show ?thesis
    using view_requests(1) by (intro prompt_replies_one [where replies = "[(1, ?h)]"]) simp_all
qed

lemma view_texts:
  "prompt_replies (table_json view_replies) ''blockchain.transaction.get'' 100 (at_result (table_json view_replies)
     (js_get_string (table_json view_replies))) 1 [''b'', ''a''] [[''A''], [''B'']] [''b'', ''a'']"
  "prompt_replies (table_json view_replies) ''blockchain.transaction.get'' 100 (at_result (table_json view_replies)
     (js_get_string (table_json view_replies))) 3 [''a''] [[''F'']] [''a'']"
proof -
  let ?J = "table_json view_replies"
  let ?at = "at_result ?J (js_get_string ?J)"
  have "fst (?at (JObject [(''id'', JInt n), (''result'', JString t)])) = Inr t" for n t
    by (simp add: at_result_def at_get_def table_json_def sample_json_def)
  then have reads: "reply_reads ?J ?at [''B''] (2, ''b'')" "reply_reads ?J ?at [''A''] (3, ''a'')"
    "reply_reads ?J ?at [''F''] (4, ''a'')"
    by (auto intro!: table_reply_reads simp: view_replies_def)
  show "prompt_replies ?J ''blockchain.transaction.get'' 100 ?at 1 [''b'', ''a''] [[''A''], [''B'']] [''b'', ''a'']"
    using reads view_requests(2)
    by (intro prompt_replies_one [where replies = "[(3, ''a''), (2, ''b'')]"]) (simp_all add: numeral_2_eq_2)
  show "prompt_replies ?J ''blockchain.transaction.get'' 100 ?at 3 [''a''] [[''F'']] [''a'']"
    using reads view_requests(3) by (intro prompt_replies_one [where replies = "[(4, ''a'')]"]) simp_all
qed


end
