(* ===== verification/LedgerRefinement.thy ===== *)
theory LedgerRefinement
  imports HistoryRefresh
begin

text \<open>
  The wallet as a refinement of the ledger behind the server. The abstract state is a ledger: a
  wallet object whose caches hold everything the server knows of the wallet. A wallet with any
  part of it in its caches computes what is defined on the whole.
\<close>

section \<open>The abstract ledger\<close>

text \<open>The server answers every request with what the ledger \<^verbatim>\<open>g\<close> has; \<^verbatim>\<open>W\<close> are the states of
  the client in which it does.\<close>

definition serves :: "libbitcoin \<Rightarrow> ('j, 'w) ElectrumInterface \<Rightarrow> ('w \<Rightarrow> bool) \<Rightarrow> 'v WalletState \<Rightarrow> bool" where
  "serves L E W g \<longleftrightarrow> (\<forall>w. W w \<longrightarrow>
     (\<forall>txid. known_txhex g txid \<noteq> [] \<longrightarrow>
        (\<exists>w'. ei_getTransaction E txid w = (Inr (known_txhex g txid), w') \<and> W w')) \<and>
     (\<forall>a \<in> set (ws_addresses g). \<exists>spkh h w'. base58_to_spkh_hex L a = Inr spkh \<and>
        ei_getHistory E spkh w = (Inr h, w') \<and> same_items (known_history g a) h \<and> W w'))"

text \<open>The histories name transactions that the ledger has together with those they spend.\<close>

definition whole :: "libbitcoin \<Rightarrow> 'v WalletState \<Rightarrow> bool" where
  "whole L g \<longleftrightarrow> (\<forall>a \<in> set (ws_addresses g). \<forall>item \<in> set (known_history g a).
     ahi_txid item \<noteq> [] \<and> complete_tx L g (ahi_txid item) \<and>
     lb_encode_hash L (lb_tx_hash L (known_tx L g (ahi_txid item))) = ahi_txid item)"

text \<open>What the operations are to compute, on the whole ledger.\<close>

definition ledger_history :: "'v WalletState \<Rightarrow> AddressHistoryItem list" where
  "ledger_history g = fold ahi_insert (concat (map (known_history g) (ws_addresses g))) []"

definition ledger_txs :: "libbitcoin \<Rightarrow> 'v WalletState \<Rightarrow> TransactionInfo list" where
  "ledger_txs L g = map (\<lambda>item. \<lparr>ti_tx = known_tx L g (ahi_txid item), ti_height = ahi_height item,
     ti_fresh = ahi_fresh item\<rparr>) (std_sort history_before (ledger_history g))"

definition ledger_total :: "libbitcoin \<Rightarrow> bool \<Rightarrow> 'v WalletState \<Rightarrow> u64" where
  "ledger_total L is_testnet g =
     sum_list (map (\<lambda>a. calc_address_balance a (ledger_items L is_testnet g a)) (ws_addresses g))"

definition ledger_sum :: "libbitcoin \<Rightarrow> bool \<Rightarrow> (int \<Rightarrow> bool) \<Rightarrow> 'v WalletState \<Rightarrow> u64" where
  "ledger_sum L is_testnet ok g = sum_list (map (\<lambda>ti. balance_delta (impact_of_items L
     [item_of L is_testnet g (tx_id_of L ti)])) (filter (\<lambda>ti. ok (ti_height ti)) (ledger_txs L g)))"

text \<open>The unconfirmed impact is a signed sum, undefined if it overflows.\<close>

definition ledger_impact :: "libbitcoin \<Rightarrow> bool \<Rightarrow> 'v WalletState \<Rightarrow> u64 result" where
  "ledger_impact L is_testnet g = total_of signed_add (map (\<lambda>ti. balance_delta (impact_of_items L
     [item_of L is_testnet g (tx_id_of L ti)])) (filter (\<lambda>ti. ti_height ti = 0) (ledger_txs L g)))"

definition ledger_rows :: "libbitcoin \<Rightarrow> bool \<Rightarrow> 'v WalletState \<Rightarrow> HistoryViewRow list" where
  "ledger_rows L is_testnet g = fst (fill_balances (map (row_of L is_testnet g) (ledger_txs L g)))"

section \<open>The simulation\<close>

text \<open>The caches hold a part of the ledger, histories up to their \<^verbatim>\<open>fresh\<close> flags.\<close>

definition holds_part :: "'v WalletState \<Rightarrow> 'w WalletState \<Rightarrow> bool" where
  "holds_part g s \<longleftrightarrow> coherent s \<and> ws_addresses s = ws_addresses g \<and>
     (\<forall>txid. known_txhex s txid \<noteq> [] \<longrightarrow> known_txhex s txid = known_txhex g txid) \<and>
     (\<forall>a. settled s a \<longrightarrow> same_items (known_history g a) (known_history s a))"

abbreviation simulates :: "('w \<Rightarrow> bool) \<Rightarrow> 'v WalletState \<Rightarrow> 'w WalletState \<times> 'w \<Rightarrow> bool" where
  "simulates W g \<equiv> \<lambda>(s, w). holds_part g s \<and> W w"

lemma same_items_refl [simp]: "same_items xs xs"
  by (simp add: same_items_def)

lemma same_items_trans: "same_items xs ys \<Longrightarrow> same_items ys zs \<Longrightarrow> same_items xs zs"
  by (simp add: same_items_def)

lemma same_items_mark [simp]: "same_items xs (mark_fresh b ys) \<longleftrightarrow> same_items xs ys"
  by (simp add: same_items_def mark_fresh_def comp_def)

lemma same_items_Nil: "same_items xs [] \<longleftrightarrow> xs = []"
  by (auto simp: same_items_def)

lemma simulates_transaction:
  assumes "serves L E W g" "readable L g txid"
  shows "yields (simulates W g) (=) (get_transaction L E txid) (known_tx L g txid)"
proof (rule yieldsI)
  fix p assume "simulates W g p"
  then obtain s w where p: "p = (s, w)" "holds_part g s" "W w" by auto
  from assms(2) have g: "known_txhex g txid \<noteq> []" "hex_2_tx L (known_txhex g txid) = Inr (known_tx L g txid)"
    by (simp_all add: readable_def)
  show "\<exists>tx p'. get_transaction L E txid p = (Inr tx, p') \<and> known_tx L g txid = tx \<and> simulates W g p'"
  proof (cases "known_txhex s txid = []")
    case True
    from assms(1) p(3) g(1) obtain w' where w': "ei_getTransaction E txid w = (Inr (known_txhex g txid), w')" "W w'"
      unfolding serves_def by blast
    obtain r s' w'' where run: "get_transaction L E txid (s, w) = (r, (s', w''))" by (metis prod.collapse)
    from get_transaction_fetched [OF True run w'(1)] have
      s': "r = hex_2_tx L (known_txhex g txid)" "w'' = w'"
        "s' = s\<lparr>txid_2_txhex_cache := (txid_2_txhex_cache s)(txid \<mapsto> known_txhex g txid)\<rparr>" by auto
    have "holds_part g s'"
      using p(2) by (simp add: s'(3) holds_part_def coherent_def settled_def known_history_def known_txhex_def)
    with p(1) run s'(1,2) w'(2) g(2) show ?thesis by simp
  next
    case False
    with p(2) have "known_txhex s txid = known_txhex g txid" by (simp add: holds_part_def)
    with get_transaction_cached [OF False, of L E w] p g(2) show ?thesis by simp
  qed
qed

lemma simulates_history:
  assumes "serves L E W g" "a \<in> set (ws_addresses g)"
  shows "yields (simulates W g) same_items (get_history L E a []) (known_history g a)"
proof (rule yieldsI)
  fix p assume "simulates W g p"
  then obtain s w where p: "p = (s, w)" "holds_part g s" "W w" by auto
  then have s: "coherent s" "settled s a \<Longrightarrow> same_items (known_history g a) (known_history s a)"
    by (auto simp: holds_part_def)
  show "\<exists>h p'. get_history L E a [] p = (Inr h, p') \<and> same_items (known_history g a) h \<and> simulates W g p'"
  proof (cases "address_2_history_cache_empty s a = Some True")
    case True
    with s have "same_items (known_history g a) []" by (simp add: settled_def coherent_def)
    with p True show ?thesis by (simp add: get_history_flagged)
  next
    case nonempty: False
    show ?thesis
    proof (cases "known_history s a = []")
      case True
      from assms p(3) obtain spkh h w' where srv: "base58_to_spkh_hex L a = Inr spkh"
        "ei_getHistory E spkh w = (Inr h, w')" "same_items (known_history g a) h" "W w'"
        unfolding serves_def by blast
      obtain s' where run: "get_history L E a [] (s, w) = (Inr (mark_fresh True h), (s', w'))"
        using nonempty True srv(1,2)
        by (cases "address_2_history_cache_empty s a"; cases "address_2_history_cache s a"; cases "h = []")
           (auto simp: get_history_defs map_index_def known_history_def)
      from get_history_fetched [OF nonempty True run] have
        s': "known_history s' = (known_history s)(a := mark_fresh True h)" "ws_addresses s' = ws_addresses s"
          "\<forall>b. address_2_history_cache_empty s' b = Some True \<longleftrightarrow>
             address_2_history_cache_empty s b = Some True \<or> b = a \<and> mark_fresh True h = []" by auto
      have "holds_part g s'"
        using p(2) srv(3) s' get_history_txhex [OF run] nonempty
        by (auto simp: holds_part_def coherent_def settled_def split: if_splits)
      with p(1) run srv(3,4) show ?thesis by simp
    next
      case False
      from get_history_cached [OF nonempty False, of L E "[]" w] obtain m where
        m: "get_history L E a [] (s, w) =
          (Inr (mark_fresh False (known_history s a)), (s\<lparr>address_2_history_cache_empty := m\<rparr>, w))"
        "\<forall>b. m b = Some True \<longleftrightarrow> address_2_history_cache_empty s b = Some True" by auto
      have "holds_part g (s\<lparr>address_2_history_cache_empty := m\<rparr>)"
        using p(2) m(2) by (auto simp: holds_part_def coherent_def settled_def known_history_def known_txhex_def)
      moreover have "same_items (known_history g a) (known_history s a)" using s(2) False by (simp add: settled_def)
      ultimately show ?thesis using p m(1) by simp
    qed
  qed
qed

section \<open>The operations on the caches\<close>

lemma fold_append_map: "fold (\<lambda>x acc. acc @ [f x]) xs acc = acc @ map f xs"
  by (induction xs arbitrary: acc) simp_all

lemma holds_part_wallet:
  assumes "holds_part g s"
  shows "is_in_wallet s = is_in_wallet g" "balance_output L is_testnet s = balance_output L is_testnet g"
proof -
  show *: "is_in_wallet s = is_in_wallet g" using assms by (simp add: fun_eq_iff is_in_wallet_def holds_part_def)
  show "balance_output L is_testnet s = balance_output L is_testnet g"
    by (simp add: fun_eq_iff balance_output_def * split: list.split)
qed

lemma simulates_input:
  assumes "serves L E W g" "input_known L g i" "readable L g (funding_id L i)"
  shows "yields (simulates W g) (=) (balance_input L E is_testnet i)
    (input_row L is_testnet i (previous_out L g i) (is_in_wallet g))"
  unfolding balance_input_rows funding_id_def [symmetric]
proof (rule yields_bind_eq [OF simulates_transaction [OF assms(1,3)]], rule yields_bind_eq [OF yields_liftR])
  show "at_index (tx_outputs (known_tx L g (funding_id L i))) (sint (op_index (previous_output i))) = Inr (previous_out L g i)"
    using assms(2) by (simp add: input_known_def previous_out_def at_index_def vec_at_def)
  show "yields (simulates W g) (=) (bindE (getS (\<lambda>(s, w). s)) (\<lambda>s. ret (input_row L is_testnet i (previous_out L g i) (is_in_wallet s))))
    (input_row L is_testnet i (previous_out L g i) (is_in_wallet g))"
    using holds_part_wallet(1) [of g] by (fastforce simp: yields_def bindE_def)
qed

lemma simulates_analyse:
  assumes "serves L E W g" "complete_tx L g txid"
  shows "yields (simulates W g) (=) (analyse_tx_balances L E is_testnet txid items) (items @ [item_of L is_testnet g txid])"
proof -
  let ?row = "\<lambda>i. input_row L is_testnet i (previous_out L g i) (is_in_wallet g)" and ?tx = "known_tx L g txid"
  from assms(2) have tx: "readable L g txid"
    "\<forall>i \<in> set (tx_inputs ?tx). input_known L g i \<and> readable L g (funding_id L i)"
    by (auto simp: complete_tx_def list_all_iff)
  have "yields (simulates W g) (=) (bindE (balance_input L E is_testnet i) (\<lambda>b. ret (acc @ [b]))) (acc @ [?row i])"
    if "i \<in> set (tx_inputs ?tx)" for i acc
    using tx(2) that by (intro yields_bind_eq [OF simulates_input [OF assms(1)]] yields_ret) auto
  then have inputs: "yields (simulates W g) (=) (foldE (\<lambda>i acc. bindE (balance_input L E is_testnet i) (\<lambda>b. ret (acc @ [b])))
      (tx_inputs ?tx) []) (map ?row (tx_inputs ?tx))"
    using yields_foldE [where Q = "(=)" and R = "(=)" and a = "[]" and b = "[]" and xs = "tx_inputs ?tx" and
        ys = "tx_inputs ?tx" and f = "\<lambda>i acc. acc @ [?row i]" and P = "simulates W g" and
        g = "\<lambda>i acc. bindE (balance_input L E is_testnet i) (\<lambda>b. ret (acc @ [b]))"]
    by (simp add: fold_append_map list_all2_refl)
  have outputs: "yields (simulates W g) (=) (getS (\<lambda>(s, w). map (balance_output L is_testnet s) (tx_outputs ?tx)))
      (map (balance_output L is_testnet g) (tx_outputs ?tx))"
  proof (rule yields_getS)
    fix p assume "simulates W g p"
    then have "holds_part g (fst p)" by (simp add: case_prod_beta)
    from holds_part_wallet(2) [OF this, of L is_testnet]
    show "map (balance_output L is_testnet g) (tx_outputs ?tx) =
        (case p of (s, w) \<Rightarrow> map (balance_output L is_testnet s) (tx_outputs ?tx))"
      by (simp add: case_prod_beta)
  qed
  show ?thesis
    unfolding analyse_tx_balances_def item_of_def
    by (intro yields_bind_eq [OF simulates_transaction [OF assms(1) tx(1)]] yields_bind_eq [OF inputs]
        yields_bind_eq [OF outputs] yields_ret refl)
qed

lemma simulates_impact:
  assumes "serves L E W g" "complete_tx L g txid"
  shows "yields (simulates W g) (=) (calculate_tx_wallet_impact L E is_testnet txid)
    (impact_of_items L [item_of L is_testnet g txid])"
  unfolding calculate_tx_wallet_impact_def
  using simulates_analyse [OF assms, of is_testnet "[]"] by (intro yields_bind_eq yields_ret) simp_all

lemma simulates_address_balance:
  assumes "serves L E W g" "whole L g" "a \<in> set (ws_addresses g)"
  shows "yields (simulates W g) (=) (calculate_address_balance L E is_testnet a False)
    (calc_address_balance a (ledger_items L is_testnet g a))"
  unfolding calculate_address_balance_def
proof (rule yields_bind [OF simulates_history [OF assms(1,3)]])
  fix h assume "same_items (known_history g a) h"
  then have h: "list_all2 (\<lambda>x y. ahi_txid x = ahi_txid y \<and> ahi_height x = ahi_height y) (known_history g a) h"
    by (simp add: same_items_all2)
  have "yields (simulates W g) (=) (foldE (\<lambda>item items. if \<not> False \<or> ahi_height item \<le> 0
        then analyse_tx_balances L E is_testnet (ahi_txid item) items else ret items) h [])
      (fold (\<lambda>item items. items @ [item_of L is_testnet g (ahi_txid item)]) (known_history g a) [])"
  proof (rule yields_foldE [OF h])
    fix x y and items items' :: "TxBalance list"
    assume x: "x \<in> set (known_history g a)" "ahi_txid x = ahi_txid y \<and> ahi_height x = ahi_height y" "items = items'"
    from assms(2,3) x(1) have "complete_tx L g (ahi_txid x)" by (simp add: whole_def)
    from simulates_analyse [OF assms(1) this] x(2,3)
    show "yields (simulates W g) (=) (if \<not> False \<or> ahi_height y \<le> 0 then analyse_tx_balances L E is_testnet (ahi_txid y) items'
        else ret items') (items @ [item_of L is_testnet g (ahi_txid x)])" by simp
  qed simp
  then show "yields (simulates W g) (=) (bindE (foldE (\<lambda>item items. if \<not> False \<or> ahi_height item \<le> 0
        then analyse_tx_balances L E is_testnet (ahi_txid item) items else ret items) h [])
        (\<lambda>items. ret (calc_address_balance a items))) (calc_address_balance a (ledger_items L is_testnet g a))"
    by (intro yields_bind_eq yields_ret) (simp_all add: fold_append_map ledger_items_def comp_def)
qed

lemma simulates_addresses: "yields (simulates W g) (=) (getS (\<lambda>(s, w). ws_addresses s)) (ws_addresses g)"
  by (rule yields_getS) (auto simp: holds_part_def)

lemma fold_add: "fold (\<lambda>x acc. acc + f x) xs b = b + sum_list (map f xs)" for b :: u64
  by (induction xs arbitrary: b) (simp_all add: algebra_simps)

lemma simulates_total:
  assumes "serves L E W g" "whole L g"
  shows "yields (simulates W g) (=) (calculate_total_balance L E is_testnet False) (ledger_total L is_testnet g)"
proof -
  let ?f = "\<lambda>a. calc_address_balance a (ledger_items L is_testnet g a)"
  have "yields (simulates W g) (=) (foldE (\<lambda>address balance. bindE (calculate_address_balance L E is_testnet address False)
      (\<lambda>b. ret (balance + b))) (ws_addresses g) 0) (fold (\<lambda>a b. b + ?f a) (ws_addresses g) 0)"
    by (rule yields_foldE [where Q = "(=)"])
       (auto simp: list_all2_refl intro!: yields_bind_eq [OF simulates_address_balance [OF assms]] yields_ret simp del: ret_eval)
  then show ?thesis
    unfolding calculate_total_balance_def ledger_total_def
    by (intro yields_bind_eq [OF simulates_addresses]) (simp add: fold_add)
qed

section \<open>The sorted transactions\<close>

lemma simulates_refresh:
  assumes "serves L E W g"
  shows "yields (simulates W g) same_items (foldE (refresh_step L E) (ws_addresses g) []) (ledger_history g)"
proof -
  have "yields (simulates W g) same_items (foldE (refresh_step L E) (ws_addresses g) [])
      (fold (\<lambda>a. fold ahi_insert (known_history g a)) (ws_addresses g) [])"
  proof (rule yields_foldE [where Q = "(=)"])
    fix a b acc acc' assume *: "a \<in> set (ws_addresses g)" "a = b" "same_items acc acc'"
    have "same_items (fold ahi_insert (known_history g a) acc) (fold ahi_insert h acc')" if "same_items (known_history g a) h" for h
      using that *(3) by (simp add: same_items_def mark_fresh_fold_insert)
    then show "yields (simulates W g) same_items (refresh_step L E b acc') (fold ahi_insert (known_history g a) acc)"
      using * unfolding refresh_step_def
      by (auto intro!: yields_bind [OF simulates_history [OF assms]] yields_ret simp del: ret_eval)
  qed (simp_all add: list_all2_refl)
  moreover have "fold (\<lambda>a. fold ahi_insert (known_history g a)) as acc = fold ahi_insert (concat (map (known_history g) as)) acc" for as acc
    by (induction as arbitrary: acc) simp_all
  ultimately show ?thesis by (simp add: ledger_history_def)
qed

lemma simulates_history_state:
  "yields (simulates W g) (=) (set_all_history items) ()" "yields (simulates W g) (=) sort_all_history ()"
  by (auto simp: yields_def set_all_history_def sort_all_history_def holds_part_def coherent_def settled_def
      known_history_def known_txhex_def)

text \<open>The transactions of the ledger are known as a whole, under the ids they hash to.\<close>

lemma whole_item:
  assumes "whole L g" "item \<in> set (std_sort history_before (ledger_history g))"
  shows "ahi_txid item \<noteq> []" "complete_tx L g (ahi_txid item)"
    "lb_encode_hash L (lb_tx_hash L (known_tx L g (ahi_txid item))) = ahi_txid item"
proof -
  have "set (std_sort history_before (ledger_history g)) = set (ledger_history g)" by (metis mset_std_sort set_mset_mset)
  with assms(2) have "ahi_txid item \<in> txids (ledger_history g)" by simp
  then have "ahi_txid item \<in> txids (concat (map (known_history g) (ws_addresses g)))"
    unfolding ledger_history_def txids_fold_insert by simp
  then obtain a x where "a \<in> set (ws_addresses g)" "x \<in> set (known_history g a)" "ahi_txid item = ahi_txid x" by auto
  with assms(1) show "ahi_txid item \<noteq> []" "complete_tx L g (ahi_txid item)"
    "lb_encode_hash L (lb_tx_hash L (known_tx L g (ahi_txid item))) = ahi_txid item" by (simp_all add: whole_def)
qed

lemma ledger_tx_complete: "whole L g \<Longrightarrow> ti \<in> set (ledger_txs L g) \<Longrightarrow> complete_tx L g (tx_id_of L ti)"
  by (auto simp: ledger_txs_def tx_id_of_def whole_item)

lemma simulates_txs:
  assumes "serves L E W g" "whole L g"
  shows "yields (simulates W g) (list_all2 same_tx) (get_all_txs_sorted L E) (ledger_txs L g)"
proof -
  let ?items = "std_sort history_before (ledger_history g)"
  let ?tx = "\<lambda>item. \<lparr>ti_tx = known_tx L g (ahi_txid item), ti_height = ahi_height item, ti_fresh = ahi_fresh item\<rparr>"
  have collect: "yields (simulates W g) (list_all2 same_tx) (foldE (collect_tx L E) (std_sort history_before xs) []) (ledger_txs L g)"
    if "same_items (ledger_history g) xs" for xs
  proof -
    have "same_items ?items (std_sort history_before xs)" using that by (simp add: same_items_def mark_fresh_sort)
    then have items: "list_all2 (\<lambda>x y. ahi_txid x = ahi_txid y \<and> ahi_height x = ahi_height y) ?items (std_sort history_before xs)"
      by (simp add: same_items_all2)
    have "yields (simulates W g) (list_all2 same_tx) (foldE (collect_tx L E) (std_sort history_before xs) [])
        (fold (\<lambda>item txs. txs @ [?tx item]) ?items [])"
    proof (rule yields_foldE [OF items])
      fix x y :: AddressHistoryItem and txs txs' :: "TransactionInfo list"
      assume x: "x \<in> set ?items" "ahi_txid x = ahi_txid y \<and> ahi_height x = ahi_height y" "list_all2 same_tx txs txs'"
      from whole_item [OF assms(2) x(1)] have id: "ahi_txid x \<noteq> []" "readable L g (ahi_txid x)"
        by (simp_all add: complete_tx_def)
      have "list_all2 same_tx (txs @ [?tx x]) (txs' @ [\<lparr>ti_tx = known_tx L g (ahi_txid x), ti_height = ahi_height y,
          ti_fresh = ahi_fresh y\<rparr>])" using x(2,3) by (auto intro!: list_all2_appendI simp: same_tx_def)
      then have "yields (simulates W g) (list_all2 same_tx) (bindE (get_transaction L E (ahi_txid x)) (\<lambda>tx.
          ret (txs' @ [\<lparr>ti_tx = tx, ti_height = ahi_height y, ti_fresh = ahi_fresh y\<rparr>]))) (txs @ [?tx x])"
        by (intro yields_bind_eq [OF simulates_transaction [OF assms(1) id(2)]] yields_ret)
      with id(1) x(2) show "yields (simulates W g) (list_all2 same_tx) (collect_tx L E y txs') (txs @ [?tx x])"
        by (simp add: collect_tx_def)
    qed simp
    then show ?thesis by (simp add: ledger_txs_def fold_append_map)
  qed
  show ?thesis
    unfolding get_all_txs_sorted_def refresh_all_history_def bindE_assoc set_sort_get
    by (intro yields_bind_eq [OF simulates_addresses] yields_bind [OF simulates_refresh [OF assms(1)]]
        yields_bind_eq [OF simulates_history_state(1)] yields_bind_eq [OF simulates_history_state(2)] collect)
qed

section \<open>Sums and rows over the transactions\<close>

lemma simulates_sum:
  assumes "serves L E W g" "whole L g" "list_all2 same_tx (ledger_txs L g) txs" "simulates W g p"
  shows "\<exists>p'. sum_impacts L E is_testnet add ok txs p = (total_of add (map (\<lambda>ti. balance_delta (impact_of_items L
      [item_of L is_testnet g (tx_id_of L ti)])) (filter (\<lambda>ti. ok (ti_height ti)) (ledger_txs L g))), p') \<and> simulates W g p'"
proof -
  let ?f = "\<lambda>ti. balance_delta (impact_of_items L [item_of L is_testnet g (tx_id_of L ti)])"
  let ?step = "\<lambda>tx_info balance. if ok (ti_height tx_info)
       then bindE (calculate_tx_wallet_impact L E is_testnet (tx_id_of L tx_info)) (\<lambda>impact.
            liftR (add balance (balance_delta impact)))
       else ret balance"
  have "\<exists>p'. foldE ?step txs b p = (foldR (\<lambda>d b. add b d) (map ?f (filter (\<lambda>ti. ok (ti_height ti)) xs)) b, p') \<and>
      simulates W g p'" if "list_all2 same_tx xs txs" "set xs \<subseteq> set (ledger_txs L g)" "simulates W g p" for xs txs b p
    using that
  proof (induction xs txs arbitrary: b p rule: list_all2_induct)
    case Nil
    then show ?case by simp
  next
    case (Cons x xs y ys)
    have y: "ti_height y = ti_height x" "tx_id_of L y = tx_id_of L x"
      using Cons.hyps(1) tx_id_of_same [OF Cons.hyps(1), of L] by (simp_all add: same_tx_def)
    show ?case
    proof (cases "ok (ti_height x)")
      case False
      with Cons.IH [of p b] Cons.prems y(1) show ?thesis by simp
    next
      case True
      have "x \<in> set (ledger_txs L g)" using Cons.prems(1) by simp
      from simulates_impact [OF assms(1) ledger_tx_complete [OF assms(2) this], of is_testnet] Cons.prems(2)
      obtain impact p1 where one: "calculate_tx_wallet_impact L E is_testnet (tx_id_of L x) p = (Inr impact, p1)"
        "impact_of_items L [item_of L is_testnet g (tx_id_of L x)] = impact" "simulates W g p1" by (rule yieldsE)
      show ?thesis
      proof (cases "add b (?f x)")
        case (Inl e)
        with one True y show ?thesis by (simp add: bindE_def)
      next
        case (Inr b')
        with Cons.IH [of p1 b'] Cons.prems(1) one True y show ?thesis by (simp add: bindE_def)
      qed
    qed
  qed
  from this [OF assms(3) subset_refl assms(4), of 0] show ?thesis by (simp add: sum_impacts_def total_of_def)
qed

text \<open>Rows are equal up to their \<^verbatim>\<open>fresh\<close> flags.\<close>

abbreviation forget_fresh :: "HistoryViewRow \<Rightarrow> HistoryViewRow" where
  "forget_fresh \<equiv> hvr_fresh_update (\<lambda>_. False)"

lemma forget_fresh_fill:
  "map forget_fresh (fst (fill_balances rows)) = fst (fill_balances (map forget_fresh rows))"
  "snd (fill_balances (map forget_fresh rows)) = snd (fill_balances rows)"
  by (induction rows) (simp_all add: case_prod_beta Let_def)

lemma simulates_rows:
  assumes "serves L E W g" "whole L g" "list_all2 same_tx (ledger_txs L g) txs"
  shows "yields (simulates W g) (\<lambda>xs ys. map forget_fresh xs = map forget_fresh ys)
    (foldE (\<lambda>tx_info rows. bindE (history_view_row L E is_testnet tx_info) (\<lambda>row. ret (rows @ [row]))) txs [])
    (map (row_of L is_testnet g) (ledger_txs L g))"
proof -
  let ?R = "\<lambda>xs ys. map forget_fresh xs = map forget_fresh ys"
  have "yields (simulates W g) ?R
      (foldE (\<lambda>tx_info rows. bindE (history_view_row L E is_testnet tx_info) (\<lambda>row. ret (rows @ [row]))) txs [])
      (fold (\<lambda>ti rows. rows @ [row_of L is_testnet g ti]) (ledger_txs L g) [])"
  proof (rule yields_foldE [OF assms(3)])
    fix x y and rows rows' :: "HistoryViewRow list"
    assume x: "x \<in> set (ledger_txs L g)" "same_tx x y" "?R rows rows'"
    note impact = simulates_impact [OF assms(1) ledger_tx_complete [OF assms(2) x(1)], of is_testnet]
    show "yields (simulates W g) ?R (bindE (history_view_row L E is_testnet y) (\<lambda>row. ret (rows' @ [row])))
        (rows @ [row_of L is_testnet g x])"
      unfolding history_view_row_def bindE_assoc tx_id_of_same [OF x(2), of L, symmetric]
      by (rule yields_bind_eq [OF impact])
         (use x(2,3) in \<open>simp add: yields_def bindE_def row_of_def Let_def same_tx_def\<close>)
  qed simp
  then show ?thesis by (simp add: fold_append_map)
qed

lemma simulates_view:
  assumes "serves L E W g" "whole L g" "holds_part g s" "W w"
  shows "\<exists>rows s' w'. create_history_view_rows L E is_testnet False (s, w) = (Inr (), (s', w')) \<and>
    history_queue s' = bq_push rows (history_queue s) \<and>
    map forget_fresh rows = map forget_fresh (ledger_rows L is_testnet g) \<and> holds_part g s' \<and> W w'"
proof -
  have "simulates W g (s, w)" using assms(3,4) by simp
  with simulates_txs [OF assms(1,2)] obtain txs p1 where
    txs: "get_all_txs_sorted L E (s, w) = (Inr txs, p1)" "list_all2 same_tx (ledger_txs L g) txs" "simulates W g p1"
    by (rule yieldsE)
  from simulates_rows [OF assms(1,2) txs(2), of is_testnet] txs(3) obtain rows p2 where
    rows: "foldE (\<lambda>tx_info rows. bindE (history_view_row L E is_testnet tx_info) (\<lambda>row. ret (rows @ [row]))) txs [] p1 =
      (Inr rows, p2)" "map forget_fresh (map (row_of L is_testnet g) (ledger_txs L g)) = map forget_fresh rows"
      "simulates W g p2" by (rule yieldsE)
  obtain s2 w2 where p2: "p2 = (s2, w2)" by fastforce
  have "history_queue (fst p1) = history_queue s"
    using keepsD [OF keeps_queue_all_txs [where bulk = False], unfolded if_False, OF _ txs(1)] by simp
  then have queue: "history_queue s2 = history_queue s"
    using keepsD [OF keeps_queue_rows _ rows(1), of "history_queue (fst p1)"] p2 by simp
  let ?rows = "fst (fill_balances rows)"
  let ?s' = "s2\<lparr>history_queue := bq_push ?rows (history_queue s2)\<rparr>"
  have "create_history_view_rows L E is_testnet False (s, w) = (Inr (), (?s', w2))"
    using txs(1) rows(1) p2 by (simp add: create_history_view_rows_def push_history_update_def)
  moreover have "map forget_fresh ?rows = map forget_fresh (ledger_rows L is_testnet g)"
    unfolding ledger_rows_def forget_fresh_fill(1) rows(2) ..
  moreover have "holds_part g ?s'"
    using rows(3) p2 by (simp add: holds_part_def coherent_def settled_def known_history_def known_txhex_def)
  ultimately show ?thesis using rows(3) p2 queue
    by (intro exI [where x = ?rows] exI [where x = ?s'] exI [where x = w2]) simp
qed

section \<open>Property\<close>

text \<open>
  C4. The wallet refines the ledger behind its server. Take a server that answers every request
  from a ledger that has the histories of the wallet's addresses and the transactions they need, and
  a wallet whose caches hold any part of that ledger, from nothing to everything. Then the total
  balance, the confirmed balance, the unconfirmed impact and the history view are computed with single
  requests, whatever is cached, and are (up to the fresh flags of the rows) those defined on the whole
  ledger; and the caches still hold a part of the ledger, so that the same is true of every operation
  that follows. The unconfirmed impact is the sum of the changes unless their signed sum overflows,
  which is undefined behaviour.
\<close>

theorem wallet_refines_ledger:
  assumes "serves L E W g" "whole L g" "holds_part g s" "W w"
  shows "(\<exists>s' w'. calculate_total_balance L E is_testnet False (s, w) = (Inr (ledger_total L is_testnet g), (s', w')) \<and>
      holds_part g s' \<and> W w') \<and>
    (\<exists>s' w'. calculate_confirmed_balance L E is_testnet (s, w) =
        (Inr (ledger_sum L is_testnet (\<lambda>h. h \<noteq> 0) g), (s', w')) \<and> holds_part g s' \<and> W w') \<and>
    (\<exists>r s' w'. unconfirmed_txs_wallet_impact L E is_testnet (s, w) = (r, (s', w')) \<and> r = ledger_impact L is_testnet g \<and>
        (r = Inr (ledger_sum L is_testnet (\<lambda>h. h = 0) g) \<or> r = Inl UndefinedBehaviour) \<and> holds_part g s' \<and> W w') \<and>
    (\<exists>rows s' w'. create_history_view_rows L E is_testnet False (s, w) = (Inr (), (s', w')) \<and>
        history_queue s' = bq_push rows (history_queue s) \<and>
        map forget_fresh rows = map forget_fresh (ledger_rows L is_testnet g) \<and> holds_part g s' \<and> W w')"
proof -
  have start: "simulates W g (s, w)" using assms(3,4) by simp
  obtain txs p1 where txs: "get_all_txs_sorted L E (s, w) = (Inr txs, p1)" "list_all2 same_tx (ledger_txs L g) txs" "simulates W g p1"
    by (rule yieldsE [OF simulates_txs [OF assms(1,2)] start])
  note sums = simulates_sum [OF assms(1,2) txs(2,3), of is_testnet]
  from sums [of unsigned_add "\<lambda>h. h \<noteq> 0"] txs(1) have
    "\<exists>s' w'. calculate_confirmed_balance L E is_testnet (s, w) =
        (Inr (ledger_sum L is_testnet (\<lambda>h. h \<noteq> 0) g), (s', w')) \<and> holds_part g s' \<and> W w'"
    by (auto simp: calculate_confirmed_balance_def unsigned_total ledger_sum_def bindE_def)
  moreover from sums [of signed_add "\<lambda>h. h = 0"] txs(1) have
    "\<exists>s' w'. unconfirmed_txs_wallet_impact L E is_testnet (s, w) = (ledger_impact L is_testnet g, (s', w')) \<and> holds_part g s' \<and> W w'"
    by (auto simp: unconfirmed_txs_wallet_impact_def ledger_impact_def bindE_def)
  moreover have "ledger_impact L is_testnet g = Inr (ledger_sum L is_testnet (\<lambda>h. h = 0) g) \<or>
      ledger_impact L is_testnet g = Inl UndefinedBehaviour"
    unfolding ledger_impact_def ledger_sum_def by (rule signed_total_cases)
  moreover from simulates_total [OF assms(1,2), of is_testnet] start have
    "\<exists>s' w'. calculate_total_balance L E is_testnet False (s, w) = (Inr (ledger_total L is_testnet g), (s', w')) \<and>
      holds_part g s' \<and> W w'" unfolding yields_def by fastforce
  ultimately show ?thesis using simulates_view [OF assms, of is_testnet] by blast
qed

text \<open>The example ledger behind a server, and a wallet that has cached one of the two transactions.\<close>

definition ledger_server :: "(unit, unit) ElectrumInterface" where
  "ledger_server = sample_server\<lparr>ei_getTransaction := ret, ei_getHistory := \<lambda>_. ret (known_history ledger_wallet ''A'')\<rparr>"

definition part_wallet :: "unit WalletState" where
  "part_wallet = ledger_wallet\<lparr>txid_2_txhex_cache := [''b'' \<mapsto> ''b''], address_2_history_cache := Map.empty\<rparr>"

lemma ledger_served: "serves view_lib ledger_server (\<lambda>_. True) ledger_wallet"
proof -
  have "txid = known_txhex ledger_wallet txid" if "known_txhex ledger_wallet txid \<noteq> []" for txid
    using that by (auto simp: known_txhex_def ledger_wallet_def split: if_splits)
  moreover have "ws_addresses ledger_wallet = [''A'']" by (simp add: ledger_wallet_def)
  moreover have "base58_to_spkh_hex view_lib ''A'' = Inr []" by (simp add: base58_to_spkh_hex_def view_lib_def)
  ultimately show ?thesis by (simp add: serves_def ledger_server_def)
qed

lemma ledger_whole: "whole view_lib ledger_wallet"
proof -
  let ?ok = "\<lambda>item. ahi_txid item \<noteq> [] \<and> complete_tx view_lib ledger_wallet (ahi_txid item) \<and>
    lb_encode_hash view_lib (lb_tx_hash view_lib (known_tx view_lib ledger_wallet (ahi_txid item))) = ahi_txid item"
  have "list_all ?ok (known_history ledger_wallet ''A'')" by code_simp
  then show ?thesis by (simp add: whole_def list_all_iff ledger_wallet_def)
qed

lemma part_held: "holds_part ledger_wallet part_wallet"
proof -
  have "known_txhex part_wallet txid = known_txhex ledger_wallet txid" if "known_txhex part_wallet txid \<noteq> []" for txid
    using that by (auto simp: known_txhex_def part_wallet_def ledger_wallet_def split: if_splits)
  then show ?thesis
    by (auto simp: holds_part_def coherent_def settled_def known_history_def part_wallet_def ledger_wallet_def sample_wallet_def)
qed

theorem wallet_refines_ledger_witness:
  "fst (calculate_total_balance view_lib ledger_server True False (part_wallet, ())) = Inr 7 \<and>
   fst (calculate_confirmed_balance view_lib ledger_server True (part_wallet, ())) = Inr 12 \<and>
   fst (unconfirmed_txs_wallet_impact view_lib ledger_server True (part_wallet, ())) = Inr (- 5) \<and>
   (\<exists>rows s'. create_history_view_rows view_lib ledger_server True False (part_wallet, ()) = (Inr (), (s', ())) \<and>
      history_queue s' = [rows] \<and> map hvr_balance rows = [7, 12])"
proof -
  have spec: "ledger_total view_lib True ledger_wallet = 7" "ledger_sum view_lib True (\<lambda>h. h \<noteq> 0) ledger_wallet = 12"
    "ledger_impact view_lib True ledger_wallet = Inr (- 5)"
    "map hvr_balance (ledger_rows view_lib True ledger_wallet) = [7, 12]" by code_simp+
  have empty: "history_queue part_wallet = []" by (simp add: part_wallet_def ledger_wallet_def sample_wallet_def)
  have balances: "map hvr_balance rows = map hvr_balance rows'" if "map forget_fresh rows = map forget_fresh rows'" for rows rows'
    using arg_cong [OF that, of "map hvr_balance"] by (simp add: comp_def)
  note refined = wallet_refines_ledger [OF ledger_served ledger_whole part_held TrueI, of True "()", unfolded spec(1-3) empty bq_push_def]
  have "fst (calculate_total_balance view_lib ledger_server True False (part_wallet, ())) = Inr 7"
    using conjunct1 [OF refined] by auto
  moreover have "fst (calculate_confirmed_balance view_lib ledger_server True (part_wallet, ())) = Inr 12"
    using conjunct1 [OF conjunct2 [OF refined]] by auto
  moreover have "fst (unconfirmed_txs_wallet_impact view_lib ledger_server True (part_wallet, ())) = Inr (- 5)"
    using conjunct1 [OF conjunct2 [OF conjunct2 [OF refined]]] by auto
  moreover from conjunct2 [OF conjunct2 [OF conjunct2 [OF refined]]]
  have "\<exists>rows s'. create_history_view_rows view_lib ledger_server True False (part_wallet, ()) = (Inr (), (s', ())) \<and>
      history_queue s' = [rows] \<and> map hvr_balance rows = [7, 12]"
  proof (elim exE conjE)
    fix rows :: "HistoryViewRow list" and s' :: "unit WalletState" and u :: unit
    assume view: "create_history_view_rows view_lib ledger_server True False (part_wallet, ()) = (Inr (), (s', u))"
      "history_queue s' = [rows]" "map forget_fresh rows = map forget_fresh (ledger_rows view_lib True ledger_wallet)"
    from balances [OF view(3)] spec(4) have "map hvr_balance rows = [7, 12]" by simp
    with view(1,2) show ?thesis by (intro exI [where x = rows] exI [where x = s']) simp
  qed
  ultimately show ?thesis by simp
qed

end
