(* ===== verification/RefusedRequest.thy ===== *)
theory RefusedRequest
  imports HistoryRefresh
begin

text \<open>
  Requests the server refuses. One refused request makes the whole bulk request fail, with the
  server's message and after every request was answered; and the history view of a wallet with a
  newly mined coin always asks for a transaction that does not exist.
\<close>

section \<open>Bulk replies before they are read\<close>

text \<open>The replies themselves, in the order of the requests.\<close>

abbreviation as_received :: "'j \<Rightarrow> 'j result \<times> 'j" where
  "as_received j \<equiv> (Inr j, j)"

lemma read_all_as_received: "read_all J rpc as_received js acc = Inr (acc @ js)"
  by (rule read_all_values) (simp add: list_all2_same)

lemma do_bulk_as_received:
  assumes "do_bulk J rpc as_received xs [] s = (Inr js, s')"
  shows "do_bulk J rpc parse xs acc s = (read_all J rpc parse js acc, s')"
  using assms by (auto simp: do_bulk_def bindE_def read_all_as_received split: prod.splits sum.splits)

text \<open>A server's answer to a request for a transaction: its text, or an error object.\<close>

definition answers_text :: "'j json_api \<Rightarrow> (string \<Rightarrow> string) \<Rightarrow> string \<Rightarrow> string \<Rightarrow> (string \<times> 'j) list \<Rightarrow> bool" where
  "answers_text J T m txid reply \<longleftrightarrow>
     (if T txid \<noteq> [] then map_of reply ''result'' = Some (js_string J (T txid))
      else map_of reply ''result'' = None \<and>
        (\<exists>err. map_of reply ''error'' = Some (js_object J err) \<and> map_of err ''message'' = Some (js_string J m)))"

lemma read_all_refused:
  assumes "json_documented J" "list_all2 (answers_text J T m) ids replies" "\<exists>txid \<in> set ids. T txid = []"
  shows "read_all J rpc (at_result J (js_get_string J)) (map (js_object J) replies) acc = Inl (InvalidArgument m)"
  using assms(2,3)
proof (induction ids replies arbitrary: acc rule: list_all2_induct)
  case (Cons txid ids reply replies)
  show ?case
  proof (cases "T txid = []")
    case True
    with Cons.hyps(1) have none: "map_of reply ''result'' = None" and
      "\<exists>err. map_of reply ''error'' = Some (js_object J err) \<and> map_of err ''message'' = Some (js_string J m)"
      by (simp_all add: answers_text_def)
    then obtain err where r: "map_of reply ''error'' = Some (js_object J err)" "map_of err ''message'' = Some (js_string J m)"
      by blast
    then have nonempty: "reply \<noteq> []" by auto
    from json_at_missing [OF assms(1) none] obtain e where
      "at_get J (js_get_string J) (js_object J reply) ''result'' = Inl (LibraryException e)" by (auto simp: at_get_def)
    moreover have "at_get J (js_get_string J) (js_object J err) ''message'' = Inr m"
      using r(2) assms(1) by (simp add: at_get_member json_facts)
    ultimately show ?thesis using nonempty r(1) assms(1)
      by (simp add: read_all_def at_result_def handle_exception_def process_exception_def json_atI json_facts)
  next
    case False
    with Cons.hyps(1) have "at_get J (js_get_string J) (js_object J reply) ''result'' = Inr (T txid)"
      using assms(1) by (simp add: answers_text_def at_get_member json_facts)
    moreover have "\<exists>txid \<in> set ids. T txid = []" using False Cons.prems by simp
    note Cons.IH [OF this, of "acc @ [T txid]"]
    ultimately show ?thesis by (simp add: read_all_def at_result_def)
  qed
qed simp

lemma transaction_bulk_refused:
  assumes "json_documented J" "idle s" "0 \<le> id_counter s" "id_counter s + int (length ids) < 2 ^ 31" "length ids \<le> 100"
    and "prompt_replies J ''blockchain.transaction.get'' 100 as_received (id_counter s) ids readss (map (js_object J) replies)"
    and "list_all2 (answers_text J T m) ids replies" "\<exists>txid \<in> set ids. T txid = []"
    and "events s = map (ReadSome None) (concat readss) @ es"
  shows "\<exists>s'. getTransactionBulk J ids cbs s = (Inl (InvalidArgument m), s') \<and>
    sent s' = sent s @ map2 (request_text J ''blockchain.transaction.get'') ids (numbers (id_counter s) (length ids)) \<and>
    idle s' \<and> id_counter s' = id_counter s + int (length ids) \<and> events s' = es"
proof -
  let ?rpc = "''blockchain.transaction.get''" and ?js = "map (js_object J) replies"
  from assms(6) obtain answers where r:
    "list_all2 (request_fits J ?rpc) ids (numbers (id_counter s) (length ids))"
    "list_all2 (reply_reads J as_received) readss answers" "chunkwise 100 (numbers (id_counter s) (length ids)) answers"
    "?js = map (\<lambda>n. the (map_of answers n)) (numbers (id_counter s) (length ids))" by (auto simp: prompt_replies_def)
  have "length answers = length ids" using r(3) by (simp add: chunkwise_def)
  with chunkwise_first [OF r(3)] assms(5) have "mset (map fst answers) = mset (numbers (id_counter s) (length ids))" by simp
  from do_bulk_prompt [OF assms(1-4) r(1) assms(9) r(2) this, of "[]"] r(4) obtain s' where
    received: "do_bulk J ?rpc as_received ids [] s = (Inr ?js, s')" and
    s': "sent s' = sent s @ map2 (request_text J ?rpc) ids (numbers (id_counter s) (length ids))"
      "idle s'" "id_counter s' = id_counter s + int (length ids)" "events s' = es" by auto
  have "ids \<noteq> []" using assms(8) by auto
  with do_bulk_as_received [OF received, of "at_result J (js_get_string J)" "[]"] assms(5)
    read_all_refused [OF assms(1,7,8), of ?rpc "[]"]
  have "getTransactionBulk J ids cbs s = (Inl (InvalidArgument m), s')"
    by (simp add: getTransactionBulk_def doGetTransactionBulk_def run_bulk_def bulk_loop.simps)
  with s' show ?thesis by blast
qed

section \<open>Coinbase transactions\<close>

text \<open>The input of a coinbase transaction refers to the null hash.\<close>

definition null_hash :: hash_digest where
  "null_hash = replicate 32 0"

definition is_coinbase :: "transaction \<Rightarrow> bool" where
  "is_coinbase tx \<longleftrightarrow> null_hash \<in> set (map (op_hash \<circ> previous_output) (tx_inputs tx))"

lemma coinbase_asks_null:
  assumes "tx \<in> set txs" "is_coinbase tx"
  shows "lb_encode_hash L null_hash \<in> set (funding_ids L txs)"
proof -
  from assms(2) obtain i where "i \<in> set (tx_inputs tx)" "funding_id L i = lb_encode_hash L null_hash"
    by (auto simp: is_coinbase_def funding_id_def)
  with assms(1) show ?thesis by (force simp: funding_ids_def)
qed

text \<open>The view ends with the error of its third request, and leaves the wallet as the load left it.\<close>

lemma view_load_fails:
  assumes "get_all_txs_sorted_bulk L E (s, w) = (Inr infos, (s1, w1))"
    and "\<And>ti. ti \<in> set infos \<Longrightarrow> known_txhex s1 (tx_id_of L ti) \<noteq> [] \<and> hex_2_tx L (known_txhex s1 (tx_id_of L ti)) = Inr (ti_tx ti)"
    and "[] \<notin> set (funding_ids L (map ti_tx infos))"
    and "ei_getTransactionBulk E (funding_ids L (map ti_tx infos)) (progress_callbacks s1) w1 = (Inl e, w2)"
  shows "create_history_view_rows L E is_testnet True (s, w) = (Inl e, (s1, w2))" "history_queue s1 = history_queue s"
proof -
  have "list_all (\<lambda>ti. readable L s1 (tx_id_of L ti) \<and> known_tx L s1 (tx_id_of L ti) = ti_tx ti) infos"
    using assms(2) by (auto simp: list_all_iff readable_def known_tx_def)
  from funding_complete [OF this assms(3), where E = E and w = w1 and acc = "[]"] assms(1,4)
  show "create_history_view_rows L E is_testnet True (s, w) = (Inl e, (s1, w2))"
    by (simp add: create_history_view_rows_def bindE_def load_txs_bulk_def)
  show "history_queue s1 = history_queue s"
    using keepsD [OF keeps_queue_all_txs [where bulk = True], unfolded if_P [OF TrueI], OF _ assms(1)] by simp
qed

lemma map_inverse_ids: "list_all2 (\<lambda>x y. f y = x) xs ys \<Longrightarrow> map f ys = xs"
  by (induction rule: list_all2_induct) simp_all

section \<open>Property\<close>


text \<open>
  A wallet with a mined transaction \<^verbatim>\<open>c\<close> and the transaction \<^verbatim>\<open>b\<close>, which spends an output of \<^verbatim>\<open>a\<close>. The
  third request asks for \<^verbatim>\<open>a\<close>, which is answered, and for the null hash, which is refused.
\<close>

definition mined_example :: transaction where
  "mined_example = \<lparr>tx_version = 99, tx_locktime = 0,
     tx_inputs = [\<lparr>previous_output = \<lparr>op_hash = null_hash, op_index = 0xFFFFFFFF\<rparr>, in_script = [], in_sequence = 0\<rparr>],
     tx_outputs = [pay_to 65 50]\<rparr>"

definition mined_lib :: libbitcoin where
  "mined_lib = view_lib\<lparr>lb_tx_from_data := \<lambda>d. if d = [98] then Some spending_example
     else if d = [99] then Some mined_example else None\<rparr>"

abbreviation null_text :: string where
  "null_text \<equiv> replicate 32 (CHR 0x00)"

definition mined_text :: "string \<Rightarrow> string" where
  "mined_text txid = (if txid = null_text then [] else txid)"

definition mined_replies :: "(string \<times> (string \<times> json) list) list" where
  "mined_replies =
    [(''H'', [(''id'', JInt 1), (''result'', JArray
        [JObject [(''height'', JInt 7), (''tx_hash'', JString ''c'')],
         JObject [(''height'', JInt 0), (''tx_hash'', JString ''b'')]])]),
     (''B'', [(''id'', JInt 2), (''result'', JString ''b'')]),
     (''C'', [(''id'', JInt 3), (''result'', JString ''c'')]),
     (''A'', [(''id'', JInt 4), (''result'', JString ''a'')]),
     (''N'', [(''id'', JInt 5), (''error'', JObject [(''message'', JString ''No such transaction'')])])]"

abbreviation mined_client :: "json RonghuaClient" where
  "mined_client \<equiv> sample_ronghua\<lparr>events := map (ReadSome None) [''H'', ''B'', ''C'', ''N'', ''A'']\<rparr>"

lemma mined_server:
  "list_all2 (\<lambda>txid tx. mined_text txid \<noteq> [] \<and> hex_2_tx mined_lib (mined_text txid) = Inr tx \<and>
     lb_encode_hash mined_lib (lb_tx_hash mined_lib tx) = txid) [''b'', ''c''] [spending_example, mined_example]"
  "funding_ids mined_lib [spending_example, mined_example] = [''a'', null_text]"
  "lb_encode_hash mined_lib null_hash = null_text" "is_coinbase mined_example"
  by code_simp+

lemma mined_texts: "map mined_text [''a'', ''b'', ''c'', null_text] = [''a'', ''b'', ''c'', []]"
  by code_simp

lemma mined_answers:
  "list_all2 (answers_text (table_json mined_replies) mined_text ''No such transaction'') [''a'', null_text]
     (map snd (drop 3 mined_replies))"
  using mined_texts by (simp add: answers_text_def mined_replies_def numeral_3_eq_3)

lemma mined_requests:
  "list_all2 (request_fits (table_json mined_replies) ''blockchain.scripthash.get_history'')
     [[]] (numbers 0 1)"
  "list_all2 (request_fits (table_json mined_replies) ''blockchain.transaction.get'')
     [''b'', ''c''] (numbers 1 2)"
  "list_all2 (request_fits (table_json mined_replies) ''blockchain.transaction.get'')
     [''a'', null_text] (numbers 3 2)"
  unfolding table_request_fits by code_simp+

lemma mined_exchange:
  fixes ahi0 defines "ahi0 \<equiv> \<lparr>ahi_txid = [], ahi_height = 0, ahi_fresh = True\<rparr>" and "J \<equiv> table_json mined_replies"
  shows "prompt_replies J ''blockchain.scripthash.get_history'' 25 (index_result J (\<lambda>v. address_history_from_json J ahi0 v []))
      0 [[]] [[''H'']] [[ahi0\<lparr>ahi_txid := ''c'', ahi_height := 7\<rparr>, ahi0\<lparr>ahi_txid := ''b'', ahi_height := 0\<rparr>]]"
    (is "prompt_replies _ _ _ ?parse _ _ _ [?h]")
    and "prompt_replies J ''blockchain.transaction.get'' 100 (at_result J (js_get_string J)) 1 [''b'', ''c'']
      [[''B''], [''C'']] [''b'', ''c'']"
    and "prompt_replies J ''blockchain.transaction.get'' 100 as_received 3 [''a'', null_text] [[''N''], [''A'']]
      (map (js_object J) (map snd (drop 3 mined_replies)))"
proof -
  let ?at = "at_result J (js_get_string J)"
  have "fst (?parse (JObject (snd (hd mined_replies)))) = Inr ?h" unfolding ahi0_def J_def by code_simp
  then have "reply_reads J ?parse [''H''] (1, ?h)"
    unfolding J_def by (intro table_reply_reads [where reply = "snd (hd mined_replies)"]) (simp_all add: mined_replies_def)
  then show "prompt_replies J ''blockchain.scripthash.get_history'' 25 ?parse 0 [[]] [[''H'']] [?h]"
    using mined_requests(1) unfolding J_def by (intro prompt_replies_one [where replies = "[(1, ?h)]"]) simp_all
  have "fst (?at (JObject [(''id'', JInt n), (''result'', JString t)])) = Inr t" for n t
    unfolding J_def by (simp add: at_result_def at_get_def table_json_def sample_json_def)
  then have "reply_reads J ?at [''B''] (2, ''b'')" "reply_reads J ?at [''C''] (3, ''c'')"
    unfolding J_def by (auto intro!: table_reply_reads simp: mined_replies_def)
  then show "prompt_replies J ''blockchain.transaction.get'' 100 ?at 1 [''b'', ''c''] [[''B''], [''C'']] [''b'', ''c'']"
    using mined_requests(2) unfolding J_def
    by (intro prompt_replies_one [where replies = "[(2, ''b''), (3, ''c'')]"]) (simp_all add: numeral_2_eq_2)
  let ?r = "\<lambda>i. JObject (snd (mined_replies ! i))"
  have "reply_reads J as_received [''A''] (4, ?r 3)" "reply_reads J as_received [''N''] (5, ?r 4)"
    unfolding J_def by (auto intro!: table_reply_reads simp: mined_replies_def)
  then show "prompt_replies J ''blockchain.transaction.get'' 100 as_received 3 [''a'', null_text] [[''N''], [''A'']]
      (map (js_object J) (map snd (drop 3 mined_replies)))"
    using mined_requests(3) unfolding J_def
    by (intro prompt_replies_one [where replies = "[(5, ?r 4), (4, ?r 3)]"]) (simp_all add: numeral_2_eq_2 mined_replies_def)
qed


end
