(* ===== verification/Spec2Isabelle.thy ===== *)
theory Spec2Isabelle
  imports TimeLock PursePayment BlockingQueue RequestThreads WalletLife LedgerRefinement RefusedRequest
begin

text \<open>
  A verification library for binglib, a C++ library for Bitcoin wallets: building time-locked and
  ordinary payments, talking to Electrum and Libbitcoin servers, and keeping the state of a
  wallet. Paths below are relative to \<^verbatim>\<open>src/\<close> of the repository.

  \<^bold>\<open>The program.\<close> A wallet (\<^verbatim>\<open>wallet\<close>) derives addresses and keys from a seed phrase. Its state
  (\<^verbatim>\<open>walletstate\<close>) caches transactions and address histories it obtains through the abstract
  \<^verbatim>\<open>electrumclient/electrum_interface.hpp\<close>, and \<^verbatim>\<open>historyinspector\<close> computes balances and history
  rows from it, which go to the user interface through blocking queues (\<^verbatim>\<open>utility\<close>). The one
  implementation of the interface is \<^verbatim>\<open>ronghuaclient\<close>: the client numbers requests and matches
  replies, the socket client reassembles messages from reads and routes them through an input
  queue shared by the receiver thread and the calling threads. Transactions are built by
  \<^verbatim>\<open>locktx\<close>, \<^verbatim>\<open>p2pkhtx\<close> and \<^verbatim>\<open>unlocktx\<close> with the script of \<^verbatim>\<open>libbscript\<close> and the coin selection of
  \<^verbatim>\<open>libbfunds\<close>, whose coins come from a Libbitcoin server (\<^verbatim>\<open>libbitcoinclient\<close>) or the Electrum
  interface.

  \<^bold>\<open>Theories and code.\<close>
  \<^item> \<^verbatim>\<open>Prelude\<close>: \<^verbatim>\<open>common/bing_exception.hpp\<close>; failures as the sum type \<^verbatim>\<open>result\<close>, stateful
    operations as \<^verbatim>\<open>exec\<close> (the state reached is kept when an exception leaves), the invariant
    calculus \<^verbatim>\<open>keeps\<close>, the calculus of total correctness \<^verbatim>\<open>yields\<close>, \<^verbatim>\<open>vector::at\<close>, \<^verbatim>\<open>map::at\<close>,
    \<^verbatim>\<open>map::operator[]\<close>, \<^verbatim>\<open>to_string\<close>, word sums.
  \<^item> \<^verbatim>\<open>Libbitcoin\<close>: the third-party library as the record \<^verbatim>\<open>libbitcoin\<close> of the functions the code
    calls, a parameter of every definition that uses it; documented behaviour that a property
    needs is a named predicate (\<^verbatim>\<open>..._documented\<close>), and \<^verbatim>\<open>sample_libbitcoin\<close> satisfies them.
  \<^item> \<^verbatim>\<open>ElectrumModel\<close>: \<^verbatim>\<open>electrumclient/electrum_model\<close>, with the JSON library as the record
    \<^verbatim>\<open>json_api\<close>; \<^verbatim>\<open>ElectrumInterface\<close>: the abstract class as a record of operations, and the locale
    \<^verbatim>\<open>bulk_service\<close>, the one-reply-per-request contract of its bulk operations. The class
    \<^verbatim>\<open>XElectrumInterface\<close> only returns such a client; operations take the client itself.
  \<^item> \<^verbatim>\<open>FundsFinder\<close>, \<^verbatim>\<open>PurseAccessor\<close>: \<^verbatim>\<open>libbfunds\<close>; \<^verbatim>\<open>RedeemScript\<close>: \<^verbatim>\<open>libbscript\<close>, with the consensus
    rules for the operations the script uses as its specification; \<^verbatim>\<open>AddressConverter\<close>,
    \<^verbatim>\<open>BlockingQueue\<close>: \<^verbatim>\<open>utility\<close>; \<^verbatim>\<open>LibbClient\<close>: \<^verbatim>\<open>libbitcoinclient\<close>.
  \<^item> \<^verbatim>\<open>TxBuild\<close> (what the two online creators share), \<^verbatim>\<open>OnlineLockTxCreator\<close>,
    \<^verbatim>\<open>OnlineP2pkhTxCreator\<close>, \<^verbatim>\<open>OfflineUnlockTxCreator\<close>: the three transaction creators.
  \<^item> \<^verbatim>\<open>InputQueue\<close>, \<^verbatim>\<open>SocketClient\<close>, \<^verbatim>\<open>RonghuaClient\<close>: \<^verbatim>\<open>ronghuaclient\<close>, one theory per class. The
    record of \<^verbatim>\<open>RonghuaClient\<close> extends that of its socket client, whose fields are the C++
    members plus the world: the socket and a script of events still to come.
    \<^verbatim>\<open>RequestThreads\<close>: several threads with single, bulk and eat requests, as a step relation.
  \<^item> \<^verbatim>\<open>BingWallet\<close>: \<^verbatim>\<open>wallet\<close>; \<^verbatim>\<open>WalletState\<close>: \<^verbatim>\<open>walletstate\<close>; \<^verbatim>\<open>HistoryInspector\<close>:
    \<^verbatim>\<open>historyinspector\<close>.
  \<^item> Theories without code of their own, about components together: \<^verbatim>\<open>WalletViews\<close> (what the wallet
    state promises the history inspector), \<^verbatim>\<open>LedgerBalance\<close> (its two ways to the balance),
    \<^verbatim>\<open>BulkLoad\<close> (the wallet state's bulk against its single operations), \<^verbatim>\<open>WalletLife\<close> (its reachable
    states), \<^verbatim>\<open>PromptServer\<close> (bulk requests against a server that answers), \<^verbatim>\<open>WalletSync\<close> and
    \<^verbatim>\<open>HistoryRefresh\<close> (the wallet's bulk load and the history view over the client, against such a
    server), \<^verbatim>\<open>LedgerRefinement\<close> (the cached wallet against the whole ledger of its server),
    \<^verbatim>\<open>RefusedRequest\<close> (bulk requests and the history view when the server refuses a request),
    \<^verbatim>\<open>ClientPayment\<close> (a payment over the client, from the reply with the coins to the
    broadcast), \<^verbatim>\<open>PursePayment\<close> (the address that pays, chosen over the same client) and
    \<^verbatim>\<open>TimeLock\<close> (the lock over the client and the transaction that unlocks it). This theory joins the
    wallet state and the client.

  Definitions have the names of the C++ functions and types; a suffix \<^verbatim>\<open>_loop\<close>, \<^verbatim>\<open>_step\<close> or \<^verbatim>\<open>_of\<close>
  marks the body of a loop.

  \<^bold>\<open>What the lemmas show.\<close> Coin selection: the shortest sufficient prefix, exact sums, and the
  balance of inputs, outputs and fee of every transaction built (the locale \<^verbatim>\<open>coin_selection\<close>,
  interpreted for both selections). Redeem script: what it accepts, up to and beyond $2^{31}$. Time
  locks: for lock times below $2^{31}$, what the locking call locks the unlocking call can spend, and
  nobody earlier. Queues:
  conservation, order, no lost wake-up (locales interpreted on both queues). Socket client: reassembly
  of messages from reads that belong to one message each, and where it ends. Ronghua client: the complete exchange of a
  request, the contract of the bulk loops as an interpretation of \<^verbatim>\<open>bulk_service\<close>, that they return
  when the server answers and run forever when it does not, mutual exclusion of the requests that take
  the mutex, and the ways a request
  can hang. Wallet state: the invariant \<^verbatim>\<open>coherent\<close> of the caches, lookups answered from the cache,
  the combined history as a duplicate-free union in display order; the states a wallet object can
  reach are an inductive predicate, and its invariant makes the script hash table exact. History
  inspector: balances as sums over unspent outputs, running balances of the rows; the calculus
  \<^verbatim>\<open>learns\<close> lifts the cached lookups to every operation built from them, so that balances are
  repeatable without the server, all views of the wallet agree, and a bulk load shows what single
  loads show. On a complete ledger the balance by addresses and the balance by transactions are the
  same, and a wallet that has cached any part of the ledger its server has computes the balances and
  rows of the whole. Across the layers: a wallet synchronises and shows its history over the client
  when the server answers, whatever the order of the replies, as long as no read carries parts of two
  replies (then the client is stuck for good); one refused request makes a whole bulk request fail, and with a coinbase transaction the history view
  always contains one; a purse finds the address that can pay, and payment and time lock over the
  client spend the coins of the reply and nothing else; from nineteen coins on a payment cannot be
  broadcast.

  \<^bold>\<open>Modelling choices.\<close> Integers are words of their C++ width; a C++ \<^verbatim>\<open>int\<close> that only indexes or
  numbers is an \<^verbatim>\<open>int\<close>, wrapped where the code counts (\<^verbatim>\<open>wrap_int\<close>); \<^verbatim>\<open>balance_delta\<close> and fees read as
  \<^verbatim>\<open>double\<close> are their 64 bits. The signed accumulator of
  \<^verbatim>\<open>unconfirmed_txs_wallet_impact\<close> is undefined behaviour when it overflows (\<^verbatim>\<open>signed_add\<close>); the other
  sums are unsigned and wrap. An exception that no handler catches on the receiver's thread ends the
  process; what waits then never returns. Undefined behaviour and calls that never return are results
  (\<^verbatim>\<open>UndefinedBehaviour\<close>, \<^verbatim>\<open>NeverReturns\<close>), not exceptions. Uninitialised variables are arguments
  (\<^verbatim>\<open>junk\<close>, \<^verbatim>\<open>ahi0\<close>). A wait consumes the script of events until its condition holds; the script is
  finite, so no fuel is needed. The bulk loops may run forever and are partial functions with
  \<^verbatim>\<open>None\<close> for that. All other recursion is structural.

  \<^bold>\<open>Not modelled.\<close> The TLS handshake, whose outcome is an argument; constructors and
  destructors that only manage memory; the time zone and locale of \<^verbatim>\<open>put_time\<close> (a parameter);
  interleavings inside one operation other than those of \<^verbatim>\<open>RequestThreads\<close> and of the waits; build
  files and test drivers.
\<close>

section \<open>The wallet over the client\<close>

text \<open>
  C18. The wallet's cache holds what the server said. When the wallet loads a list of distinct
  transactions through the Ronghua client and the call returns, then some events have happened on the
  connection, and for every id of the list the cached text was read from a message that is in the queue
  after these events (or was in it before the call) and matches the number of a request for that very
  transaction, sent by this call; the other cached texts and all histories are as before. (A message
  matches a number it carries; when the counter has wrapped, a negative number is matched by a message
  without number.)
\<close>

theorem wallet_loads_from_server:
  assumes "load_txs_bulk (ronghua_interface J ahi0) ids (s, w) = (Inr (), (s', w'))" "distinct ids"
  shows "same_histories s s' \<and> (\<forall>u. u \<notin> set ids \<longrightarrow> known_txhex s' u = known_txhex s u) \<and>
    (\<exists>new happened. sent w' = sent w @ new \<and> events w = happened @ events w' \<and>
      (\<forall>i < length ids. \<exists>n. \<exists>m \<in> set (queue (network J happened w)).
         request_text J ''blockchain.transaction.get'' (ids ! i) n \<in> set new \<and> matches_id n m \<and>
         at_get J (js_get_string J) (msg_json m) ''result'' = Inr (known_txhex s' (ids ! i))))"
proof -
  from assms(1) obtain hexes w1 where
    bulk: "getTransactionBulk J ids (progress_callbacks s) w = (Inr hexes, w1)"
    by (auto simp: load_txs_bulk_def exec_simps ronghua_interface_def split: prod.splits)
  from load_txs_bulk_cached [OF _ assms(2), of "ronghua_interface J ahi0" s w hexes w1] bulk
  obtain t where t: "load_txs_bulk (ronghua_interface J ahi0) ids (s, w) = (Inr (), (t, w1))"
    "same_histories s t" "\<forall>i < length ids. known_txhex t (ids ! i) = hexes ! i"
    "\<forall>u. u \<notin> set ids \<longrightarrow> known_txhex t u = known_txhex s u"
    using ronghua.bulk_service_axioms by (auto simp: ronghua_interface_def)
  with assms(1) have "t = s'" "w1 = w'" by auto
  with t getTransactionBulk_answers [OF bulk] show ?thesis by auto
qed

theorem wallet_loads_from_server_witness:
  "\<exists>s' w'. load_txs_bulk (ronghua_interface sample_json undefined) [''a'', ''b''] (sample_front, sample_ronghua)
      = (Inr (), (s', w')) \<and>
    (\<exists>new happened. sent w' = sent sample_ronghua @ new \<and> events sample_ronghua = happened @ events w' \<and>
      (\<exists>n. \<exists>m \<in> set (queue (network sample_json happened sample_ronghua)).
         request_text sample_json ''blockchain.transaction.get'' ''b'' n \<in> set new \<and> matches_id n m \<and>
         at_get sample_json (js_get_string sample_json) (msg_json m) ''result'' = Inr (known_txhex s' ''b'')))"
proof -
  let ?r = "load_txs_bulk (ronghua_interface sample_json undefined) [''a'', ''b''] (sample_front, sample_ronghua)"
  have "fst ?r = Inr ()" by code_simp
  then obtain s' w' where run: "?r = (Inr (), (s', w'))" by (metis prod.collapse)
  have "distinct [''a'', ''b'']" by simp
  from wallet_loads_from_server [OF run this] obtain new happened where new: "sent w' = sent sample_ronghua @ new"
    "events sample_ronghua = happened @ events w'"
    "\<forall>i < length [''a'', ''b'']. \<exists>n. \<exists>m \<in> set (queue (network sample_json happened sample_ronghua)).
       request_text sample_json ''blockchain.transaction.get'' ([''a'', ''b''] ! i) n \<in> set new \<and> matches_id n m \<and>
       at_get sample_json (js_get_string sample_json) (msg_json m) ''result'' =
         Inr (known_txhex s' ([''a'', ''b''] ! i))" by blast
  from new(3) [rule_format, of 1] new(1,2) run show ?thesis
    by (intro exI [where x = s'] exI [where x = w'] conjI exI [where x = new] exI [where x = happened]) auto
qed

end
